(* ===== verification/Prelude.thy ===== *)
theory Prelude
  imports Main "HOL-Library.Word"
begin

text \<open>
  Shared vocabulary of the development: the machine types, the platform constants of an
  x86-64 Linux kernel that the sources use by name (page geometry and errno values), the
  collections of facts the component theories feed and generic lemmas on words and lists.
\<close>

unbundle bit_operations_syntax

section \<open>Machine types\<close>

type_synonym u8 = "8 word"
type_synonym u16 = "16 word"
type_synonym u32 = "32 word"
type_synonym u64 = "64 word"

section \<open>Platform constants\<close>

text \<open>
  \<open>PAGE_SHIFT\<close>, \<open>PAGE_SIZE\<close> and \<open>PAGE_MASK\<close> are those of 4 KiB pages; \<open>unsigned long\<close> is
  64 bits wide. Error codes are the positive errno numbers, functions return their negation.
\<close>

abbreviation PAGE_SHIFT :: nat where "PAGE_SHIFT \<equiv> 12"
abbreviation PAGE_SIZE :: u64 where "PAGE_SIZE \<equiv> 4096"
definition PAGE_MASK :: u64 where "PAGE_MASK = NOT (PAGE_SIZE - 1)"
abbreviation page_bytes :: nat where "page_bytes \<equiv> 4096"

abbreviation (input) EPERM :: int where "EPERM \<equiv> 1"
abbreviation (input) ENOENT :: int where "ENOENT \<equiv> 2"
abbreviation (input) EINTR :: int where "EINTR \<equiv> 4"
abbreviation (input) ENOMEM :: int where "ENOMEM \<equiv> 12"
abbreviation (input) EFAULT :: int where "EFAULT \<equiv> 14"
abbreviation (input) EBUSY :: int where "EBUSY \<equiv> 16"
abbreviation (input) EINVAL :: int where "EINVAL \<equiv> 22"

section \<open>Collections\<close>

named_theorems hash_inj \<open>injectivity of the mixing steps\<close>
named_theorems cq_simps \<open>unfolding of completion handlers\<close>
named_theorems free_list_simps \<open>the device free list\<close>
named_theorems pt_simps \<open>page-table entries\<close>

section \<open>Multiplication by odd constants\<close>

lemma word_inverse_cancel:
  fixes c d :: "'a::len word"
  assumes "c * d = 1"
  shows "x * c * d = x"
  using assms by (simp add: mult.assoc)

lemma inj_mult_unit:
  fixes c d :: "'a::len word"
  assumes "c * d = 1"
  shows "inj (\<lambda>x. x * c)"
  by (rule inj_on_inverseI [where g = "\<lambda>y. y * d"]) (rule word_inverse_cancel [OF assms])

lemma xor_right_cancel [simp]: "(x XOR z = y XOR z) = (x = y)" for x y z :: "'a::len word"
  by (metis bit.xor_left_self xor.commute)

section \<open>Logical shifts folded back\<close>

lemma xorshift_involution:
  fixes x :: "'a::len word"
  assumes "LENGTH('a) \<le> 2 * r"
  shows "(x XOR drop_bit r x) XOR drop_bit r (x XOR drop_bit r x) = x"
proof -
  have "drop_bit r (drop_bit r x) = 0"
    by (rule bit_eqI) (use assms bit_imp_le_length [of x] in \<open>force simp: bit_drop_bit_eq\<close>)
  then show ?thesis
    by (simp add: drop_bit_xor xor.assoc)
qed

section \<open>Page arithmetic\<close>

lemma unat_shift_page: "unat (drop_bit PAGE_SHIFT x) = unat x div page_bytes" for x :: u64
  by (simp add: drop_bit_eq_div unat_div)

lemma uint_shift_page: "uint (drop_bit PAGE_SHIFT x) = uint x div 4096" for x :: u64
  by (simp add: drop_bit_eq_div uint_div)

lemma page_mask_div: "x AND PAGE_MASK = (x div PAGE_SIZE) * PAGE_SIZE" for x :: u64
proof -
  have m: "PAGE_SIZE - 1 = mask 12" by (simp add: mask_eq_exp_minus_1)
  have "x AND PAGE_MASK = push_bit 12 (drop_bit 12 x)"
    unfolding PAGE_MASK_def m by (rule bit_word_eqI) (auto simp: bit_simps)
  then show ?thesis by (simp add: push_bit_eq_mult drop_bit_eq_div)
qed

lemma and_PAGE_MASK: "uint (x AND PAGE_MASK) = 4096 * (uint x div 4096)" for x :: u64
proof -
  have "4096 * (uint x div 4096) \<le> uint x"
    by (metis add.commute le_add_same_cancel1 mult_div_mod_eq pos_mod_sign zero_less_numeral)
  also have "\<dots> < 2 ^ 64" using uint_lt2p [of x] by simp
  finally have "4096 * (uint x div 4096) mod 2 ^ 64 = 4096 * (uint x div 4096)"
    by (intro mod_pos_pos_trivial) (simp_all add: pos_imp_zdiv_nonneg_iff)
  then show ?thesis by (simp add: page_mask_div uint_div uint_word_ariths mult.commute)
qed

end
