(* ===== verification/Hash.thy ===== *)
theory Hash
  imports Prelude
begin

text \<open>
  The 64-bit string hash of \<open>hash.c\<close> (\<open>XXH3_64bit\<close> and its helpers), on 64-bit words.
  The argument is a C string: \<open>s\<close> is its characters before the terminating NUL, and
  \<open>after\<close> the bytes the memory holds from the NUL on, because the code reads eight bytes at
  a time and may read past the end. Reads are little-endian, as on x86-64.
\<close>

unbundle bit_operations_syntax

section \<open>Helpers\<close>

definition XXH3_rotl64 :: "u64 \<Rightarrow> nat \<Rightarrow> u64" where
  "XXH3_rotl64 x r = push_bit r x OR drop_bit (64 - r) x"

definition XXH3_avalanche :: "u64 \<Rightarrow> u64" where
  "XXH3_avalanche h64 =
    (let h64 = h64 XOR drop_bit 37 h64;
         h64 = h64 * 0x165667919E3779F9;
         h64 = h64 XOR drop_bit 32 h64
     in h64)"

text \<open>The memory from the start of the string, and the unaligned load \<open>*(const u64 *)p\<close>.\<close>

definition cmem :: "u8 list \<Rightarrow> (nat \<Rightarrow> u8) \<Rightarrow> nat \<Rightarrow> u8" where
  "cmem s after i = (if i < length s then s ! i else after (i - length s))"

definition rd64 :: "(nat \<Rightarrow> u8) \<Rightarrow> nat \<Rightarrow> u64" where
  "rd64 m p = of_nat (horner_sum unat 256 (map m [p ..< p + 8]))"

section \<open>The three mixing steps\<close>

definition round32 :: "(nat \<Rightarrow> u8) \<Rightarrow> nat \<Rightarrow> u64 \<Rightarrow> u64" where
  "round32 m p acc =
    (let k1 = rd64 m p; k2 = rd64 m (p + 8); k3 = rd64 m (p + 16); k4 = rd64 m (p + 24);
         acc = XXH3_rotl64 (acc XOR (k1 * 0x51B051B051B051B)) 29 + (k2 * 0x7CB07CB07CB07CB1);
         acc = XXH3_rotl64 acc 21;
         acc = acc * 0xC6A4A7935BD1E995 + k3;
         acc = XXH3_rotl64 acc 19 XOR (k4 * 0x51B051B051B051B)
     in acc)"

definition round16 :: "(nat \<Rightarrow> u8) \<Rightarrow> nat \<Rightarrow> u64 \<Rightarrow> u64" where
  "round16 m p acc =
    (let k1 = rd64 m p; k2 = rd64 m (p + 8)
     in XXH3_rotl64 (acc XOR (k1 * 0x9FB21C651E98DF25)) 31 * 0x9FB21C651E98DF25
        + (k2 * 0x9FB21C651E98DF25))"

definition round_tail :: "(nat \<Rightarrow> u8) \<Rightarrow> nat \<Rightarrow> u64 \<Rightarrow> u64" where
  "round_tail m p acc =
    (let k1 = rd64 m p
     in XXH3_rotl64 (acc XOR (k1 * 0xA0761D6478BD642F)) 27 * 0xA0761D6478BD642F)"

section \<open>The loops\<close>

text \<open>
  \<open>do { ... p += 32; } while (p <= bEnd - 32)\<close> and \<open>while (p <= bEnd - 16) { ... p += 16; }\<close>.
  Pointers are offsets from \<open>input\<close>; the limits are integers because \<open>bEnd - 16\<close> lies before
  the string when it is shorter than 16 bytes.
\<close>

function loop32 :: "(nat \<Rightarrow> u8) \<Rightarrow> nat \<Rightarrow> nat \<Rightarrow> u64 \<Rightarrow> nat \<times> u64" where
  "loop32 m n p acc =
    (let acc = round32 m p acc; p = p + 32
     in if int p \<le> int n - 32 then loop32 m n p acc else (p, acc))"
  by pat_completeness auto
termination
  by (relation "measure (\<lambda>(m, n, p, acc). n - p)") auto

function loop16 :: "(nat \<Rightarrow> u8) \<Rightarrow> nat \<Rightarrow> nat \<Rightarrow> u64 \<Rightarrow> nat \<times> u64" where
  "loop16 m n p acc =
    (if int p \<le> int n - 16 then loop16 m n (p + 16) (round16 m p acc) else (p, acc))"
  by pat_completeness auto
termination
  by (relation "measure (\<lambda>(m, n, p, acc). n - p)") auto

declare loop32.simps [simp del] loop16.simps [simp del]

definition XXH3_64bit :: "u8 list \<Rightarrow> (nat \<Rightarrow> u8) \<Rightarrow> u64" where
  "XXH3_64bit s after =
    (let m = cmem s after; n = length s; p = 0; acc = 0;
         (p, acc) = (if 32 \<le> n then loop32 m n p acc else (p, acc));
         (p, acc) = loop16 m n p acc;
         acc = (if p < n then round_tail m p acc else acc);
         acc = acc XOR of_nat n
     in XXH3_avalanche acc)"

section \<open>The loops as folds over blocks\<close>

text \<open>
  The abstract reading of the two loops: every full 32-byte block in order, then at most one
  16-byte block, then at most one load for what is left.
\<close>

definition blocks32 :: "(nat \<Rightarrow> u8) \<Rightarrow> nat \<Rightarrow> nat \<Rightarrow> u64 \<Rightarrow> u64" where
  "blocks32 m i k = fold (\<lambda>j. round32 m (32 * j)) [i ..< k]"

definition hash_spec :: "(nat \<Rightarrow> u8) \<Rightarrow> nat \<Rightarrow> u64" where
  "hash_spec m n =
    (let acc = blocks32 m 0 (n div 32) 0;
         acc = (if 16 \<le> n mod 32 then round16 m (32 * (n div 32)) acc else acc);
         acc = (if n mod 16 \<noteq> 0 then round_tail m (16 * (n div 16)) acc else acc)
     in XXH3_avalanche (acc XOR of_nat n))"

lemma blocks32_step: "i < k \<Longrightarrow> blocks32 m i k acc = blocks32 m (Suc i) k (round32 m (32 * i) acc)"
  by (simp add: blocks32_def upt_conv_Cons)

lemma blocks32_done [simp]: "k \<le> i \<Longrightarrow> blocks32 m i k acc = acc"
  by (simp add: blocks32_def)

lemma loop32_blocks:
  "i < n div 32 \<Longrightarrow> loop32 m n (32 * i) acc = (32 * (n div 32), blocks32 m i (n div 32) acc)"
proof (induction "n div 32 - i" arbitrary: i acc rule: less_induct)
  case less
  have step: "32 * i + 32 = 32 * Suc i" by simp
  show ?case
  proof (cases "Suc i < n div 32")
    case True
    then have "32 * Suc (Suc i) \<le> n" by (simp add: less_eq_div_iff_mult_less_eq Suc_le_eq [symmetric] mult.commute)
    then have "int (32 * Suc i) \<le> int n - 32" by simp
    with less True show ?thesis
      by (subst loop32.simps) (simp only: Let_def step if_True blocks32_step)
  next
    case False
    with less.prems have "n div 32 = Suc i" by simp
    moreover then have "n < 32 * Suc (Suc i)" by (simp add: div_less_iff_less_mult [symmetric])
    then have "\<not> int (32 * Suc i) \<le> int n - 32" by simp
    ultimately show ?thesis
      by (subst loop32.simps) (simp add: Let_def blocks32_step)
  qed
qed

lemma loop16_tail:
  assumes "p \<le> n" and "n - p < 32"
  shows "loop16 m n p acc =
    (if 16 \<le> n - p then (p + 16, round16 m p acc) else (p, acc))"
  using assms by (subst loop16.simps) (auto simp: loop16.simps [of m n "p + 16"])

lemma div16_of_div32: "n div 16 = 2 * (n div 32) + (if 16 \<le> n mod 32 then 1 else 0)" for n :: nat
proof -
  have "n div 16 = (n mod 32 + 2 * (n div 32) * 16) div 16" by (simp add: mult.commute)
  also have "\<dots> = 2 * (n div 32) + n mod 32 div 16" by (subst div_mult_self1) simp_all
  also have "n mod 32 div 16 = (if 16 \<le> n mod 32 then 1 else 0)"
    by (auto intro!: div_nat_eqI)
  finally show ?thesis .
qed

lemma tail_iff: "(16 * (n div 16) < n) = (n mod 16 \<noteq> (0::nat))"
  by (metis div_mult_mod_eq less_add_same_cancel1 mult.commute neq0_conv)

lemma XXH3_blocks: "XXH3_64bit s after = hash_spec (cmem s after) (length s)"
proof -
  let ?m = "cmem s after" and ?n = "length s"
  have "(if 32 \<le> ?n then loop32 ?m ?n 0 0 else (0, 0)) =
      (32 * (?n div 32), blocks32 ?m 0 (?n div 32) 0)"
    using loop32_blocks [of 0 ?n ?m 0] by (auto simp: div_greater_zero_iff)
  moreover have "loop16 ?m ?n (32 * (?n div 32)) acc =
      (16 * (?n div 16), if 16 \<le> ?n mod 32 then round16 ?m (32 * (?n div 32)) acc else acc)" for acc
    by (subst loop16_tail) (auto simp: minus_mult_div_eq_mod div16_of_div32)
  ultimately show ?thesis
    by (simp add: XXH3_64bit_def hash_spec_def Let_def tail_iff)
qed

text \<open>
  C39. The optimised loop structure of \<open>XXH3_64bit\<close> computes exactly the block-by-block
  reference: for a string of any length, every full 32-byte block is mixed once and in order,
  a remaining 16-byte block once, and a non-empty rest by one load.
\<close>

theorem XXH3_64bit_blocks: "XXH3_64bit s after = hash_spec (cmem s after) (length s)"
  by (rule XXH3_blocks)

section \<open>No step loses information\<close>

lemma XXH3_rotl64_word_rotl:
  assumes "0 < r" and "r < 64"
  shows "XXH3_rotl64 x r = word_rotl r x"
proof (rule bit_word_eqI)
  fix n
  assume "n < LENGTH(64)"
  then have n: "n < 64" by simp
  have high: "bit x (64 - r + n) \<Longrightarrow> 64 - r + n < 64"
    by (drule bit_imp_le_length) simp
  show "bit (XXH3_rotl64 x r) n = bit (word_rotl r x) n"
  proof (cases "r \<le> n")
    case True
    then have "(n + (64 - r)) mod 64 = n - r" using n assms by (simp add: mod_if)
    with True n assms high show ?thesis
      by (auto simp: XXH3_rotl64_def bit_word_rotl_iff bit_or_iff bit_push_bit_iff bit_drop_bit_eq)
  next
    case False
    then have "64 - r + n < 64" using assms by arith
    then have "(n + (64 - r)) mod 64 = 64 - r + n" by (metis add.commute mod_less)
    with False n assms show ?thesis
      by (auto simp: XXH3_rotl64_def bit_word_rotl_iff bit_or_iff bit_push_bit_iff bit_drop_bit_eq)
  qed
qed

lemma XXH3_rotl64_cancel [hash_inj]:
  "0 < r \<Longrightarrow> r < 64 \<Longrightarrow> (XXH3_rotl64 x r = XXH3_rotl64 y r) = (x = y)"
  by (metis XXH3_rotl64_word_rotl word_rot_lr)

lemma mult_unit_cancel: "c * d = 1 \<Longrightarrow> (x * c = y * c) = (x = y)" for c d x y :: u64
  by (metis word_inverse_cancel)

lemma mult_prime_cancel [hash_inj]:
  "(x * 0x165667919E3779F9 = y * 0x165667919E3779F9) = (x = y)"
  "(x * 0x9FB21C651E98DF25 = y * 0x9FB21C651E98DF25) = (x = y)"
  "(x * 0xA0761D6478BD642F = y * 0xA0761D6478BD642F) = (x = y)"
  "(x * 0xC6A4A7935BD1E995 = y * 0xC6A4A7935BD1E995) = (x = y)"
  "(x * 0x7CB07CB07CB07CB1 = y * 0x7CB07CB07CB07CB1) = (x = y)"
  "(x * 0x51B051B051B051B = y * 0x51B051B051B051B) = (x = y)" for x y :: u64
  by (simp_all add: mult_unit_cancel [of "0x165667919E3779F9" "0x8DA8EE41D6DF849"]
    mult_unit_cancel [of "0x9FB21C651E98DF25" "0x2AB9C720D1024AD"]
    mult_unit_cancel [of "0xA0761D6478BD642F" "0x939C72E4AF1E62CF"]
    mult_unit_cancel [of "0xC6A4A7935BD1E995" "0x5F7A0EA7E59B19BD"]
    mult_unit_cancel [of "0x7CB07CB07CB07CB1" "0x704AF01F12644C51"]
    mult_unit_cancel [of "0x51B051B051B051B" "0x373C21B07A38CD13"])

lemma xor_left_cancel [hash_inj]: "(z XOR x = z XOR y) = (x = y)" for x y z :: u64
  by (metis xor.commute xor_right_cancel)

definition XXH3_avalanche_inv :: "u64 \<Rightarrow> u64" where
  "XXH3_avalanche_inv h =
    (let h = h XOR drop_bit 32 h; h = h * 0x8DA8EE41D6DF849 in h XOR drop_bit 37 h)"

lemma avalanche_left_inverse: "XXH3_avalanche_inv (XXH3_avalanche h) = h"
proof -
  let ?a = "h XOR drop_bit 37 h"
  let ?b = "?a * 0x165667919E3779F9"
  have "(?b XOR drop_bit 32 ?b) XOR drop_bit 32 (?b XOR drop_bit 32 ?b) = ?b"
    by (rule xorshift_involution) simp
  moreover have "?b * 0x8DA8EE41D6DF849 = ?a" by (rule word_inverse_cancel) simp
  moreover have "?a XOR drop_bit 37 ?a = h" by (rule xorshift_involution) simp
  ultimately show ?thesis
    unfolding XXH3_avalanche_def XXH3_avalanche_inv_def Let_def by (simp only:)
qed

lemma avalanche_right_inverse: "XXH3_avalanche (XXH3_avalanche_inv h) = h"
proof -
  let ?a = "h XOR drop_bit 32 h"
  let ?b = "?a * 0x8DA8EE41D6DF849"
  have "(?b XOR drop_bit 37 ?b) XOR drop_bit 37 (?b XOR drop_bit 37 ?b) = ?b"
    by (rule xorshift_involution) simp
  moreover have "?b * 0x165667919E3779F9 = ?a" by (rule word_inverse_cancel) simp
  moreover have "?a XOR drop_bit 32 ?a = h" by (rule xorshift_involution) simp
  ultimately show ?thesis
    unfolding XXH3_avalanche_def XXH3_avalanche_inv_def Let_def by (simp only:)
qed

lemma avalanche_cancel [hash_inj]: "(XXH3_avalanche x = XXH3_avalanche y) = (x = y)"
  by (metis avalanche_left_inverse)

section \<open>Injectivity of the rounds\<close>

lemma horner_sum_bytes_less: "horner_sum unat 256 xs < 256 ^ length xs" for xs :: "u8 list"
proof (induction xs)
  case (Cons x xs)
  have "unat x < 256" using unsigned_less [of x, where ?'a = nat] by simp
  with Cons show ?case by simp
qed simp

lemma horner_sum_bytes_inject:
  fixes xs ys :: "u8 list"
  assumes "length xs = length ys"
    and "horner_sum unat (256 :: nat) xs = horner_sum unat 256 ys"
  shows "xs = ys"
  using assms
proof (induction xs ys rule: list_induct2)
  case (Cons x xs y ys)
  have less: "unat z < 256" for z :: u8 using unsigned_less [of z, where ?'a = nat] by simp
  from Cons.prems have eq: "unat x + 256 * horner_sum unat 256 xs = unat y + 256 * horner_sum unat 256 ys"
    by simp
  then have "(unat x + 256 * horner_sum unat 256 xs) mod 256 = (unat y + 256 * horner_sum unat 256 ys) mod 256"
    by (rule arg_cong)
  then have "unat x = unat y" using less [of x] less [of y] by simp
  with eq Cons.IH show ?case by (simp add: word_unat_eq_iff)
qed simp

lemma rd64_eq_iff: "(rd64 m p = rd64 m' p) = (\<forall>i. p \<le> i \<longrightarrow> i < p + 8 \<longrightarrow> m i = m' i)"
proof
  let ?h = "\<lambda>m. horner_sum unat (256 :: nat) (map m [p ..< p + 8])"
  have bound: "?h m < 2 ^ 64" for m :: "nat \<Rightarrow> u8"
    using horner_sum_bytes_less [of "map m [p ..< p + 8]"] by simp
  assume "rd64 m p = rd64 m' p"
  then have "unat (rd64 m p) = unat (rd64 m' p)" by simp
  then have "?h m = ?h m'"
    unfolding rd64_def using bound by (simp only: unat_of_nat take_bit_eq_mod) (simp add: unat_of_nat)
  then have "map m [p ..< p + 8] = map m' [p ..< p + 8]"
    by (rule horner_sum_bytes_inject [rotated]) simp
  then show "\<forall>i. p \<le> i \<longrightarrow> i < p + 8 \<longrightarrow> m i = m' i" by (simp add: map_eq_conv)
next
  assume "\<forall>i. p \<le> i \<longrightarrow> i < p + 8 \<longrightarrow> m i = m' i"
  then have "map m [p ..< p + 8] = map m' [p ..< p + 8]" by simp
  then show "rd64 m p = rd64 m' p" unfolding rd64_def by (simp only:)
qed

lemma round32_cancel [hash_inj]: "(round32 m p x = round32 m p y) = (x = y)"
  by (simp add: round32_def Let_def hash_inj)

lemma round16_cancel [hash_inj]: "(round16 m p x = round16 m p y) = (x = y)"
  by (simp add: round16_def Let_def hash_inj)

lemma round_tail_cancel [hash_inj]: "(round_tail m p x = round_tail m p y) = (x = y)"
  by (simp add: round_tail_def Let_def hash_inj)

lemma round32_one_lane:
  assumes "rd64 m (p + 8 * j) \<noteq> rd64 m' (p + 8 * j)" and "j < 4"
    and "\<And>i. i < 4 \<Longrightarrow> i \<noteq> j \<Longrightarrow> rd64 m (p + 8 * i) = rd64 m' (p + 8 * i)"
  shows "round32 m p acc \<noteq> round32 m' p acc"
proof -
  consider "j = 0" | "j = 1" | "j = 2" | "j = 3" using assms(2) by linarith
  then show ?thesis
    using assms(1) assms(3) [of 0] assms(3) [of 1] assms(3) [of 2] assms(3) [of 3]
    by cases (simp_all add: round32_def Let_def hash_inj)
qed

lemma round16_one_lane:
  assumes "rd64 m (p + 8 * j) \<noteq> rd64 m' (p + 8 * j)" and "j < 2"
    and "\<And>i. i < 2 \<Longrightarrow> i \<noteq> j \<Longrightarrow> rd64 m (p + 8 * i) = rd64 m' (p + 8 * i)"
  shows "round16 m p acc \<noteq> round16 m' p acc"
proof -
  consider "j = 0" | "j = 1" using assms(2) by linarith
  then show ?thesis
    using assms(1) assms(3) [of 0] assms(3) [of 1]
    by cases (simp_all add: round16_def Let_def hash_inj)
qed

lemma round_tail_lane: "(round_tail m p acc = round_tail m' p acc) = (rd64 m p = rd64 m' p)"
  by (simp add: round_tail_def Let_def hash_inj)

lemma round_tail_same: "rd64 m p = rd64 m' p \<Longrightarrow> (round_tail m p x = round_tail m' p y) = (x = y)"
  by (simp add: round_tail_def Let_def hash_inj)

lemma blocks32_cancel: "(blocks32 m i k x = blocks32 m i k y) = (x = y)"
  by (induction k) (auto simp: blocks32_def hash_inj not_le upt_Suc_append)

section \<open>Which bytes the hash depends on\<close>

lemma round32_cong: "(\<And>i. i < 4 \<Longrightarrow> rd64 m (p + 8 * i) = rd64 m' (p + 8 * i)) \<Longrightarrow> round32 m p acc = round32 m' p acc"
proof -
  assume "\<And>i. i < 4 \<Longrightarrow> rd64 m (p + 8 * i) = rd64 m' (p + 8 * i)"
  from this [of 0] this [of 1] this [of 2] this [of 3] show ?thesis
    by (simp add: round32_def)
qed

lemma round16_cong: "(\<And>i. i < 2 \<Longrightarrow> rd64 m (p + 8 * i) = rd64 m' (p + 8 * i)) \<Longrightarrow> round16 m p acc = round16 m' p acc"
proof -
  assume "\<And>i. i < 2 \<Longrightarrow> rd64 m (p + 8 * i) = rd64 m' (p + 8 * i)"
  from this [of 0] this [of 1] show ?thesis
    by (simp add: round16_def)
qed

lemma blocks32_same:
  assumes "\<And>j x. i \<le> j \<Longrightarrow> j < k \<Longrightarrow> round32 m (32 * j) x = round32 m' (32 * j) x"
  shows "blocks32 m i k acc = blocks32 m' i k acc"
  unfolding blocks32_def by (rule fold_cong [OF refl refl], rule ext) (use assms in simp)

lemma blocks32_split:
  assumes "i < k"
  shows "blocks32 m 0 k acc = blocks32 m (Suc i) k (round32 m (32 * i) (blocks32 m 0 i acc))"
proof -
  obtain d where k: "k = i + Suc d" using less_imp_Suc_add [OF assms] by auto
  have "[0 ..< k] = [0 ..< i] @ i # [Suc i ..< k]"
    unfolding k by (subst upt_add_eq_append) (simp_all add: upt_conv_Cons del: upt_Suc)
  then show ?thesis by (simp add: blocks32_def)
qed

text \<open>The 8-byte lanes that the hash of an \<open>n\<close>-byte string reads, at offsets \<open>0, 8, 16, \<dots>\<close>.\<close>

definition lanes_read :: "nat \<Rightarrow> nat" where
  "lanes_read n = 2 * (n div 16) + (if n mod 16 \<noteq> 0 then 1 else 0)"

definition lanes_agree :: "(nat \<Rightarrow> u8) \<Rightarrow> (nat \<Rightarrow> u8) \<Rightarrow> nat set \<Rightarrow> bool" where
  "lanes_agree m m' L \<longleftrightarrow> (\<forall>l \<in> L. rd64 m (8 * l) = rd64 m' (8 * l))"

lemma lanes_agreeD: "lanes_agree m m' L \<Longrightarrow> 8 * l = p \<Longrightarrow> l \<in> L \<Longrightarrow> rd64 m p = rd64 m' p"
  by (auto simp: lanes_agree_def)

lemma blocks32_one_lane:
  assumes l: "l < 4 * k" and diff: "rd64 m (8 * l) \<noteq> rd64 m' (8 * l)"
    and agree: "lanes_agree m m' ({..<4 * k} - {l})"
  shows "blocks32 m 0 k acc \<noteq> blocks32 m' 0 k acc"
proof -
  let ?i = "l div 4"
  have i: "?i < k" using l by (simp add: div_less_iff_less_mult)
  have same: "rd64 m (32 * j + 8 * x) = rd64 m' (32 * j + 8 * x)"
    if "x < 4" "j < k" "j \<noteq> ?i \<or> x \<noteq> l mod 4" for j x
    using that by (intro lanes_agreeD [OF agree, of "4 * j + x"]) auto
  have pre: "blocks32 m 0 ?i acc = blocks32 m' 0 ?i acc"
    by (intro blocks32_same round32_cong same) (use i in auto)
  have post: "blocks32 m (Suc ?i) k x = blocks32 m' (Suc ?i) k x" for x
    by (intro blocks32_same round32_cong same) auto
  have lane: "32 * ?i + 8 * (l mod 4) = 8 * l" by presburger
  have "round32 m (32 * ?i) (blocks32 m 0 ?i acc) \<noteq> round32 m' (32 * ?i) (blocks32 m 0 ?i acc)"
    by (rule round32_one_lane [where j = "l mod 4"]) (use diff i same in \<open>auto simp: lane\<close>)
  then show ?thesis
    by (simp add: blocks32_split [OF i] post pre blocks32_cancel)
qed

lemma blocks32_agree:
  assumes "lanes_agree m m' {..<4 * k}"
  shows "blocks32 m 0 k acc = blocks32 m' 0 k acc"
proof (rule blocks32_same, rule round32_cong)
  fix j x i :: nat
  assume "j < k" and "i < 4"
  then show "rd64 m (32 * j + 8 * i) = rd64 m' (32 * j + 8 * i)"
    by (intro lanes_agreeD [OF assms, of "4 * j + i"]) auto
qed

lemma lanes_agree_mono: "lanes_agree m m' L \<Longrightarrow> K \<subseteq> L \<Longrightarrow> lanes_agree m m' K"
  by (auto simp: lanes_agree_def)

text \<open>The accumulator before the optional tail load, and before finalisation.\<close>

definition acc_blocks :: "(nat \<Rightarrow> u8) \<Rightarrow> nat \<Rightarrow> u64" where
  "acc_blocks m n =
    (let acc = blocks32 m 0 (n div 32) 0
     in if 16 \<le> n mod 32 then round16 m (32 * (n div 32)) acc else acc)"

lemma hash_spec_acc: "hash_spec m n = XXH3_avalanche
    ((if n mod 16 \<noteq> 0 then round_tail m (16 * (n div 16)) (acc_blocks m n) else acc_blocks m n) XOR of_nat n)"
  by (simp add: hash_spec_def acc_blocks_def Let_def)

lemma acc_blocks_agree:
  assumes "lanes_agree m m' {..<2 * (n div 16)}"
  shows "acc_blocks m n = acc_blocks m' n"
proof -
  have "blocks32 m 0 (n div 32) 0 = blocks32 m' 0 (n div 32) 0"
    by (rule blocks32_agree [OF lanes_agree_mono [OF assms]]) (auto simp: div16_of_div32)
  moreover have "round16 m (32 * (n div 32)) x = round16 m' (32 * (n div 32)) x" if "16 \<le> n mod 32" for x
    by (rule round16_cong, rule lanes_agreeD [OF assms, of "4 * (n div 32) + i" for i])
      (use that in \<open>auto simp: div16_of_div32\<close>)
  ultimately show ?thesis by (simp add: acc_blocks_def Let_def)
qed

lemma acc_blocks_one_lane:
  assumes l: "l < 2 * (n div 16)" and diff: "rd64 m (8 * l) \<noteq> rd64 m' (8 * l)"
    and agree: "lanes_agree m m' ({..<2 * (n div 16)} - {l})"
  shows "acc_blocks m n \<noteq> acc_blocks m' n"
proof (cases "l < 4 * (n div 32)")
  case True
  have "blocks32 m 0 (n div 32) 0 \<noteq> blocks32 m' 0 (n div 32) 0"
    by (rule blocks32_one_lane [OF True diff], rule lanes_agree_mono [OF agree]) (auto simp: div16_of_div32)
  moreover have "round16 m (32 * (n div 32)) x = round16 m' (32 * (n div 32)) x" if "16 \<le> n mod 32" for x
    by (rule round16_cong, rule lanes_agreeD [OF agree, of "4 * (n div 32) + i" for i])
      (use that True in \<open>auto simp: div16_of_div32\<close>)
  ultimately show ?thesis by (auto simp: acc_blocks_def Let_def hash_inj)
next
  case False
  then have r: "16 \<le> n mod 32" using l by (auto simp: div16_of_div32 split: if_splits)
  have "blocks32 m 0 (n div 32) 0 = blocks32 m' 0 (n div 32) 0"
    by (rule blocks32_agree [OF lanes_agree_mono [OF agree]]) (use False in \<open>auto simp: div16_of_div32\<close>)
  moreover have "round16 m (32 * (n div 32)) x \<noteq> round16 m' (32 * (n div 32)) x" for x
  proof (rule round16_one_lane [where j = "l - 4 * (n div 32)"])
    show "l - 4 * (n div 32) < 2" using l r by (simp add: div16_of_div32)
    have "32 * (n div 32) + 8 * (l - 4 * (n div 32)) = 8 * l" using False by simp
    with diff show "rd64 m (32 * (n div 32) + 8 * (l - 4 * (n div 32)))
        \<noteq> rd64 m' (32 * (n div 32) + 8 * (l - 4 * (n div 32)))" by simp
  next
    fix i :: nat
    assume "i < 2" and "i \<noteq> l - 4 * (n div 32)"
    then show "rd64 m (32 * (n div 32) + 8 * i) = rd64 m' (32 * (n div 32) + 8 * i)"
      by (intro lanes_agreeD [OF agree, of "4 * (n div 32) + i"]) (use r False in \<open>auto simp: div16_of_div32\<close>)
  qed
  ultimately show ?thesis using r by (simp add: acc_blocks_def Let_def)
qed

lemma hash_spec_agree:
  assumes "lanes_agree m m' {..<lanes_read n}"
  shows "hash_spec m n = hash_spec m' n"
proof -
  have "acc_blocks m n = acc_blocks m' n"
    by (rule acc_blocks_agree, rule lanes_agree_mono [OF assms]) (auto simp: lanes_read_def)
  moreover have "rd64 m (16 * (n div 16)) = rd64 m' (16 * (n div 16))" if "n mod 16 \<noteq> 0"
    by (rule lanes_agreeD [OF assms, of "2 * (n div 16)"]) (use that in \<open>auto simp: lanes_read_def\<close>)
  ultimately show ?thesis by (simp add: hash_spec_acc hash_inj round_tail_same)
qed

lemma hash_spec_one_lane:
  assumes l: "l < lanes_read n" and diff: "rd64 m (8 * l) \<noteq> rd64 m' (8 * l)"
    and agree: "lanes_agree m m' ({..<lanes_read n} - {l})"
  shows "hash_spec m n \<noteq> hash_spec m' n"
proof (cases "l < 2 * (n div 16)")
  case True
  have "acc_blocks m n \<noteq> acc_blocks m' n"
    by (rule acc_blocks_one_lane [OF True diff], rule lanes_agree_mono [OF agree])
      (auto simp: lanes_read_def)
  moreover have "rd64 m (16 * (n div 16)) = rd64 m' (16 * (n div 16))" if "n mod 16 \<noteq> 0"
    by (rule lanes_agreeD [OF agree, of "2 * (n div 16)"]) (use that True in \<open>auto simp: lanes_read_def\<close>)
  ultimately show ?thesis
    by (simp add: hash_spec_acc hash_inj round_tail_same)
next
  case False
  then have l': "l = 2 * (n div 16)" "n mod 16 \<noteq> 0"
    using l by (auto simp: lanes_read_def split: if_splits)
  have "acc_blocks m n = acc_blocks m' n"
    by (rule acc_blocks_agree, rule lanes_agree_mono [OF agree]) (use l' in \<open>auto simp: lanes_read_def\<close>)
  then show ?thesis using l' diff by (simp add: hash_spec_acc hash_inj round_tail_lane)
qed

lemma mod_above_block: "8 \<le> n mod 16 \<Longrightarrow> 16 * (n div 16) + 8 \<le> n" for n :: nat
  by (metis add_le_cancel_left mult_div_mod_eq)

lemma lanes_agree_bytes:
  assumes "\<And>i. i < 8 * k \<Longrightarrow> m i = m' i"
  shows "lanes_agree m m' {..<k}"
  using assms by (auto simp: lanes_agree_def rd64_eq_iff)

text \<open>
  No read lane of the input is ignored and no two lanes cancel: changing bytes of
  exactly one 8-byte lane that the hash reads always changes the 64-bit result.
\<close>

theorem XXH3_64bit_lane_change:
  assumes len: "length t = length s"
    and l: "l < lanes_read (length s)"
    and i: "i < length s" "i div 8 = l" "s ! i \<noteq> t ! i"
    and same: "\<And>j. j < length s \<Longrightarrow> j div 8 \<noteq> l \<Longrightarrow> s ! j = t ! j"
  shows "XXH3_64bit s after \<noteq> XXH3_64bit t after"
proof -
  let ?m = "cmem s after" and ?m' = "cmem t after"
  have "rd64 ?m (8 * l) \<noteq> rd64 ?m' (8 * l)"
  proof
    assume "rd64 ?m (8 * l) = rd64 ?m' (8 * l)"
    then have "?m i = ?m' i" using i(2) by (auto simp: rd64_eq_iff)
    with i len show False by (simp add: cmem_def)
  qed
  moreover have "rd64 ?m (8 * k) = rd64 ?m' (8 * k)" if "k \<noteq> l" for k
    using same len that by (auto simp: rd64_eq_iff cmem_def div_nat_eqI)
  ultimately have "hash_spec ?m (length s) \<noteq> hash_spec ?m' (length s)"
    by (intro hash_spec_one_lane [OF l]) (auto simp: lanes_agree_def)
  then show ?thesis by (simp add: XXH3_blocks len)
qed

text \<open>
  When the string ends on a 16-byte boundary or its rest has at least 8 bytes, the hash
  is a function of the bytes of the read lanes alone: it reads nothing past the end, and it ignores every byte
  of the rest after the eighth, so strings that differ only there collide.
\<close>

theorem XXH3_64bit_determined:
  assumes len: "length t = length s"
    and rest: "length s mod 16 = 0 \<or> 8 \<le> length s mod 16"
    and same: "\<And>j. j < 8 * lanes_read (length s) \<Longrightarrow> s ! j = t ! j"
  shows "XXH3_64bit s after = XXH3_64bit t after'"
proof -
  have "8 * lanes_read (length s) \<le> length s"
    using rest by (auto simp: lanes_read_def mod_above_block)
  with len same have "lanes_agree (cmem s after) (cmem t after') {..<lanes_read (length s)}"
    by (intro lanes_agree_bytes) (simp add: cmem_def)
  then show ?thesis by (simp add: XXH3_blocks len hash_spec_agree)
qed

text \<open>
  When the rest after the last 16-byte block is short, the tail load runs past the terminating
  NUL and the result depends on it: any change of a byte beyond the string, within the last
  lane, changes the hash of the same string.
\<close>

theorem XXH3_64bit_reads_past_end:
  assumes j: "length s + j < 8 * lanes_read (length s)" and b: "b \<noteq> after j"
  shows "XXH3_64bit s after \<noteq> XXH3_64bit s (after(j := b))"
proof -
  let ?m = "cmem s after" and ?m' = "cmem s (after(j := b))" and ?l = "(length s + j) div 8"
  have l: "?l < lanes_read (length s)" using j by (simp add: div_less_iff_less_mult mult.commute)
  have "?m (length s + j) \<noteq> ?m' (length s + j)" using b by (simp add: cmem_def)
  then have "rd64 ?m (8 * ?l) \<noteq> rd64 ?m' (8 * ?l)"
    by (auto simp: rd64_eq_iff intro!: exI [of _ "length s + j"])
  moreover have "rd64 ?m (8 * k) = rd64 ?m' (8 * k)" if "k \<noteq> ?l" for k
    using that by (auto simp: rd64_eq_iff cmem_def)
  ultimately have "hash_spec ?m (length s) \<noteq> hash_spec ?m' (length s)"
    by (intro hash_spec_one_lane [OF l]) (auto simp: lanes_agree_def)
  then show ?thesis by (simp add: XXH3_blocks)
qed

text \<open>
  The finalisation step is a permutation of the 64-bit values: it never merges two
  accumulators.
\<close>

theorem XXH3_avalanche_bij: "bij XXH3_avalanche"
  by (rule bij_betw_byWitness [where f' = XXH3_avalanche_inv])
    (auto simp: avalanche_left_inverse avalanche_right_inverse)

section \<open>Concrete instances\<close>

theorem XXH3_64bit_lane_change_witness:
  "XXH3_64bit (replicate 20 1) (\<lambda>_. 0) \<noteq> XXH3_64bit ((replicate 20 1)[3 := 2]) (\<lambda>_. 0)"
proof (rule XXH3_64bit_lane_change [where l = 0 and i = 3])
  fix j :: nat
  assume "j < length (replicate 20 1)" and "j div 8 \<noteq> 0"
  then show "replicate 20 1 ! j = (replicate 20 (1 :: u8))[3 := 2] ! j" by auto
qed (simp_all add: lanes_read_def)

theorem XXH3_64bit_determined_witness:
  "XXH3_64bit (replicate 26 1) (\<lambda>_. 0) = XXH3_64bit ((replicate 26 1)[25 := 2]) (\<lambda>_. 7)
   \<and> replicate 26 (1 :: u8) \<noteq> (replicate 26 1)[25 := 2]"
proof
  show "XXH3_64bit (replicate 26 1) (\<lambda>_. 0) = XXH3_64bit ((replicate 26 1)[25 := 2]) (\<lambda>_. 7)"
    by (rule XXH3_64bit_determined) (auto simp: lanes_read_def)
  have "replicate 26 (1 :: u8) ! 25 \<noteq> (replicate 26 1)[25 := 2] ! 25" by simp
  then show "replicate 26 (1 :: u8) \<noteq> (replicate 26 1)[25 := 2]" by metis
qed

theorem XXH3_64bit_reads_past_end_witness:
  "XXH3_64bit [1] (\<lambda>_. 0) \<noteq> XXH3_64bit [1] ((\<lambda>_. 0)(1 := 5))"
  by (rule XXH3_64bit_reads_past_end) (simp_all add: lanes_read_def)

end
