(* ===== verification/Bench.thy ===== *)
theory Bench
  imports Prelude
begin

text \<open>
  The two benchmark modules: \<open>rshm_init\<close> of \<open>copy.c\<close> (page copies) and \<open>rshm_init\<close> of \<open>hash.c\<close>
  (digests of short messages). Both repeat an operation 1, 10, \dots, 1000000 times, add up the
  differences of two clock reads and print the average. The clock is a parameter: \<open>clock t\<close> is
  what the \<open>t\<close>-th call of \<open>ktime_get\<close> returns, in nanoseconds. A crash on a null pointer is the
  result \<open>Oops\<close>.
\<close>

section \<open>The measuring loops\<close>

text \<open>
  \<open>bench_inner\<close> is \<open>for (j = 0; j < i; j++)\<close>, with the number of rounds left as first argument
  of the recursion. \<open>bench_outer\<close> is \<open>for (i = 1; i <= 1000000; i *= 10)\<close>; it collects the printed
  pairs of \<open>i\<close> and \<open>average_time\<close>. The division is unsigned, as \<open>total_time\<close> is a \<open>u64\<close>.
\<close>

fun bench_inner :: "(nat \<Rightarrow> u64) \<Rightarrow> (nat \<Rightarrow> 'a \<Rightarrow> 'a) \<Rightarrow> nat \<Rightarrow> nat \<Rightarrow> nat \<Rightarrow> 'a \<Rightarrow> u64 \<Rightarrow> nat \<times> 'a \<times> u64"
where
  "bench_inner clock body 0 j t x total_time = (t, x, total_time)"
| "bench_inner clock body (Suc k) j t x total_time =
    (let start = clock t; x = body j x; fin = clock (t + 1); diff = fin - start
     in bench_inner clock body k (j + 1) (t + 2) x (total_time + diff))"

partial_function (option) bench_outer ::
  "(nat \<Rightarrow> u64) \<Rightarrow> (nat \<Rightarrow> 'a \<Rightarrow> 'a) \<Rightarrow> nat \<Rightarrow> nat \<Rightarrow> 'a \<Rightarrow> (nat \<times> u64) list
    \<Rightarrow> (nat \<times> 'a \<times> (nat \<times> u64) list) option"
where
  "bench_outer clock body i t x lines =
    (if i \<le> 1000000
     then (case bench_inner clock body i 0 t x 0 of
        (t, x, total_time) \<Rightarrow> bench_outer clock body (i * 10) t x (lines @ [(i, total_time div of_nat i)]))
     else Some (t, x, lines))"

definition elapsed :: "(nat \<Rightarrow> u64) \<Rightarrow> nat \<Rightarrow> nat \<Rightarrow> u64" where
  "elapsed clock t k = (\<Sum>m < k. clock (t + 2 * m + 1) - clock (t + 2 * m))"

lemma bench_inner_closed:
  "bench_inner clock body k j t x total_time =
    (t + 2 * k, fold body [j ..< j + k] x, total_time + elapsed clock t k)"
proof (induction k arbitrary: j t x total_time)
  case (Suc k)
  have "elapsed clock t (Suc k) = (clock (t + 1) - clock t) + elapsed clock (t + 2) k"
    unfolding elapsed_def by (subst sum.lessThan_Suc_shift) (simp add: algebra_simps)
  moreover have "[j ..< j + Suc k] = j # [j + 1 ..< j + 1 + k]" by (simp add: upt_conv_Cons del: upt_Suc)
  ultimately show ?case using Suc.IH [of "j + 1" "t + 2"] by (simp add: Let_def algebra_simps del: upt_Suc)
qed (simp add: elapsed_def)

lemma bench_outer_step:
  "i \<le> 1000000 \<Longrightarrow> bench_outer clock body i t x lines =
    bench_outer clock body (i * 10) (t + 2 * i) (fold body [0 ..< i] x)
      (lines @ [(i, elapsed clock t i div of_nat i)])"
  by (subst bench_outer.simps) (simp add: bench_inner_closed)

lemma bench_outer_stop: "1000000 < i \<Longrightarrow> bench_outer clock body i t x lines = Some (t, x, lines)"
  by (subst bench_outer.simps) simp

text \<open>The start of each of the seven rounds, counted in clock reads.\<close>

definition rounds :: "(nat \<times> nat) list" where
  "rounds = [(1, 0), (10, 2), (100, 22), (1000, 222), (10000, 2222), (100000, 22222), (1000000, 222222)]"

definition run_rounds :: "(nat \<Rightarrow> 'a \<Rightarrow> 'a) \<Rightarrow> 'a \<Rightarrow> 'a" where
  "run_rounds body x = fold (\<lambda>(i, _) x. fold body [0 ..< i] x) rounds x"

lemma bench_total:
  "bench_outer clock body 1 t x [] =
    Some (t + 2222222, run_rounds body x,
      map (\<lambda>(i, off). (i, elapsed clock (t + off) i div of_nat i)) rounds)"
  by (simp add: bench_outer_step bench_outer_stop rounds_def run_rounds_def add.commute)

text \<open>
  The measuring loops always finish: they make exactly seven rounds of 1, 10, \dots,
  1000000 repetitions, read the clock 2222222 times, and print for each round the elapsed time
  divided by its number of repetitions.
\<close>

theorem bench_outer_total:
  "bench_outer clock body 1 t x [] =
    Some (t + 2222222, run_rounds body x,
      map (\<lambda>(i, off). (i, elapsed clock (t + off) i div of_nat i)) rounds)"
  by (rule bench_total)

lemma elapsed_const:
  assumes "\<And>m. clock (2 * m + 1) - clock (2 * m) = d" and "even t"
  shows "elapsed clock t k = of_nat k * d"
proof -
  obtain h where t: "t = 2 * h" using assms(2) by blast
  have "clock (t + 2 * m + 1) - clock (t + 2 * m) = d" for m
    using assms(1) [of "h + m"] by (simp add: t algebra_simps)
  then show ?thesis unfolding elapsed_def by (simp only:) simp
qed

lemma average_const:
  fixes d :: u64
  assumes "0 < k" and "k \<le> 1000000" and "unat d * 1000000 < 2 ^ 64"
  shows "of_nat k * d div of_nat k = d"
proof -
  have "k * unat d \<le> 1000000 * unat d" using assms(2) by (rule mult_le_mono1)
  then have small: "k * unat d < 2 ^ 64"
    by (rule le_less_trans) (use assms(3) in \<open>simp only: mult.commute\<close>)
  have k: "unat (of_nat k :: u64) = k" using assms(2) by (simp add: unat_of_nat)
  have "unat (of_nat k * d div of_nat k) = unat d"
    using small assms(1) by (simp add: unat_div unat_word_ariths k)
  then show ?thesis by (simp add: word_unat_eq_iff)
qed

text \<open>
  If every measured interval takes the same time \<open>d\<close> and the longest round's sum fits
  64 bits, every printed average is \<open>d\<close>.
\<close>

theorem bench_outer_average:
  assumes "\<And>m. clock (2 * m + 1) - clock (2 * m) = d" and "unat d * 1000000 < 2 ^ 64"
  shows "map_option (\<lambda>(_, _, lines). lines) (bench_outer clock body 1 0 x []) =
    Some [(1, d), (10, d), (100, d), (1000, d), (10000, d), (100000, d), (1000000, d)]"
proof -
  have "\<forall>(i, off) \<in> set rounds. 0 < i \<and> i \<le> 1000000 \<and> even off" by (simp add: rounds_def)
  then have eq: "map (\<lambda>(i, off). (i, elapsed clock (0 + off) i div of_nat i)) rounds = map (\<lambda>(i, off). (i, d)) rounds"
    using average_const [OF _ _ assms(2)] elapsed_const [OF assms(1)] by fastforce
  show ?thesis unfolding bench_total option.map prod.case eq by (simp add: rounds_def)
qed

theorem bench_outer_average_witness:
  "map_option (\<lambda>(_, _, lines). lines) (bench_outer (\<lambda>t. 7 * of_nat t) (\<lambda>_ x. x) 1 0 () []) =
    Some [(1, 7), (10, 7), (100, 7), (1000, 7), (10000, 7), (100000, 7), (1000000, 7)]"
  by (rule bench_outer_average) (simp add: algebra_simps, simp)

section \<open>Page copies: copy.c\<close>

text \<open>
  The heap is seen through its trace of \<open>kmalloc\<close> and \<open>kfree\<close> calls. The outcome of the two
  allocations is given by the environment (\<open>ok_a\<close>, \<open>ok_b\<close>), as is the initial content \<open>junk\<close> of the
  uninitialised page B. \<open>memcpy\<close> and \<open>copy_page\<close> both copy one whole page.
\<close>

datatype buffer = Page_A | Page_B | Desc

datatype heap_event = Kmalloc buffer | Kfree buffer

record copy_pages =
  page_a :: "u8 list"
  page_b :: "u8 list"

definition copy_body :: "nat \<Rightarrow> copy_pages \<Rightarrow> copy_pages" where
  "copy_body j s = s\<lparr>page_b := page_a s\<rparr>"

definition copy_measure ::
  "(nat \<Rightarrow> u64) \<Rightarrow> nat \<Rightarrow> copy_pages \<Rightarrow> (nat \<times> copy_pages \<times> (nat \<times> u64) list) option" where
  "copy_measure clock t s = bench_outer clock copy_body 1 t s []"

record copy_result =
  ret :: int
  trace :: "heap_event list"
  memcpy_lines :: "(nat \<times> u64) list"
  copy_page_lines :: "(nat \<times> u64) list"
  pages :: "copy_pages option"

definition copy_rshm_init :: "bool \<Rightarrow> bool \<Rightarrow> u8 list \<Rightarrow> (nat \<Rightarrow> u64) \<Rightarrow> copy_result option" where
  "copy_rshm_init ok_a ok_b junk clock =
    (if \<not> ok_a then Some \<lparr>ret = - ENOMEM, trace = [], memcpy_lines = [], copy_page_lines = [], pages = None\<rparr>
     else if \<not> ok_b then Some \<lparr>ret = - ENOMEM, trace = [Kmalloc Page_A, Kfree Page_A],
       memcpy_lines = [], copy_page_lines = [], pages = None\<rparr>
     else case copy_measure clock 0 \<lparr>page_a = replicate page_bytes 0xAA, page_b = junk\<rparr> of
       None \<Rightarrow> None
     | Some (t, s, lines) \<Rightarrow>
         (case copy_measure clock t (s\<lparr>page_a := replicate page_bytes 0xBB\<rparr>) of
            None \<Rightarrow> None
          | Some (t, s, lines') \<Rightarrow> Some \<lparr>ret = 0,
              trace = [Kmalloc Page_A, Kmalloc Page_B, Kfree Page_A, Kfree Page_B],
              memcpy_lines = lines, copy_page_lines = lines', pages = Some s\<rparr>))"

text \<open>Whether a trace releases every buffer it allocates, each once and after its allocation.\<close>

fun balanced :: "buffer set \<Rightarrow> heap_event list \<Rightarrow> bool" where
  "balanced live [] = (live = {})"
| "balanced live (Kmalloc b # es) = (b \<notin> live \<and> balanced (insert b live) es)"
| "balanced live (Kfree b # es) = (b \<in> live \<and> balanced (live - {b}) es)"

lemma fold_copy_body: "fold copy_body js s = (if js = [] then s else s\<lparr>page_b := page_a s\<rparr>)"
  by (induction js arbitrary: s) (auto simp: copy_body_def)

lemma run_rounds_copy: "run_rounds copy_body s = s\<lparr>page_b := page_a s\<rparr>"
  by (simp add: run_rounds_def rounds_def fold_copy_body)

lemma copy_measure_Some:
  "copy_measure clock t s = Some (t + 2222222, s\<lparr>page_b := page_a s\<rparr>,
     map (\<lambda>(i, off). (i, elapsed clock (t + off) i div of_nat i)) rounds)"
  by (simp only: copy_measure_def bench_total run_rounds_copy)

text \<open>
  Loading the copy benchmark always returns: it reports \<open>-ENOMEM\<close> exactly when an allocation
  fails, frees on every path what it allocated, and on success has copied the whole second pattern
  of page A to page B.
\<close>

theorem copy_rshm_init_result:
  "\<exists>r. copy_rshm_init ok_a ok_b junk clock = Some r
     \<and> ret r = (if ok_a \<and> ok_b then 0 else - ENOMEM)
     \<and> balanced {} (trace r)
     \<and> (pages r = (if ok_a \<and> ok_b then Some \<lparr>page_a = replicate page_bytes 0xBB,
          page_b = replicate page_bytes 0xBB\<rparr> else None))
     \<and> map fst (memcpy_lines r) = (if ok_a \<and> ok_b then map fst rounds else [])
     \<and> map fst (copy_page_lines r) = (if ok_a \<and> ok_b then map fst rounds else [])"
  by (auto simp: copy_rshm_init_def copy_measure_Some rounds_def)

section \<open>Digests: the module entry of hash.c\<close>

text \<open>
  The crypto API is a parameter: the state \<open>crypto_shash_init\<close> leaves, \<open>crypto_shash_update\<close> on a
  string and \<open>crypto_shash_final\<close>, which also leaves a state behind. The code ignores their error
  codes. \<open>data\<close> is a \<open>char[100]\<close> filled by \<open>sprintf(data, "Iteration: %d", j + 1)\<close>.
\<close>

fun show_dec :: "nat \<Rightarrow> string" where
  "show_dec n = (if n < 10 then [char_of (48 + n)] else show_dec (n div 10) @ [char_of (48 + n mod 10)])"

declare show_dec.simps [simp del]

definition message :: "nat \<Rightarrow> string" where
  "message j = ''Iteration: '' @ show_dec (j + 1)"

record ('s, 'g) shash =
  desc :: 's
  data :: string
  digest :: 'g

definition hash_body ::
  "('s \<Rightarrow> string \<Rightarrow> 's) \<Rightarrow> ('s \<Rightarrow> 's \<times> 'g) \<Rightarrow> nat \<Rightarrow> ('s, 'g) shash \<Rightarrow> ('s, 'g) shash" where
  "hash_body shash_update shash_final j s =
    (let txt = message j; (d, g) = shash_final (shash_update (desc s) txt)
     in s\<lparr>desc := d, data := txt, digest := g\<rparr>)"

datatype ('s, 'g) hash_outcome =
    Oops
  | Loaded int "heap_event list" "(nat \<times> u64) list" "('s, 'g) shash option"

definition hash_rshm_init ::
  "bool \<Rightarrow> bool \<Rightarrow> 's \<Rightarrow> 'g \<Rightarrow> ('s \<Rightarrow> string \<Rightarrow> 's) \<Rightarrow> ('s \<Rightarrow> 's \<times> 'g) \<Rightarrow> (nat \<Rightarrow> u64)
    \<Rightarrow> ('s, 'g) hash_outcome option" where
  "hash_rshm_init alloc_shash_ok kmalloc_ok init zero shash_update shash_final clock =
    (if \<not> alloc_shash_ok then Some (Loaded 0 [] [] None)
     else if \<not> kmalloc_ok then Some Oops
     else case bench_outer clock (hash_body shash_update shash_final) 1 0
         \<lparr>desc = init, data = ''Hello World!'', digest = zero\<rparr> [] of
       None \<Rightarrow> None
     | Some (t, s, lines) \<Rightarrow> Some (Loaded 0 [Kmalloc Desc, Kfree Desc] lines (Some s)))"

lemma length_show_dec: "n < 10 ^ Suc k \<Longrightarrow> length (show_dec n) \<le> Suc k"
proof (induction k arbitrary: n)
  case 0
  then show ?case by (simp add: show_dec.simps)
next
  case (Suc k)
  then have "n div 10 < 10 ^ Suc k" by (simp add: div_less_iff_less_mult mult.commute)
  with Suc.IH [OF this] show ?case by (subst show_dec.simps) simp
qed

text \<open>
  The formatted message and its terminating NUL always fit the 100-byte buffer, for every
  repetition the benchmark makes.
\<close>

theorem message_fits:
  assumes "j < 1000000"
  shows "length (message j) + 1 \<le> 100"
proof -
  have "length (show_dec (j + 1)) \<le> Suc 6" by (rule length_show_dec) (use assms in simp)
  then show ?thesis by (simp add: message_def)
qed

theorem message_fits_witness: "length (message 999999) + 1 \<le> (100 :: nat)"
  by (rule message_fits) simp

lemma data_fold_hash_body:
  "data (fold (hash_body u f) js s) = (if js = [] then data s else message (last js))"
  by (induction js arbitrary: s) (auto simp: hash_body_def Let_def split_beta)

lemma data_run_rounds: "data (run_rounds (hash_body u f) s) = message 999999"
  by (simp add: run_rounds_def rounds_def data_fold_hash_body last_conv_nth)

text \<open>
  Loading the hash benchmark always returns 0 unless the descriptor cannot be allocated, in
  which case the kernel dereferences the null descriptor; on the successful path the descriptor is
  freed, seven averages are printed and the last digested message is the millionth.
\<close>

theorem hash_rshm_init_result:
  "\<exists>r. hash_rshm_init alloc_ok kmalloc_ok init zero u f clock = Some r
     \<and> (case r of Oops \<Rightarrow> alloc_ok \<and> \<not> kmalloc_ok
        | Loaded c tr lines s \<Rightarrow> c = 0 \<and> balanced {} tr
            \<and> map fst lines = (if alloc_ok then map fst rounds else [])
            \<and> map_option data s = (if alloc_ok then Some ''Iteration: 1000000'' else None))"
proof -
  have "message 999999 = ''Iteration: 1000000''"
    by (simp add: message_def show_dec.simps char_of_def bit_0)
  then show ?thesis
    unfolding hash_rshm_init_def bench_total by (simp add: data_run_rounds rounds_def)
qed

end
