(* ===== verification/Rdma_Common.thy ===== *)
theory Rdma_Common
  imports Prelude
begin

text \<open>
  What the RDMA client and server share (\<open>mm/nmsg_rdma.h\<close>): the connection states and their
  order, the advertised buffer record, the handler block common to both sides, the events the
  RDMA connection manager and the completion queue deliver, the resources of the verbs API, and
  the sleeping of \<open>wait_event_interruptible\<close>. Two locales state the contracts both sides meet:
  the polling loop over a completion queue and the life cycle of a queue pair.
\<close>

unbundle bit_operations_syntax

section \<open>Connection states\<close>

datatype nmsg_state =
    IDLE | CONNECT_REQUEST | ADDR_RESOLVED | ROUTE_RESOLVED | CONNECTED
  | RDMA_READ_ADV | RDMA_READ_COMPLETE | RDMA_WRITE_ADV | RDMA_WRITE_COMPLETE | ERROR

text \<open>The numbers of \<open>enum nmsg_state\<close>, which starts at 1; states are compared by number.\<close>

fun state_val :: "nmsg_state \<Rightarrow> int" where
  "state_val IDLE = 1"
| "state_val CONNECT_REQUEST = 2"
| "state_val ADDR_RESOLVED = 3"
| "state_val ROUTE_RESOLVED = 4"
| "state_val CONNECTED = 5"
| "state_val RDMA_READ_ADV = 6"
| "state_val RDMA_READ_COMPLETE = 7"
| "state_val RDMA_WRITE_ADV = 8"
| "state_val RDMA_WRITE_COMPLETE = 9"
| "state_val ERROR = 10"

lemma state_val_inject [simp]: "(state_val a = state_val b) = (a = b)"
  by (cases a; cases b) simp_all

instantiation nmsg_state :: linorder
begin

definition less_eq_nmsg_state :: "nmsg_state \<Rightarrow> nmsg_state \<Rightarrow> bool" where
  "less_eq_nmsg_state a b = (state_val a \<le> state_val b)"

definition less_nmsg_state :: "nmsg_state \<Rightarrow> nmsg_state \<Rightarrow> bool" where
  "less_nmsg_state a b = (state_val a < state_val b)"

instance
  by standard (auto simp: less_eq_nmsg_state_def less_nmsg_state_def)

end

lemmas state_order = less_eq_nmsg_state_def less_nmsg_state_def

lemma ERROR_top [simp]: "s \<le> ERROR"
  by (cases s) (simp_all add: state_order)

section \<open>The advertised buffer\<close>

record nmsg_data =
  sync_t :: u64
  local_port_t :: u64
  remote_port_t :: u64
  data_id :: u64
  buf :: u64
  rkey :: u32
  data_size :: u32
  data_type :: u32

text \<open>
  \<open>sizeof(struct nmsg_data)\<close>: five 64-bit and three 32-bit fields, padded to a multiple of 8.
\<close>

abbreviation sizeof_nmsg_data :: u32 where "sizeof_nmsg_data \<equiv> 56"

text \<open>
  \<open>htonl\<close> and \<open>ntohl\<close> on a little-endian machine: the four bytes in reverse order. The 64-bit
  counterparts \<open>htonll\<close> and \<open>ntohll\<close> are defined nowhere in the sources: they are arguments of the
  definitions that use them.
\<close>

definition bswap32 :: "u32 \<Rightarrow> u32" where
  "bswap32 x = push_bit 24 (take_bit 8 x) OR push_bit 16 (take_bit 8 (drop_bit 8 x))
     OR push_bit 8 (take_bit 8 (drop_bit 16 x)) OR take_bit 8 (drop_bit 24 x)"

lemma bit_bswap32:
  "bit (bswap32 x) n =
    (if n < 8 then bit x (n + 24) else if n < 16 then bit x (n + 8)
     else if n < 24 then bit x (n - 8) else n < 32 \<and> bit x (n - 24))"
  by (auto simp: bswap32_def bit_simps add.commute dest: bit_imp_le_length)

lemma bswap32_bswap32 [simp]: "bswap32 (bswap32 x) = x"
  by (rule bit_word_eqI) (auto simp: bit_bswap32)

section \<open>Events\<close>

text \<open>Connection-manager events, in the order of the handlers' \<open>switch\<close>.\<close>

datatype cm_event =
    EV_ADDR_RESOLVED | EV_ROUTE_RESOLVED | EV_CONNECT_REQUEST | EV_ESTABLISHED
  | EV_ADDR_ERROR | EV_ROUTE_ERROR | EV_CONNECT_ERROR | EV_UNREACHABLE | EV_REJECTED
  | EV_DISCONNECTED | EV_DEVICE_REMOVAL | EV_OTHER

definition error_events :: "cm_event list" where
  "error_events = [EV_ADDR_ERROR, EV_ROUTE_ERROR, EV_CONNECT_ERROR, EV_UNREACHABLE, EV_REJECTED,
     EV_DISCONNECTED, EV_DEVICE_REMOVAL]"

text \<open>
  What one successful \<open>ib_poll_cq\<close> hands over: the work completion, the content the adapter has
  placed in \<open>recv_buf\<close>, and what \<open>ib_post_recv\<close> will return if the handler reposts its buffer.
\<close>

datatype wc_status = WC_SUCCESS | WC_WR_FLUSH_ERR | WC_FAILED

datatype wc_opcode = WC_SEND | WC_RDMA_READ | WC_RECV | WC_OTHER

record cq_item =
  status :: wc_status
  opcode :: wc_opcode
  byte_len :: u32
  incoming :: nmsg_data
  post_recv_ret :: int

section \<open>Resources and work requests\<close>

datatype resource =
    RES_CM_ID | RES_CHILD_CM_ID | RES_PD | RES_CQ | RES_QP | RES_MR
  | RES_DMA_RECV | RES_DMA_SEND | RES_BUF | RES_CB

text \<open>A pointer field of the handler block, which \<open>kmalloc\<close> leaves uninitialised.\<close>

datatype kptr = Null | Garbage | Valid | Err int

datatype access = ACCESS_REMOTE_READ | ACCESS_REMOTE_LOCAL_WRITE

datatype work_request =
    WR_SEND nmsg_data
  | WR_SEND_WITH_INV u32
  | WR_RDMA_READ u32 u64 u32 u32 \<comment> \<open>remote key, remote address, length, local key\<close>
  | WR_LOCAL_INV u32
  | WR_REG_MR u32 access
  | WR_RECV

section \<open>The handler block\<close>

text \<open>
  The fields common to \<open>struct nmsg_client_handler\<close> and \<open>struct nmsg_server_handler\<close>. \<open>data_buf\<close> is
  \<open>start_buf\<close> on the client and \<open>rdma_buf\<close> on the server; \<open>mr_rkey\<close> is \<open>cb->reg_mr->rkey\<close>. The last
  four fields are not in the struct: they record the resources held, releases of something not
  held, the number of wake-ups and the work requests the adapter has accepted, oldest first.
\<close>

record nmsg_cb =
  state :: nmsg_state
  send_bytes :: u64
  send_msgs :: u64
  recv_bytes :: u64
  recv_msgs :: u64
  recv_buf :: nmsg_data
  send_buf :: nmsg_data
  send_sge_length :: u32
  key :: u8
  mr_rkey :: u32
  message_size :: int
  page_list_len :: int
  reg_mr :: kptr
  data_buf :: kptr
  dma_addr :: u64
  live :: "resource set"
  bad_release :: "resource set"
  wakeups :: nat
  posted :: "work_request list"

definition wake_up :: "'a nmsg_cb_scheme \<Rightarrow> 'a nmsg_cb_scheme" where
  "wake_up cb = cb\<lparr>wakeups := wakeups cb + 1\<rparr>"

definition acquire :: "resource \<Rightarrow> 'a nmsg_cb_scheme \<Rightarrow> 'a nmsg_cb_scheme" where
  "acquire r cb = cb\<lparr>live := insert r (live cb)\<rparr>"

definition release :: "resource \<Rightarrow> 'a nmsg_cb_scheme \<Rightarrow> 'a nmsg_cb_scheme" where
  "release r cb =
    (if r \<in> live cb then cb\<lparr>live := live cb - {r}\<rparr>
     else cb\<lparr>bad_release := insert r (bad_release cb)\<rparr>)"

text \<open>\<open>ib_post_send\<close>: on success the requests reach the adapter.\<close>

definition post_send :: "int \<Rightarrow> work_request list \<Rightarrow> 'a nmsg_cb_scheme \<Rightarrow> 'a nmsg_cb_scheme" where
  "post_send r wrs cb = (if r = 0 then cb\<lparr>posted := posted cb @ wrs\<rparr> else cb)"

lemma wake_up_simps [simp]:
  "state (wake_up cb) = state cb" "live (wake_up cb) = live cb"
  "bad_release (wake_up cb) = bad_release cb" "posted (wake_up cb) = posted cb"
  "wakeups (wake_up cb) = Suc (wakeups cb)" "recv_buf (wake_up cb) = recv_buf cb"
  "reg_mr (wake_up cb) = reg_mr cb" "data_buf (wake_up cb) = data_buf cb"
  by (simp_all add: wake_up_def)

lemma acquire_simps [simp]:
  "state (acquire r cb) = state cb" "live (acquire r cb) = insert r (live cb)"
  "bad_release (acquire r cb) = bad_release cb" "posted (acquire r cb) = posted cb"
  "reg_mr (acquire r cb) = reg_mr cb" "data_buf (acquire r cb) = data_buf cb"
  by (simp_all add: acquire_def)

lemma release_simps [simp]:
  "state (release r cb) = state cb" "live (release r cb) = live cb - {r}"
  "bad_release (release r cb) = (if r \<in> live cb then bad_release cb else insert r (bad_release cb))"
  "posted (release r cb) = posted cb" "reg_mr (release r cb) = reg_mr cb"
  "data_buf (release r cb) = data_buf cb"
  by (auto simp: release_def)

lemma post_send_simps [simp]:
  "state (post_send r wrs cb) = state cb" "live (post_send r wrs cb) = live cb"
  "bad_release (post_send r wrs cb) = bad_release cb"
  "posted (post_send r wrs cb) = (if r = 0 then posted cb @ wrs else posted cb)"
  "reg_mr (post_send r wrs cb) = reg_mr cb" "data_buf (post_send r wrs cb) = data_buf cb"
  by (simp_all add: post_send_def)

text \<open>Whether \<open>strcpy\<close> of \<open>s\<close>, with its NUL, stays inside a block of \<open>allocated\<close> bytes.\<close>

definition strcpy_fits :: "nat \<Rightarrow> string \<Rightarrow> bool" where
  "strcpy_fits allocated s = (length s + 1 \<le> allocated)"

section \<open>Sleeping on the wait queue\<close>

text \<open>
  \<open>wait_event_interruptible(cb->sem, cond)\<close>: the condition is tested first; then the handlers run
  (\<open>Happen\<close>) in any order and number, and the thread tests the condition again each time it is
  scheduled (\<open>Resched\<close>). A signal (\<open>Signal\<close>) ends the sleep whatever the condition says; the callers
  ignore that result. The remaining happenings are returned; \<open>None\<close> means the thread is still asleep.
\<close>

datatype 'h happening = Happen 'h | Resched | Signal

fun sleep_on :: "('h \<Rightarrow> 'cb \<Rightarrow> 'cb) \<Rightarrow> ('cb \<Rightarrow> bool) \<Rightarrow> 'h happening list \<Rightarrow> 'cb \<Rightarrow> ('cb \<times> 'h happening list) option"
where
  "sleep_on handle cond [] cb = None"
| "sleep_on handle cond (Happen h # hs) cb = sleep_on handle cond hs (handle h cb)"
| "sleep_on handle cond (Resched # hs) cb = (if cond cb then Some (cb, hs) else sleep_on handle cond hs cb)"
| "sleep_on handle cond (Signal # hs) cb = Some (cb, hs)"

definition wait_event :: "('h \<Rightarrow> 'cb \<Rightarrow> 'cb) \<Rightarrow> ('cb \<Rightarrow> bool) \<Rightarrow> 'h happening list \<Rightarrow> 'cb \<Rightarrow> ('cb \<times> 'h happening list) option"
where
  "wait_event handle cond hs cb = (if cond cb then Some (cb, hs) else sleep_on handle cond hs cb)"

lemma sleep_on_invariant:
  assumes step: "\<And>h cb. P cb \<Longrightarrow> P (handle h cb)"
    and "sleep_on handle cond hs cb = Some (cb', hs')" and "P cb"
  shows "P cb'"
  using assms(2,3)
proof (induction hs arbitrary: cb)
  case (Cons x hs)
  then show ?case by (cases x) (auto split: if_splits intro: step)
qed simp

lemma wait_event_invariant:
  assumes "\<And>h cb. P cb \<Longrightarrow> P (handle h cb)"
    and "wait_event handle cond hs cb = Some (cb', hs')" and "P cb"
  shows "P cb'"
proof (cases "cond cb")
  case True
  with assms(2,3) show ?thesis by (simp add: wait_event_def)
next
  case False
  with assms(2) have "sleep_on handle cond hs cb = Some (cb', hs')" by (simp add: wait_event_def)
  with assms(1) show ?thesis using assms(3) by (rule sleep_on_invariant)
qed

lemma sleep_on_condition:
  "sleep_on handle cond hs cb = Some (cb', hs') \<Longrightarrow> Signal \<notin> set hs \<Longrightarrow> cond cb'"
  by (induction handle cond hs cb rule: sleep_on.induct) (auto split: if_splits)

lemma wait_event_condition:
  "wait_event handle cond hs cb = Some (cb', hs') \<Longrightarrow> Signal \<notin> set hs \<Longrightarrow> cond cb'"
  by (auto simp: wait_event_def split: if_splits dest: sleep_on_condition)

lemma sleep_on_consumes:
  "sleep_on handle cond hs cb = Some (cb', hs') \<Longrightarrow> length hs' < length hs"
  by (induction handle cond hs cb rule: sleep_on.induct) (auto split: if_splits)

section \<open>What the environment decides\<close>

text \<open>
  The events a handler thread can be woken by: a connection-manager event with the result
  \<open>rdma_resolve_route\<close> will have, or a completion notification with the polled completions and the
  final return code of \<open>ib_poll_cq\<close>.
\<close>

datatype rdma_event = Cm cm_event int | Cq "cq_item list" int

text \<open>
  Results of the verbs calls while a queue pair and its buffers are set up: 0 for success, otherwise
  the error code; \<open>e_buf\<close> says whether the coherent buffer is allocated, at address \<open>e_addr\<close>.
\<close>

record qp_env =
  e_pd :: int
  e_cq :: int
  e_notify :: int
  e_qp :: int

record buffer_env =
  e_mr :: int
  e_buf :: bool
  e_addr :: u64

text \<open>
  \<open>cb->page_list_len = (((cb->message_size - 1) & PAGE_MASK) + PAGE_SIZE) >> PAGE_SHIFT\<close>: the \<open>int\<close> is
  converted to \<open>unsigned long\<close> by \<open>&\<close>, and the result back to \<open>int\<close>.
\<close>

definition page_list_len_of :: "int \<Rightarrow> int" where
  "page_list_len_of msize =
    sint (ucast (drop_bit PAGE_SHIFT ((word_of_int (msize - 1) AND PAGE_MASK) + PAGE_SIZE :: u64)) :: u32)"

lemma page_list_len_of_eq:
  assumes "1 \<le> m" and "m < 2 ^ 31"
  shows "page_list_len_of m = (m + 4095) div 4096"
proof -
  define x :: u64 where "x = word_of_int (m - 1)"
  have w: "uint (word_of_int k :: u64) = k" if "0 \<le> k" "k < 2 ^ 31" for k
    using that by (simp add: uint_word_of_int)
  have x: "uint x = m - 1" unfolding x_def by (rule w) (use assms in simp_all)
  have "uint (x AND PAGE_MASK) = 4096 * ((m - 1) div 4096)"
    by (simp add: and_PAGE_MASK x)
  then have "uint ((x AND PAGE_MASK) + PAGE_SIZE) = 4096 * ((m - 1) div 4096 + 1)"
    using assms by (simp add: uint_word_ariths)
  then have u: "uint (drop_bit PAGE_SHIFT ((x AND PAGE_MASK) + PAGE_SIZE)) = (m - 1) div 4096 + 1"
    by (simp add: uint_shift_page)
  have "sint (ucast w :: u32) = uint w" if "uint w < 2 ^ 31" for w :: u64
  proof -
    have "- (2 ^ 31) \<le> uint w" by (rule order_trans [of _ 0]) simp_all
    with that show ?thesis
      by (simp add: sint_uint signed_take_bit_int_eq_self take_bit_int_eq_self unsigned_ucast_eq)
  qed
  then have "page_list_len_of m = (m - 1) div 4096 + 1"
    unfolding page_list_len_of_def x_def [symmetric] using u assms by simp
  then show ?thesis using assms by simp
qed

text \<open>Capacities requested in \<open>struct ib_qp_init_attr\<close>.\<close>

record qp_init_attr =
  max_send_wr :: nat
  max_recv_wr :: nat
  max_recv_sge :: nat
  max_send_sge :: nat

section \<open>Contract: polling a completion queue\<close>

text \<open>
  The abstract meaning of one run of the completion handler: flushed completions are skipped, the
  others are handled in order, and \<open>None\<close> is the result as soon as one fails.
\<close>

fun drain :: "(cq_item \<Rightarrow> 'cb \<Rightarrow> 'cb + 'cb) \<Rightarrow> cq_item list \<Rightarrow> 'cb \<Rightarrow> 'cb option" where
  "drain handle [] cb = Some cb"
| "drain handle (w # ws) cb =
    (if status w = WC_WR_FLUSH_ERR then drain handle ws cb
     else if status w = WC_FAILED then None
     else case handle w cb of Inl _ \<Rightarrow> None | Inr cb' \<Rightarrow> drain handle ws cb')"

text \<open>
  Both completion handlers poll until the queue is empty: \<open>cq_loop ws r cb\<close> runs over the polled
  completions \<open>ws\<close> and the final return code \<open>r\<close> of \<open>ib_poll_cq\<close>; \<open>handle\<close> is the \<open>switch\<close> on the
  opcode, with \<open>Inl\<close> for \<open>goto error\<close>; \<open>fail\<close> is the code after the label \<open>error\<close>.
\<close>

locale completion_queue =
  fixes cq_loop :: "cq_item list \<Rightarrow> int \<Rightarrow> 'cb \<Rightarrow> 'cb"
    and handle :: "cq_item \<Rightarrow> 'cb \<Rightarrow> 'cb + 'cb"
    and fail :: "'cb \<Rightarrow> 'cb"
    and st :: "'cb \<Rightarrow> nmsg_state"
  assumes loop_Nil: "cq_loop [] r cb = (if r \<noteq> 0 then fail cb else cb)"
    and loop_Cons: "cq_loop (w # ws) r cb =
      (if status w = WC_WR_FLUSH_ERR then cq_loop ws r cb
       else if status w = WC_FAILED then fail cb
       else case handle w cb of Inl cb' \<Rightarrow> fail cb' | Inr cb' \<Rightarrow> cq_loop ws r cb')"
    and st_fail: "st (fail cb) = ERROR"
    and st_handle: "handle w cb = Inr cb' \<Longrightarrow> st cb \<noteq> ERROR \<Longrightarrow> st cb' \<noteq> ERROR"
begin

lemma loop_drain: "drain handle ws cb = Some cb' \<Longrightarrow> cq_loop ws 0 cb = cb'"
  by (induction ws arbitrary: cb) (auto simp: loop_Nil loop_Cons split: sum.splits if_splits)

lemma drain_state: "drain handle ws cb = Some cb' \<Longrightarrow> st cb \<noteq> ERROR \<Longrightarrow> st cb' \<noteq> ERROR"
  by (induction ws arbitrary: cb) (auto split: if_splits sum.splits dest: st_handle)

lemma loop_result:
  "cq_loop ws r cb = cb' \<Longrightarrow> (drain handle ws cb = Some cb' \<and> r = 0) \<or> st cb' = ERROR"
  by (induction ws arbitrary: cb) (auto simp: loop_Nil loop_Cons st_fail split: sum.splits if_splits)

lemma loop_failed: "drain handle ws cb = None \<or> r \<noteq> 0 \<Longrightarrow> st (cq_loop ws r cb) = ERROR"
  by (induction ws arbitrary: cb) (auto simp: loop_Nil loop_Cons st_fail split: sum.splits if_splits)

lemma error_iff:
  "st cb \<noteq> ERROR \<Longrightarrow> (st (cq_loop ws r cb) = ERROR) = (drain handle ws cb = None \<or> r \<noteq> 0)"
  using loop_failed [of ws cb r] loop_drain [of ws cb] drain_state [of ws cb] by fastforce

lemma drained: "st cb \<noteq> ERROR \<Longrightarrow> st (cq_loop ws r cb) \<noteq> ERROR \<Longrightarrow> drain handle ws cb = Some (cq_loop ws r cb)"
  using loop_result [of ws r cb] by auto

end

section \<open>Contract: the life cycle of a queue pair\<close>

text \<open>
  \<open>setup_qp\<close> acquires the protection domain, the completion queue and the queue pair, or nothing when
  it fails; \<open>free_qp\<close> releases the three.
\<close>

definition qp_resources :: "resource set" where
  "qp_resources = {RES_PD, RES_CQ, RES_QP}"

locale qp_lifecycle =
  fixes setup_qp :: "'env \<Rightarrow> 'a nmsg_cb_scheme \<Rightarrow> int \<times> 'a nmsg_cb_scheme"
    and free_qp :: "'a nmsg_cb_scheme \<Rightarrow> 'a nmsg_cb_scheme"
  assumes setup_ok: "setup_qp e cb = (0, cb') \<Longrightarrow> live cb' = live cb \<union> qp_resources"
    and setup_failed: "setup_qp e cb = (r, cb') \<Longrightarrow> r \<noteq> 0 \<Longrightarrow> live cb \<inter> qp_resources = {} \<Longrightarrow> live cb' = live cb"
    and setup_bad: "setup_qp e cb = (r, cb') \<Longrightarrow> bad_release cb' = bad_release cb"
    and free_live: "live (free_qp cb) = live cb - qp_resources"
    and free_bad: "bad_release (free_qp cb) = bad_release cb \<union> (qp_resources - live cb)"
begin

lemma bracket:
  assumes "live cb \<inter> qp_resources = {}" and "setup_qp e cb = (r, cb')"
  shows "live (if r = 0 then free_qp cb' else cb') = live cb
    \<and> bad_release (if r = 0 then free_qp cb' else cb') = bad_release cb"
  using assms setup_ok [of e cb cb'] setup_failed [of e cb r cb'] setup_bad [of e cb r cb']
  by (auto simp: free_live free_bad)

lemma double_teardown:
  "setup_qp e cb = (0, cb') \<Longrightarrow> qp_resources \<subseteq> bad_release (free_qp (free_qp cb'))"
  by (auto simp: free_live free_bad)

end

end
