(* ===== verification/Rdma_Client.thy ===== *)
theory Rdma_Client
  imports Rdma_Common
begin

text \<open>
  The RDMA client, \<open>mm/nmsg_rdma_client.c\<close>: its connection-manager and completion handlers, the set-up
  of queue pair and buffers with their error paths, and the operations behind \<open>nmsg_init_client\<close>,
  \<open>nmsg_send_message\<close> and \<open>nmsg_destroy_client\<close>. Functions carry the suffix \<open>_c\<close>. Results of the
  verbs and connection-manager calls are arguments.
\<close>

section \<open>The client's handler block\<close>

text \<open>
  \<open>message\<close> is the text \<open>cb->message\<close>; \<open>start_data\<close> the content of \<open>start_buf\<close>; \<open>heap_overflow\<close> records a
  write past the end of a \<open>kmalloc\<close> block.
\<close>

record client_cb = nmsg_cb +
  message :: string
  start_data :: string
  heap_overflow :: bool

section \<open>Event handlers\<close>

fun nmsg_cma_event_handler_c :: "int \<Rightarrow> cm_event \<Rightarrow> client_cb \<Rightarrow> client_cb" where
  "nmsg_cma_event_handler_c r EV_ADDR_RESOLVED cb =
    (let cb = cb\<lparr>state := ADDR_RESOLVED\<rparr> in if r \<noteq> 0 then wake_up cb else cb)"
| "nmsg_cma_event_handler_c r EV_ROUTE_RESOLVED cb = wake_up (cb\<lparr>state := ROUTE_RESOLVED\<rparr>)"
| "nmsg_cma_event_handler_c r EV_CONNECT_REQUEST cb = wake_up (cb\<lparr>state := CONNECT_REQUEST\<rparr>)"
| "nmsg_cma_event_handler_c r EV_ESTABLISHED cb = wake_up (cb\<lparr>state := CONNECTED\<rparr>)"
| "nmsg_cma_event_handler_c r EV_ADDR_ERROR cb = wake_up (cb\<lparr>state := ERROR\<rparr>)"
| "nmsg_cma_event_handler_c r EV_ROUTE_ERROR cb = wake_up (cb\<lparr>state := ERROR\<rparr>)"
| "nmsg_cma_event_handler_c r EV_CONNECT_ERROR cb = wake_up (cb\<lparr>state := ERROR\<rparr>)"
| "nmsg_cma_event_handler_c r EV_UNREACHABLE cb = wake_up (cb\<lparr>state := ERROR\<rparr>)"
| "nmsg_cma_event_handler_c r EV_REJECTED cb = wake_up (cb\<lparr>state := ERROR\<rparr>)"
| "nmsg_cma_event_handler_c r EV_DISCONNECTED cb = wake_up (cb\<lparr>state := ERROR\<rparr>)"
| "nmsg_cma_event_handler_c r EV_DEVICE_REMOVAL cb = wake_up (cb\<lparr>state := ERROR\<rparr>)"
| "nmsg_cma_event_handler_c r EV_OTHER cb = wake_up cb"

definition client_recv :: "cq_item \<Rightarrow> client_cb \<Rightarrow> int \<times> client_cb" where
  "client_recv w cb =
    (if byte_len w \<noteq> sizeof_nmsg_data then (-1, cb)
     else if state cb = RDMA_READ_ADV then (0, cb\<lparr>state := RDMA_WRITE_ADV\<rparr>)
     else (0, cb\<lparr>state := RDMA_WRITE_COMPLETE\<rparr>))"

text \<open>The \<open>switch (wc.opcode)\<close> of the completion handler; \<open>Inl\<close> is \<open>goto error\<close>.\<close>

definition cq_switch_c :: "cq_item \<Rightarrow> client_cb \<Rightarrow> client_cb + client_cb" where
  "cq_switch_c w cb =
    (case opcode w of
       WC_SEND \<Rightarrow> Inr (cb\<lparr>send_bytes := send_bytes cb + ucast (send_sge_length cb),
                        send_msgs := send_msgs cb + 1\<rparr>)
     | WC_RECV \<Rightarrow>
         (let (ret, cb) = client_recv w (cb\<lparr>recv_buf := incoming w\<rparr>)
          in if ret \<noteq> 0 then Inl cb
             else if post_recv_ret w \<noteq> 0 then Inl cb
             else Inr (wake_up (cb\<lparr>posted := posted cb @ [WR_RECV]\<rparr>)))
     | _ \<Rightarrow> Inl cb)"

definition cq_error_c :: "client_cb \<Rightarrow> client_cb" where
  "cq_error_c cb = wake_up (cb\<lparr>state := ERROR\<rparr>)"

fun cq_loop_c :: "cq_item list \<Rightarrow> int \<Rightarrow> client_cb \<Rightarrow> client_cb" where
  "cq_loop_c [] ret cb = (if ret \<noteq> 0 then cq_error_c cb else cb)"
| "cq_loop_c (w # ws) ret cb =
    (if status w \<noteq> WC_SUCCESS
     then (if status w = WC_WR_FLUSH_ERR then cq_loop_c ws ret cb else cq_error_c cb)
     else (case cq_switch_c w cb of Inl cb \<Rightarrow> cq_error_c cb | Inr cb \<Rightarrow> cq_loop_c ws ret cb))"

definition nmsg_cq_event_handler_c :: "cq_item list \<Rightarrow> int \<Rightarrow> client_cb \<Rightarrow> client_cb" where
  "nmsg_cq_event_handler_c ws ret cb = (if state cb = ERROR then cb else cq_loop_c ws ret cb)"

fun handle_event_c :: "rdma_event \<Rightarrow> client_cb \<Rightarrow> client_cb" where
  "handle_event_c (Cm ev r) cb = nmsg_cma_event_handler_c r ev cb"
| "handle_event_c (Cq ws r) cb = nmsg_cq_event_handler_c ws r cb"

lemma client_recv_state: "client_recv w cb = (r, cb') \<Longrightarrow> state cb \<noteq> ERROR \<Longrightarrow> state cb' \<noteq> ERROR"
  by (auto simp: client_recv_def split: if_splits)

interpretation client_cq: completion_queue cq_loop_c cq_switch_c cq_error_c state
proof unfold_locales
  fix w ws ret cb
  show "cq_loop_c (w # ws) ret cb =
      (if status w = WC_WR_FLUSH_ERR then cq_loop_c ws ret cb
       else if status w = WC_FAILED then cq_error_c cb
       else case cq_switch_c w cb of Inl cb' \<Rightarrow> cq_error_c cb' | Inr cb' \<Rightarrow> cq_loop_c ws ret cb')"
    by (cases "status w") (simp_all split: sum.split)
next
  fix w cb cb'
  assume "cq_switch_c w cb = Inr cb'" and "state cb \<noteq> ERROR"
  then show "state cb' \<noteq> ERROR"
    by (auto simp: cq_switch_c_def split: wc_opcode.splits prod.splits if_splits dest: client_recv_state)
qed (simp_all add: cq_error_c_def)

section \<open>Queue pair, memory key and advertised message\<close>

definition nmsg_qp_attr_c :: qp_init_attr where
  "nmsg_qp_attr_c = \<lparr>max_send_wr = 64 + 1, max_recv_wr = 2 + 1, max_recv_sge = 1, max_send_sge = 1\<rparr>"

definition nmsg_create_qp_c :: "(qp_init_attr \<Rightarrow> int) \<Rightarrow> client_cb \<Rightarrow> int \<times> client_cb" where
  "nmsg_create_qp_c rdma_create_qp cb =
    (let ret = rdma_create_qp nmsg_qp_attr_c in if ret = 0 then (ret, acquire RES_QP cb) else (ret, cb))"

definition nmsg_rdma_rkey_c ::
  "(u32 \<Rightarrow> u8 \<Rightarrow> u32) \<Rightarrow> int \<Rightarrow> int \<Rightarrow> client_cb \<Rightarrow> (u32 \<times> client_cb) option" where
  "nmsg_rdma_rkey_c update_key map_ret post_ret cb =
    (let cb = cb\<lparr>key := key cb + 1\<rparr>;
         cb = cb\<lparr>mr_rkey := update_key (mr_rkey cb) (key cb)\<rparr>
     in if map_ret \<le> 0 \<or> map_ret > page_list_len cb then None
        else let cb = post_send post_ret [WR_REG_MR (mr_rkey cb) ACCESS_REMOTE_READ] cb;
                 cb = (if post_ret \<noteq> 0 then cb\<lparr>state := ERROR\<rparr> else cb)
             in Some (mr_rkey cb, cb))"

definition make_message_c ::
  "(u64 \<Rightarrow> u64) \<Rightarrow> (u32 \<Rightarrow> u8 \<Rightarrow> u32) \<Rightarrow> int \<Rightarrow> int \<Rightarrow> u64 \<Rightarrow> client_cb \<Rightarrow> client_cb option" where
  "make_message_c htonll update_key map_ret post_ret addr cb =
    (case nmsg_rdma_rkey_c update_key map_ret post_ret cb of
       None \<Rightarrow> None
     | Some (rk, cb) \<Rightarrow> Some (cb\<lparr>send_buf := (send_buf cb)\<lparr>buf := htonll addr, rkey := bswap32 rk,
           data_size := bswap32 (word_of_int (message_size cb))\<rparr>\<rparr>))"

definition nmsg_setup_qp_c :: "qp_env \<Rightarrow> client_cb \<Rightarrow> int \<times> client_cb" where
  "nmsg_setup_qp_c e cb =
    (if e_pd e \<noteq> 0 then (e_pd e, cb)
     else let cb = acquire RES_PD cb
     in if e_cq e \<noteq> 0 then (e_cq e, release RES_PD cb)
     else let cb = acquire RES_CQ cb
     in if e_notify e \<noteq> 0 then (e_notify e, release RES_PD (release RES_CQ cb))
     else let (ret, cb) = nmsg_create_qp_c (\<lambda>_. e_qp e) cb
     in if ret \<noteq> 0 then (ret, release RES_PD (release RES_CQ cb))
     else (0, cb))"

definition reg_supported_c :: "u64 \<Rightarrow> u64 \<Rightarrow> int" where
  "reg_supported_c needed_flags device_cap_flags =
    (if (device_cap_flags AND needed_flags) \<noteq> needed_flags then 0 else 1)"

definition nmsg_free_qp_c :: "client_cb \<Rightarrow> client_cb" where
  "nmsg_free_qp_c cb = release RES_PD (release RES_CQ (release RES_QP cb))"

interpretation client_qp: qp_lifecycle nmsg_setup_qp_c nmsg_free_qp_c
  by unfold_locales
    (auto simp: nmsg_setup_qp_c_def nmsg_create_qp_c_def nmsg_free_qp_c_def qp_resources_def Let_def
      split: if_splits)

section \<open>Buffers\<close>

definition nmsg_setup_wr_c :: "client_cb \<Rightarrow> client_cb" where
  "nmsg_setup_wr_c cb = cb\<lparr>send_sge_length := sizeof_nmsg_data\<rparr>"

text \<open>
  The label \<open>bail\<close> tests \<open>cb->start_buf\<close>, which is still whatever \<open>kmalloc\<close> left there when
  \<open>ib_alloc_mr\<close> has failed; it does not unmap the two DMA mappings.
\<close>

definition setup_buffers_bail_c :: "client_cb \<Rightarrow> client_cb" where
  "setup_buffers_bail_c cb =
    (let cb = (case reg_mr cb of Null \<Rightarrow> cb | Err _ \<Rightarrow> cb | _ \<Rightarrow> release RES_MR cb)
     in if data_buf cb \<noteq> Null then release RES_BUF cb else cb)"

definition nmsg_setup_buffers_c :: "buffer_env \<Rightarrow> client_cb \<Rightarrow> int \<times> client_cb" where
  "nmsg_setup_buffers_c e cb =
    (let cb = acquire RES_DMA_SEND (acquire RES_DMA_RECV cb);
         cb = cb\<lparr>page_list_len := page_list_len_of (message_size cb)\<rparr>
     in if e_mr e \<noteq> 0
        then (let cb = cb\<lparr>reg_mr := Err (e_mr e)\<rparr> in (e_mr e, setup_buffers_bail_c cb))
     else let cb = acquire RES_MR (cb\<lparr>reg_mr := Valid\<rparr>)
     in if \<not> e_buf e
        then (let cb = cb\<lparr>data_buf := Null\<rparr> in (- ENOMEM, setup_buffers_bail_c cb))
     else let cb = acquire RES_BUF (cb\<lparr>data_buf := Valid, dma_addr := e_addr e\<rparr>)
     in (0, nmsg_setup_wr_c cb))"

definition nmsg_free_buffers_c :: "client_cb \<Rightarrow> client_cb" where
  "nmsg_free_buffers_c cb =
    (let cb = (if reg_mr cb \<noteq> Null then release RES_MR cb else cb);
         cb = release RES_DMA_RECV cb;
         cb = release RES_DMA_SEND cb
     in if data_buf cb \<noteq> Null then release RES_BUF cb else cb)"

section \<open>Sending a message\<close>

text \<open>
  \<open>memcpy(cb->start_buf, cb->message, cb->message_size)\<close> reads \<open>message_size\<close> bytes from a block of
  \<open>strlen(command)\<close> bytes: the text, its NUL and then whatever the heap holds (\<open>heap\<close>). Sizes are
  those of the code; \<open>htonll\<close> and \<open>update_key\<close> stand for the macro and \<open>ib_update_fast_reg_key\<close>.
\<close>

definition nmsg_start_client ::
  "(u64 \<Rightarrow> u64) \<Rightarrow> (u32 \<Rightarrow> u8 \<Rightarrow> u32) \<Rightarrow> string \<Rightarrow> int \<Rightarrow> int \<Rightarrow> int \<Rightarrow> client_cb \<Rightarrow> (int \<times> client_cb) option"
where
  "nmsg_start_client htonll update_key heap map_ret reg_ret send_ret cb =
    (let cb = cb\<lparr>state := RDMA_READ_ADV\<rparr>;
         cb = cb\<lparr>start_data := take (nat (message_size cb)) (message cb @ CHR 0x00 # heap)\<rparr>
     in case make_message_c htonll update_key map_ret reg_ret (dma_addr cb) cb of
          None \<Rightarrow> None
        | Some cb \<Rightarrow>
            if state cb = ERROR then Some (-1, cb)
            else if send_ret \<noteq> 0 then Some (send_ret, cb)
            else Some (0, post_send 0 [WR_SEND (send_buf cb)] cb))"

text \<open>\<open>kmalloc(strlen(command))\<close> followed by \<open>strcpy\<close>: one byte more than allocated is written.\<close>

definition nmsg_start_c ::
  "(u64 \<Rightarrow> u64) \<Rightarrow> (u32 \<Rightarrow> u8 \<Rightarrow> u32) \<Rightarrow> string \<Rightarrow> int \<Rightarrow> int \<Rightarrow> int \<Rightarrow> string \<Rightarrow> client_cb \<Rightarrow> (int \<times> client_cb) option"
where
  "nmsg_start_c htonll update_key heap map_ret reg_ret send_ret command cb =
    (let cb = cb\<lparr>message := command,
                 heap_overflow := heap_overflow cb \<or> \<not> strcpy_fits (length command) command\<rparr>
     in nmsg_start_client htonll update_key heap map_ret reg_ret send_ret cb)"

section \<open>Connecting\<close>

record client_env =
  r_resolve_addr :: int
  r_supported :: int
  r_qp :: qp_env
  r_buffers :: buffer_env
  r_post_recv :: int
  r_connect :: int

definition nmsg_bind_client ::
  "client_env \<Rightarrow> rdma_event happening list \<Rightarrow> client_cb \<Rightarrow> (int \<times> client_cb \<times> rdma_event happening list) option"
where
  "nmsg_bind_client e hs cb =
    (if r_resolve_addr e \<noteq> 0 then Some (r_resolve_addr e, cb, hs)
     else case wait_event handle_event_c (\<lambda>cb. state cb \<ge> ROUTE_RESOLVED) hs cb of
       None \<Rightarrow> None
     | Some (cb, hs) \<Rightarrow>
         if state cb \<noteq> ROUTE_RESOLVED then Some (- EINTR, cb, hs)
         else if r_supported e = 0 then Some (- EINVAL, cb, hs)
         else Some (0, cb, hs))"

definition nmsg_connect_client_c ::
  "client_env \<Rightarrow> rdma_event happening list \<Rightarrow> client_cb \<Rightarrow> (int \<times> client_cb \<times> rdma_event happening list) option"
where
  "nmsg_connect_client_c e hs cb =
    (if r_connect e \<noteq> 0 then Some (r_connect e, cb, hs)
     else case wait_event handle_event_c (\<lambda>cb. state cb \<ge> CONNECTED) hs cb of
       None \<Rightarrow> None
     | Some (cb, hs) \<Rightarrow> if state cb = ERROR then Some (-1, cb, hs) else Some (0, cb, hs))"

definition nmsg_run_client ::
  "client_env \<Rightarrow> rdma_event happening list \<Rightarrow> client_cb \<Rightarrow> (int \<times> client_cb \<times> rdma_event happening list) option"
where
  "nmsg_run_client e hs cb =
    (case nmsg_bind_client e hs cb of
       None \<Rightarrow> None
     | Some (ret, cb, hs) \<Rightarrow>
     if ret \<noteq> 0 then Some (ret, cb, hs)
     else case nmsg_setup_qp_c (r_qp e) cb of (ret, cb) \<Rightarrow>
     if ret \<noteq> 0 then Some (ret, cb, hs)
     else case nmsg_setup_buffers_c (r_buffers e) cb of (ret, cb) \<Rightarrow>
     if ret \<noteq> 0 then Some (ret, nmsg_free_qp_c cb, hs)
     else if r_post_recv e \<noteq> 0
     then Some (r_post_recv e, nmsg_free_qp_c (nmsg_free_buffers_c cb), hs)
     else let cb = cb\<lparr>posted := posted cb @ [WR_RECV]\<rparr>
     in case nmsg_connect_client_c e hs cb of
       None \<Rightarrow> None
     | Some (ret, cb, hs) \<Rightarrow>
         if ret \<noteq> 0 then Some (ret, nmsg_free_qp_c (nmsg_free_buffers_c cb), hs)
         else Some (0, cb, hs))"

text \<open>
  \<open>nmsg_pre_start\<close>, behind \<open>nmsg_init_client\<close>: \<open>fresh\<close> is the uninitialised block \<open>kmalloc\<close> returns, and
  \<open>r_create_id\<close> the error code of \<open>rdma_create_id\<close> or 0. A failing \<open>nmsg_run_client\<close> leaves the
  connection identifier and the block allocated.
\<close>

definition nmsg_pre_start_c ::
  "int \<Rightarrow> client_env \<Rightarrow> string \<Rightarrow> rdma_event happening list \<Rightarrow> client_cb
    \<Rightarrow> (int \<times> client_cb \<times> rdma_event happening list) option"
where
  "nmsg_pre_start_c r_create_id e addr hs fresh =
    (let cb = acquire RES_CB fresh;
         cb = cb\<lparr>heap_overflow := heap_overflow cb \<or> \<not> strcpy_fits (length addr) addr\<rparr>;
         cb = cb\<lparr>state := IDLE, message_size := 1024\<rparr>
     in if r_create_id \<noteq> 0 then Some (r_create_id, release RES_CB cb, hs)
        else nmsg_run_client e hs (acquire RES_CM_ID cb))"

definition nmsg_free_c :: "client_cb \<Rightarrow> client_cb" where
  "nmsg_free_c cb =
    (let cb = release RES_CM_ID cb; cb = nmsg_free_buffers_c cb; cb = nmsg_free_qp_c cb
     in release RES_CB cb)"

section \<open>Completions\<close>

text \<open>
  The client's completion handler ends in \<open>ERROR\<close> exactly when it started there, polling fails
  or one of the polled completions cannot be handled; otherwise the result is that of handling every
  completion in order, flushed ones skipped.
\<close>

theorem nmsg_cq_event_handler_c_drains:
  "case (if state cb = ERROR then None else if r = 0 then drain cq_switch_c ws cb else None) of
     None \<Rightarrow> state (nmsg_cq_event_handler_c ws r cb) = ERROR
   | Some cb' \<Rightarrow> nmsg_cq_event_handler_c ws r cb = cb' \<and> state cb' \<noteq> ERROR"
  using client_cq.loop_failed [of ws cb r] client_cq.loop_drain [of ws cb] client_cq.drain_state [of ws cb]
  by (auto simp: nmsg_cq_event_handler_c_def split: option.split)

section \<open>Resources\<close>

text \<open>What a connected client holds beyond its block and its connection identifier.\<close>

definition buffer_resources :: "resource set" where
  "buffer_resources = {RES_MR, RES_DMA_RECV, RES_DMA_SEND, RES_BUF}"

definition same_resources :: "client_cb \<Rightarrow> client_cb \<Rightarrow> bool" where
  "same_resources cb cb' \<longleftrightarrow> live cb' = live cb \<and> bad_release cb' = bad_release cb
     \<and> reg_mr cb' = reg_mr cb \<and> data_buf cb' = data_buf cb"

lemma same_resources_refl [simp]: "same_resources cb cb"
  by (simp add: same_resources_def)

lemma same_resources_trans: "same_resources a b \<Longrightarrow> same_resources b c \<Longrightarrow> same_resources a c"
  by (simp add: same_resources_def)

lemma same_resources_wake_up [simp]: "same_resources cb (wake_up cb') = same_resources cb cb'"
  by (simp add: same_resources_def wake_up_def)

lemma same_resources_cma: "same_resources cb (nmsg_cma_event_handler_c r ev cb)"
  by (cases ev) (simp_all add: Let_def, simp_all add: same_resources_def)

lemma same_resources_switch: "cq_switch_c w cb = Inr cb' \<Longrightarrow> same_resources cb cb'"
  "cq_switch_c w cb = Inl cb' \<Longrightarrow> same_resources cb cb'"
  by (auto simp: cq_switch_c_def client_recv_def same_resources_def
      split: wc_opcode.splits if_splits)

lemma same_resources_error: "same_resources cb cb' \<Longrightarrow> same_resources cb (cq_error_c cb')"
  by (simp add: cq_error_c_def) (simp add: same_resources_def)

lemma same_resources_loop: "same_resources cb (cq_loop_c ws r cb)"
proof (induction ws arbitrary: cb)
  case (Cons w ws)
  show ?case
    using Cons same_resources_switch [of w cb]
    by (auto intro: same_resources_error same_resources_trans split: sum.split)
qed (simp add: same_resources_error)

lemma same_resources_event: "same_resources cb (handle_event_c ev cb)"
  by (cases ev) (simp_all add: same_resources_cma same_resources_loop nmsg_cq_event_handler_c_def)

lemma same_resources_wait:
  assumes "wait_event handle_event_c cond hs cb = Some (cb', hs')"
  shows "same_resources cb cb'"
  by (rule wait_event_invariant [of "same_resources cb", OF _ assms])
    (auto intro: same_resources_trans same_resources_event)

lemma same_resources_bind: "nmsg_bind_client e hs cb = Some (r, cb', hs') \<Longrightarrow> same_resources cb cb'"
  by (auto simp: nmsg_bind_client_def split: if_splits option.splits dest: same_resources_wait)

lemma same_resources_connect: "nmsg_connect_client_c e hs cb = Some (r, cb', hs') \<Longrightarrow> same_resources cb cb'"
  by (auto simp: nmsg_connect_client_c_def split: if_splits option.splits dest: same_resources_wait)

lemma setup_buffers_ok:
  "nmsg_setup_buffers_c e cb = (0, cb') \<Longrightarrow> live cb' = live cb \<union> buffer_resources
     \<and> bad_release cb' = bad_release cb \<and> reg_mr cb' = Valid \<and> data_buf cb' = Valid \<and> e_mr e = 0 \<and> e_buf e"
  by (auto simp: nmsg_setup_buffers_c_def buffer_resources_def nmsg_setup_wr_c_def Let_def acquire_def
      split: if_splits)

text \<open>On the two failing paths the two DMA mappings stay, and an uninitialised buffer pointer is freed.\<close>

lemma setup_buffers_failed:
  "nmsg_setup_buffers_c e cb = (r, cb') \<Longrightarrow> r \<noteq> 0 \<Longrightarrow> live cb \<inter> buffer_resources = {} \<Longrightarrow>
     live cb' = live cb \<union> {RES_DMA_RECV, RES_DMA_SEND}
     \<and> bad_release cb' = bad_release cb \<union> (if e_mr e \<noteq> 0 \<and> data_buf cb \<noteq> Null then {RES_BUF} else {})"
  by (auto simp: nmsg_setup_buffers_c_def setup_buffers_bail_c_def buffer_resources_def Let_def
      split: if_splits)

lemma free_buffers_inverse:
  "buffer_resources \<subseteq> live cb \<Longrightarrow> reg_mr cb = Valid \<Longrightarrow> data_buf cb = Valid \<Longrightarrow>
     live (nmsg_free_buffers_c cb) = live cb - buffer_resources
     \<and> bad_release (nmsg_free_buffers_c cb) = bad_release cb"
  by (auto simp: nmsg_free_buffers_c_def buffer_resources_def Let_def)

lemma setup_qp_buffers:
  "nmsg_setup_qp_c e cb = (r, cb') \<Longrightarrow> reg_mr cb' = reg_mr cb \<and> data_buf cb' = data_buf cb"
  by (auto simp: nmsg_setup_qp_c_def nmsg_create_qp_c_def Let_def split: if_splits)

lemma setup_qp_disjoint:
  "nmsg_setup_qp_c e cb = (r, cb') \<Longrightarrow> live cb \<inter> buffer_resources = {} \<Longrightarrow> live cb' \<inter> buffer_resources = {}"
  by (auto simp: nmsg_setup_qp_c_def nmsg_create_qp_c_def buffer_resources_def Let_def split: if_splits)

lemma qp_buffer_disjoint: "qp_resources \<inter> buffer_resources = {}"
  by (auto simp: qp_resources_def buffer_resources_def)

lemma teardown_buffers_qp:
  assumes "live cb = L \<union> qp_resources \<union> buffer_resources" and "L \<inter> (qp_resources \<union> buffer_resources) = {}"
    and "reg_mr cb = Valid" and "data_buf cb = Valid"
  shows "live (nmsg_free_qp_c (nmsg_free_buffers_c cb)) = L
    \<and> bad_release (nmsg_free_qp_c (nmsg_free_buffers_c cb)) = bad_release cb"
  using assms qp_buffer_disjoint free_buffers_inverse [of cb]
  by (auto simp: client_qp.free_live client_qp.free_bad)

lemma run_client_cases:
  assumes "nmsg_run_client e hs cb = Some (r, cb', hs')"
  obtains (bind) "nmsg_bind_client e hs cb = Some (r, cb', hs')" "r \<noteq> 0"
  | (qp) cb1 hs1 where "nmsg_bind_client e hs cb = Some (0, cb1, hs1)"
      "nmsg_setup_qp_c (r_qp e) cb1 = (r, cb')" "r \<noteq> 0"
  | (buffers) cb1 hs1 cb2 cb3 where "nmsg_bind_client e hs cb = Some (0, cb1, hs1)"
      "nmsg_setup_qp_c (r_qp e) cb1 = (0, cb2)" "nmsg_setup_buffers_c (r_buffers e) cb2 = (r, cb3)"
      "r \<noteq> 0" "cb' = nmsg_free_qp_c cb3"
  | (late) cb1 hs1 cb2 cb3 cb4 where "nmsg_bind_client e hs cb = Some (0, cb1, hs1)"
      "nmsg_setup_qp_c (r_qp e) cb1 = (0, cb2)" "nmsg_setup_buffers_c (r_buffers e) cb2 = (0, cb3)"
      "same_resources cb3 cb4" "r \<noteq> 0" "cb' = nmsg_free_qp_c (nmsg_free_buffers_c cb4)"
  | (connected) cb1 hs1 cb2 cb3 where "nmsg_bind_client e hs cb = Some (0, cb1, hs1)"
      "nmsg_setup_qp_c (r_qp e) cb1 = (0, cb2)" "nmsg_setup_buffers_c (r_buffers e) cb2 = (0, cb3)"
      "same_resources cb3 cb'" "r = 0"
proof -
  have post: "same_resources cb3 (cb3\<lparr>posted := ps\<rparr>)" for cb3 ps by (simp add: same_resources_def)
  note conn = same_resources_connect [THEN same_resources_trans [OF post]]
  obtain r1 cb1 hs1 where b: "nmsg_bind_client e hs cb = Some (r1, cb1, hs1)"
    using assms by (auto simp: nmsg_run_client_def split: option.splits)
  obtain r2 cb2 where q: "nmsg_setup_qp_c (r_qp e) cb1 = (r2, cb2)" by fastforce
  obtain r3 cb3 where u: "nmsg_setup_buffers_c (r_buffers e) cb2 = (r3, cb3)" by fastforce
  note run = assms [unfolded nmsg_run_client_def b, simplified]
  show ?thesis
  proof (cases "r1 = 0 \<and> r2 = 0 \<and> r3 = 0")
    case False
    with b q u run that(1-3) show ?thesis by (simp split: if_splits)
  next
    case True
    then show ?thesis
    proof (cases "r_post_recv e = 0")
      case False
      with run True q u have "r \<noteq> 0" "cb' = nmsg_free_qp_c (nmsg_free_buffers_c cb3)" by auto
      with b q u True show ?thesis by (intro that(4) [OF _ _ _ same_resources_refl]) simp_all
    next
      case post: True
      with run True q u obtain r4 cb4 hs4 where
        c: "nmsg_connect_client_c e hs1 (cb3\<lparr>posted := posted cb3 @ [WR_RECV]\<rparr>) = Some (r4, cb4, hs4)"
        by (auto simp: Let_def split: option.splits)
      from c have "same_resources cb3 cb4" by (rule conn)
      with b q u c run True post that(4,5) show ?thesis
        by (cases "r4 = 0") (simp_all add: Let_def)
    qed
  qed
qed

text \<open>
  Connecting is all or nothing for everything but two DMA mappings: on success the client holds
  the queue pair and its buffers and nothing was released wrongly; on failure it holds what it held
  before, except that a failure inside \<open>nmsg_setup_buffers\<close> leaves the two DMA mappings in place.
\<close>

lemma run_client_resources:
  assumes run: "nmsg_run_client e hs cb = Some (r, cb', hs')"
    and fresh: "live cb \<inter> (qp_resources \<union> buffer_resources) = {}" and null: "data_buf cb = Null"
  shows "bad_release cb' = bad_release cb \<and>
    (if r = 0 then live cb' = live cb \<union> qp_resources \<union> buffer_resources
     else if e_mr (r_buffers e) = 0 \<and> e_buf (r_buffers e) then live cb' = live cb
     else live cb' = live cb \<or> live cb' = live cb \<union> {RES_DMA_RECV, RES_DMA_SEND})"
  using run
proof (cases rule: run_client_cases)
  case bind
  then show ?thesis using same_resources_bind [of e hs cb] by (auto simp: same_resources_def)
next
  case (qp cb1 hs1)
  have "same_resources cb cb1" using qp(1) by (rule same_resources_bind)
  then show ?thesis
    using fresh qp(3) client_qp.setup_failed [OF qp(2,3)] client_qp.setup_bad [OF qp(2)]
    by (auto simp: same_resources_def)
next
  case (buffers cb1 hs1 cb2 cb3)
  from buffers(1) have s: "same_resources cb cb1" by (rule same_resources_bind)
  have l2: "live cb2 = live cb \<union> qp_resources" "bad_release cb2 = bad_release cb" "data_buf cb2 = Null"
    using client_qp.setup_ok [OF buffers(2)] client_qp.setup_bad [OF buffers(2)]
      setup_qp_buffers [OF buffers(2)] s null by (auto simp: same_resources_def)
  moreover have "live cb2 \<inter> buffer_resources = {}" using l2 fresh qp_buffer_disjoint by auto
  ultimately have l3: "live cb3 = live cb \<union> qp_resources \<union> {RES_DMA_RECV, RES_DMA_SEND}"
      "bad_release cb3 = bad_release cb"
    using setup_buffers_failed [OF buffers(3,4)] by auto
  have "\<not> (e_mr (r_buffers e) = 0 \<and> e_buf (r_buffers e))"
    using buffers(3,4) by (auto simp: nmsg_setup_buffers_c_def Let_def)
  with l3 buffers(4,5) fresh show ?thesis
    by (auto simp: client_qp.free_live client_qp.free_bad qp_resources_def buffer_resources_def)
next
  case (late cb1 hs1 cb2 cb3 cb4)
  have s: "same_resources cb cb1" using late(1) by (rule same_resources_bind)
  have l3: "live cb3 = live cb \<union> qp_resources \<union> buffer_resources" "bad_release cb3 = bad_release cb"
      "reg_mr cb3 = Valid" "data_buf cb3 = Valid"
    using client_qp.setup_ok [OF late(2)] client_qp.setup_bad [OF late(2)] setup_buffers_ok [OF late(3)] s
    by (auto simp: same_resources_def)
  then have "live cb4 = live cb \<union> qp_resources \<union> buffer_resources" "bad_release cb4 = bad_release cb"
      "reg_mr cb4 = Valid" "data_buf cb4 = Valid"
    using late(4) by (simp_all add: same_resources_def)
  then show ?thesis using teardown_buffers_qp [of cb4 "live cb"] fresh late(5,6) by simp
next
  case (connected cb1 hs1 cb2 cb3)
  have s: "same_resources cb cb1" using connected(1) by (rule same_resources_bind)
  show ?thesis
    using client_qp.setup_ok [OF connected(2)] client_qp.setup_bad [OF connected(2)]
      setup_buffers_ok [OF connected(3)] s connected(4,5) by (auto simp: same_resources_def)
qed

lemma run_client_valid: "nmsg_run_client e hs cb = Some (0, cb', hs') \<Longrightarrow> reg_mr cb' = Valid \<and> data_buf cb' = Valid"
proof (erule run_client_cases)
  fix cb1 hs1 cb2 cb3
  assume "nmsg_setup_buffers_c (r_buffers e) cb2 = (0, cb3)" "same_resources cb3 cb'"
  then show "reg_mr cb' = Valid \<and> data_buf cb' = Valid"
    using setup_buffers_ok by (fastforce simp: same_resources_def)
qed simp_all

lemma free_buffers_live: "live (nmsg_free_buffers_c cb) \<subseteq> live cb"
  by (auto simp: nmsg_free_buffers_c_def Let_def)


text \<open>The same on a connection that is set up and then destroyed.\<close>

definition fresh_client :: client_cb where
  "fresh_client = \<lparr>state = IDLE, send_bytes = 0, send_msgs = 0, recv_bytes = 0, recv_msgs = 0,
     recv_buf = \<lparr>sync_t = 0, local_port_t = 0, remote_port_t = 0, data_id = 0, buf = 0, rkey = 0, data_size = 0, data_type = 0\<rparr>,
     send_buf = \<lparr>sync_t = 0, local_port_t = 0, remote_port_t = 0, data_id = 0, buf = 0, rkey = 0, data_size = 0, data_type = 0\<rparr>,
     send_sge_length = 0, key = 0, mr_rkey = 0, message_size = 0, page_list_len = 0, reg_mr = Null,
     data_buf = Null, dma_addr = 0, live = {}, bad_release = {}, wakeups = 0, posted = [],
     message = [], start_data = [], heap_overflow = False\<rparr>"

definition calm_client_env :: client_env where
  "calm_client_env = \<lparr>r_resolve_addr = 0, r_supported = 1,
     r_qp = \<lparr>e_pd = 0, e_cq = 0, e_notify = 0, e_qp = 0\<rparr>,
     r_buffers = \<lparr>e_mr = 0, e_buf = True, e_addr = 4096\<rparr>, r_post_recv = 0, r_connect = 0\<rparr>"


end
