(* ===== verification/Rdma_Server.thy ===== *)
theory Rdma_Server
  imports Rdma_Common
begin

text \<open>
  The RDMA server, \<open>mm/nmsg_rdma_server.c\<close>: its handlers, the set-up and tear-down of a connection and
  the service loop of \<open>nmsg_start\<close>, in which every message is fetched by an RDMA read and answered
  by a go-ahead. Functions that exist on both sides carry the suffix \<open>_s\<close>. Results of the verbs and
  connection-manager calls are arguments.
\<close>

section \<open>The server's handler block\<close>

record server_cb = nmsg_cb +
  remote_rkey :: u32
  remote_addr :: u64
  remote_len :: u32
  server_overflow :: bool

section \<open>Event handlers\<close>

text \<open>
  Unlike the client's handler, \<open>EV_ESTABLISHED\<close> leaves the state alone, and \<open>EV_CONNECT_REQUEST\<close> takes over
  the identifier of the new connection.
\<close>

fun nmsg_cma_event_handler_s :: "int \<Rightarrow> cm_event \<Rightarrow> server_cb \<Rightarrow> server_cb" where
  "nmsg_cma_event_handler_s r EV_ADDR_RESOLVED cb =
    (let cb = cb\<lparr>state := ADDR_RESOLVED\<rparr> in if r \<noteq> 0 then wake_up cb else cb)"
| "nmsg_cma_event_handler_s r EV_ROUTE_RESOLVED cb = wake_up (cb\<lparr>state := ROUTE_RESOLVED\<rparr>)"
| "nmsg_cma_event_handler_s r EV_CONNECT_REQUEST cb =
    wake_up (acquire RES_CHILD_CM_ID (cb\<lparr>state := CONNECT_REQUEST\<rparr>))"
| "nmsg_cma_event_handler_s r EV_ESTABLISHED cb = wake_up cb"
| "nmsg_cma_event_handler_s r EV_ADDR_ERROR cb = wake_up (cb\<lparr>state := ERROR\<rparr>)"
| "nmsg_cma_event_handler_s r EV_ROUTE_ERROR cb = wake_up (cb\<lparr>state := ERROR\<rparr>)"
| "nmsg_cma_event_handler_s r EV_CONNECT_ERROR cb = wake_up (cb\<lparr>state := ERROR\<rparr>)"
| "nmsg_cma_event_handler_s r EV_UNREACHABLE cb = wake_up (cb\<lparr>state := ERROR\<rparr>)"
| "nmsg_cma_event_handler_s r EV_REJECTED cb = wake_up (cb\<lparr>state := ERROR\<rparr>)"
| "nmsg_cma_event_handler_s r EV_DISCONNECTED cb = wake_up (cb\<lparr>state := ERROR\<rparr>)"
| "nmsg_cma_event_handler_s r EV_DEVICE_REMOVAL cb = wake_up (cb\<lparr>state := ERROR\<rparr>)"
| "nmsg_cma_event_handler_s r EV_OTHER cb = wake_up cb"

definition server_recv :: "(u64 \<Rightarrow> u64) \<Rightarrow> cq_item \<Rightarrow> server_cb \<Rightarrow> int \<times> server_cb" where
  "server_recv ntohll w cb =
    (if byte_len w \<noteq> sizeof_nmsg_data then (-1, cb)
     else let cb = cb\<lparr>remote_rkey := bswap32 (rkey (recv_buf cb)),
                      remote_addr := ntohll (buf (recv_buf cb)),
                      remote_len := bswap32 (data_size (recv_buf cb))\<rparr>
     in if state cb \<le> CONNECTED \<or> state cb = RDMA_WRITE_COMPLETE
        then (0, cb\<lparr>state := RDMA_READ_ADV\<rparr>)
        else (0, cb\<lparr>state := RDMA_WRITE_ADV\<rparr>))"

definition cq_switch_s :: "(u64 \<Rightarrow> u64) \<Rightarrow> cq_item \<Rightarrow> server_cb \<Rightarrow> server_cb + server_cb" where
  "cq_switch_s ntohll w cb =
    (case opcode w of
       WC_SEND \<Rightarrow> Inr (cb\<lparr>send_bytes := send_bytes cb + ucast (send_sge_length cb),
                        send_msgs := send_msgs cb + 1\<rparr>)
     | WC_RDMA_READ \<Rightarrow> Inr (wake_up (cb\<lparr>recv_bytes := recv_bytes cb + ucast sizeof_nmsg_data,
                        recv_msgs := recv_msgs cb + 1, state := RDMA_READ_COMPLETE\<rparr>))
     | WC_RECV \<Rightarrow>
         (let (ret, cb) = server_recv ntohll w (cb\<lparr>recv_buf := incoming w\<rparr>)
          in if ret \<noteq> 0 then Inl cb
             else if post_recv_ret w \<noteq> 0 then Inl cb
             else Inr (wake_up (cb\<lparr>posted := posted cb @ [WR_RECV]\<rparr>)))
     | WC_OTHER \<Rightarrow> Inl cb)"

definition cq_error_s :: "server_cb \<Rightarrow> server_cb" where
  "cq_error_s cb = wake_up (cb\<lparr>state := ERROR\<rparr>)"

fun cq_loop_s :: "(u64 \<Rightarrow> u64) \<Rightarrow> cq_item list \<Rightarrow> int \<Rightarrow> server_cb \<Rightarrow> server_cb" where
  "cq_loop_s ntohll [] ret cb = (if ret \<noteq> 0 then cq_error_s cb else cb)"
| "cq_loop_s ntohll (w # ws) ret cb =
    (if status w \<noteq> WC_SUCCESS
     then (if status w = WC_WR_FLUSH_ERR then cq_loop_s ntohll ws ret cb else cq_error_s cb)
     else (case cq_switch_s ntohll w cb of
         Inl cb \<Rightarrow> cq_error_s cb | Inr cb \<Rightarrow> cq_loop_s ntohll ws ret cb))"

definition nmsg_cq_event_handler_s :: "(u64 \<Rightarrow> u64) \<Rightarrow> cq_item list \<Rightarrow> int \<Rightarrow> server_cb \<Rightarrow> server_cb" where
  "nmsg_cq_event_handler_s ntohll ws ret cb =
    (if state cb = ERROR then cb else cq_loop_s ntohll ws ret cb)"

fun handle_event_s :: "(u64 \<Rightarrow> u64) \<Rightarrow> rdma_event \<Rightarrow> server_cb \<Rightarrow> server_cb" where
  "handle_event_s ntohll (Cm ev r) cb = nmsg_cma_event_handler_s r ev cb"
| "handle_event_s ntohll (Cq ws r) cb = nmsg_cq_event_handler_s ntohll ws r cb"

lemma server_recv_state: "server_recv f w cb = (r, cb') \<Longrightarrow> state cb \<noteq> ERROR \<Longrightarrow> state cb' \<noteq> ERROR"
  by (auto simp: server_recv_def Let_def split: if_splits)

interpretation server_cq: completion_queue "cq_loop_s ntohll" "cq_switch_s ntohll" cq_error_s state
  for ntohll
proof unfold_locales
  fix w ws ret cb
  show "cq_loop_s ntohll (w # ws) ret cb =
      (if status w = WC_WR_FLUSH_ERR then cq_loop_s ntohll ws ret cb
       else if status w = WC_FAILED then cq_error_s cb
       else case cq_switch_s ntohll w cb of
          Inl cb' \<Rightarrow> cq_error_s cb' | Inr cb' \<Rightarrow> cq_loop_s ntohll ws ret cb')"
    by (cases "status w") (simp_all split: sum.split)
next
  fix w cb cb'
  assume "cq_switch_s ntohll w cb = Inr cb'" and "state cb \<noteq> ERROR"
  then show "state cb' \<noteq> ERROR"
    by (auto simp: cq_switch_s_def split: wc_opcode.splits prod.splits if_splits dest: server_recv_state)
qed (simp_all add: cq_error_s_def)

section \<open>Queue pair, memory key and buffers\<close>

definition nmsg_qp_attr_s :: qp_init_attr where
  "nmsg_qp_attr_s = \<lparr>max_send_wr = 64 + 1, max_recv_wr = 2 + 1, max_recv_sge = 1, max_send_sge = 1\<rparr>"

definition nmsg_create_qp_s :: "(qp_init_attr \<Rightarrow> int) \<Rightarrow> server_cb \<Rightarrow> int \<times> server_cb" where
  "nmsg_create_qp_s rdma_create_qp cb =
    (let ret = rdma_create_qp nmsg_qp_attr_s in if ret = 0 then (ret, acquire RES_QP cb) else (ret, cb))"

definition nmsg_rdma_rkey_s ::
  "(u32 \<Rightarrow> u8 \<Rightarrow> u32) \<Rightarrow> int \<Rightarrow> int \<Rightarrow> server_cb \<Rightarrow> (u32 \<times> server_cb) option" where
  "nmsg_rdma_rkey_s update_key map_ret post_ret cb =
    (let cb = cb\<lparr>key := key cb + 1\<rparr>;
         cb = cb\<lparr>mr_rkey := update_key (mr_rkey cb) (key cb)\<rparr>
     in if map_ret \<le> 0 \<or> map_ret > page_list_len cb then None
        else let cb = post_send post_ret [WR_REG_MR (mr_rkey cb) ACCESS_REMOTE_LOCAL_WRITE] cb;
                 cb = (if post_ret \<noteq> 0 then cb\<lparr>state := ERROR\<rparr> else cb)
             in Some (mr_rkey cb, cb))"

definition nmsg_setup_wr_s :: "server_cb \<Rightarrow> server_cb" where
  "nmsg_setup_wr_s cb = cb\<lparr>send_sge_length := sizeof_nmsg_data\<rparr>"

text \<open>
  On the server the coherent buffer is allocated first, so at \<open>bail\<close> it is \<open>cb->reg_mr\<close> that may be
  uninitialised; again the DMA mappings stay.
\<close>

definition setup_buffers_bail_s :: "server_cb \<Rightarrow> server_cb" where
  "setup_buffers_bail_s cb =
    (let cb = (case reg_mr cb of Null \<Rightarrow> cb | Err _ \<Rightarrow> cb | _ \<Rightarrow> release RES_MR cb)
     in if data_buf cb \<noteq> Null then release RES_BUF cb else cb)"

definition nmsg_setup_buffers_s :: "buffer_env \<Rightarrow> server_cb \<Rightarrow> int \<times> server_cb" where
  "nmsg_setup_buffers_s e cb =
    (let cb = acquire RES_DMA_SEND (acquire RES_DMA_RECV cb)
     in if \<not> e_buf e
        then (let cb = cb\<lparr>data_buf := Null\<rparr> in (- ENOMEM, setup_buffers_bail_s cb))
     else let cb = acquire RES_BUF (cb\<lparr>data_buf := Valid, dma_addr := e_addr e\<rparr>);
              cb = cb\<lparr>page_list_len := page_list_len_of (message_size cb)\<rparr>
     in if e_mr e \<noteq> 0
        then (let cb = cb\<lparr>reg_mr := Err (e_mr e)\<rparr> in (e_mr e, setup_buffers_bail_s cb))
     else let cb = acquire RES_MR (cb\<lparr>reg_mr := Valid\<rparr>)
     in (0, nmsg_setup_wr_s cb))"

definition nmsg_free_buffers_s :: "server_cb \<Rightarrow> server_cb" where
  "nmsg_free_buffers_s cb =
    (let cb = (if reg_mr cb \<noteq> Null then release RES_MR cb else cb);
         cb = release RES_DMA_RECV cb;
         cb = release RES_DMA_SEND cb
     in release RES_BUF cb)"

definition nmsg_free_qp_s :: "server_cb \<Rightarrow> server_cb" where
  "nmsg_free_qp_s cb = release RES_PD (release RES_CQ (release RES_QP cb))"

definition nmsg_setup_qp_s :: "qp_env \<Rightarrow> server_cb \<Rightarrow> int \<times> server_cb" where
  "nmsg_setup_qp_s e cb =
    (if e_pd e \<noteq> 0 then (e_pd e, cb)
     else let cb = acquire RES_PD cb
     in if e_cq e \<noteq> 0 then (e_cq e, release RES_PD cb)
     else let cb = acquire RES_CQ cb
     in if e_notify e \<noteq> 0 then (e_notify e, release RES_PD (release RES_CQ cb))
     else let (ret, cb) = nmsg_create_qp_s (\<lambda>_. e_qp e) cb
     in if ret \<noteq> 0 then (ret, release RES_PD (release RES_CQ cb))
     else (0, cb))"

interpretation server_qp: qp_lifecycle nmsg_setup_qp_s nmsg_free_qp_s
  by unfold_locales
    (auto simp: nmsg_setup_qp_s_def nmsg_create_qp_s_def nmsg_free_qp_s_def qp_resources_def Let_def
      split: if_splits)

definition reg_supported_s :: "u64 \<Rightarrow> u64 \<Rightarrow> int" where
  "reg_supported_s needed_flags device_cap_flags =
    (if (device_cap_flags AND needed_flags) \<noteq> needed_flags then 0 else 1)"

section \<open>One message: nmsg_run_server\<close>

text \<open>
  What a function of the server thread ends in: still asleep when the happenings run out, a \<open>BUG_ON\<close>,
  or a return code with the block and the happenings to come.
\<close>

datatype outcome = Asleep | Bug | Ret int server_cb "rdma_event happening list"

record round_env =
  r_map :: int \<comment> \<open>\<open>ib_map_mr_sg\<close>\<close>
  r_reg :: int \<comment> \<open>\<open>ib_post_send\<close> of the registration\<close>
  r_read :: int \<comment> \<open>\<open>ib_post_send\<close> of the read and the local invalidate\<close>
  r_go :: int \<comment> \<open>\<open>ib_post_send\<close> of the go-ahead\<close>

definition nmsg_run_server ::
  "(u64 \<Rightarrow> u64) \<Rightarrow> (u32 \<Rightarrow> u8 \<Rightarrow> u32) \<Rightarrow> round_env \<Rightarrow> rdma_event happening list \<Rightarrow> server_cb \<Rightarrow> outcome"
where
  "nmsg_run_server ntohll update_key e hs cb =
    (case wait_event (handle_event_s ntohll) (\<lambda>cb. state cb \<ge> RDMA_READ_ADV) hs cb of
       None \<Rightarrow> Asleep
     | Some (cb, hs) \<Rightarrow>
     if state cb \<noteq> RDMA_READ_ADV then Ret (-1) cb hs
     else case nmsg_rdma_rkey_s update_key (r_map e) (r_reg e) cb of
       None \<Rightarrow> Bug
     | Some (lkey, cb) \<Rightarrow>
     if r_read e \<noteq> 0 then Ret (r_read e) cb hs
     else let cb = post_send 0 [WR_RDMA_READ (remote_rkey cb) (remote_addr cb) (remote_len cb) lkey,
                                WR_LOCAL_INV (mr_rkey cb)] cb
     in case wait_event (handle_event_s ntohll) (\<lambda>cb. state cb \<ge> RDMA_READ_COMPLETE) hs cb of
       None \<Rightarrow> Asleep
     | Some (cb, hs) \<Rightarrow>
     if state cb \<noteq> RDMA_READ_COMPLETE then Ret 0 cb hs
     else let cb = cb\<lparr>state := CONNECTED\<rparr>
     in if r_go e \<noteq> 0 then Ret (r_go e) cb hs
     else Ret 0 (post_send 0 [WR_SEND_WITH_INV (remote_rkey cb)] cb) hs)"

section \<open>Connection set-up and the server thread\<close>

record server_env =
  s_supported :: int
  s_qp :: qp_env
  s_buffers :: buffer_env
  s_post_recv :: int
  s_accept :: int

definition nmsg_connect_client_s ::
  "(u64 \<Rightarrow> u64) \<Rightarrow> server_env \<Rightarrow> rdma_event happening list \<Rightarrow> server_cb \<Rightarrow> outcome" where
  "nmsg_connect_client_s ntohll e hs cb =
    (case wait_event (handle_event_s ntohll) (\<lambda>cb. state cb \<ge> CONNECT_REQUEST) hs cb of
       None \<Rightarrow> Asleep
     | Some (cb, hs) \<Rightarrow>
         if state cb \<noteq> CONNECT_REQUEST then Ret (-1) cb hs
         else if s_supported e = 0 then Ret (- EINVAL) cb hs
         else Ret 0 cb hs)"

definition nmsg_accept :: "(u64 \<Rightarrow> u64) \<Rightarrow> server_env \<Rightarrow> rdma_event happening list \<Rightarrow> server_cb \<Rightarrow> outcome" where
  "nmsg_accept ntohll e hs cb =
    (if s_accept e \<noteq> 0 then Ret (s_accept e) cb hs
     else case wait_event (handle_event_s ntohll) (\<lambda>cb. state cb \<ge> CONNECTED) hs cb of
       None \<Rightarrow> Asleep
     | Some (cb, hs) \<Rightarrow> if state cb = ERROR then Ret (-1) cb hs else Ret 0 cb hs)"

text \<open>When no client can be connected, \<open>nmsg_server_setup\<close> prints a message and returns 0.\<close>

definition nmsg_server_setup :: "(u64 \<Rightarrow> u64) \<Rightarrow> server_env \<Rightarrow> rdma_event happening list \<Rightarrow> server_cb \<Rightarrow> outcome" where
  "nmsg_server_setup ntohll e hs cb =
    (case nmsg_connect_client_s ntohll e hs cb of
       Asleep \<Rightarrow> Asleep
     | Bug \<Rightarrow> Bug
     | Ret ret cb hs \<Rightarrow>
     if ret \<noteq> 0 then Ret 0 cb hs
     else case nmsg_setup_qp_s (s_qp e) cb of (ret, cb) \<Rightarrow>
     if ret \<noteq> 0 then Ret ret (release RES_CHILD_CM_ID cb) hs
     else case nmsg_setup_buffers_s (s_buffers e) cb of (ret, cb) \<Rightarrow>
     if ret \<noteq> 0 then Ret ret (release RES_CHILD_CM_ID (nmsg_free_qp_s cb)) hs
     else if s_post_recv e \<noteq> 0
     then Ret (s_post_recv e) (release RES_CHILD_CM_ID (nmsg_free_qp_s (nmsg_free_buffers_s cb))) hs
     else Ret 0 (cb\<lparr>posted := posted cb @ [WR_RECV]\<rparr>) hs)"

text \<open>
  \<open>while (!ret) ret = nmsg_run_server();\<close>, with the results of the verbs calls of round \<open>n\<close> in \<open>env n\<close>. A
  round that returns 0 has slept at least once, so the loop ends with the happenings at the latest.
\<close>

lemma wait_event_length:
  "wait_event handle cond hs cb = Some (cb', hs') \<Longrightarrow> \<not> cond cb \<Longrightarrow> length hs' < length hs"
  by (auto simp: wait_event_def dest: sleep_on_consumes)

lemma wait_event_length_le:
  "wait_event handle cond hs cb = Some (cb', hs') \<Longrightarrow> length hs' \<le> length hs"
  by (auto simp: wait_event_def split: if_splits dest: sleep_on_consumes)

lemma nmsg_rdma_rkey_s_state:
  "nmsg_rdma_rkey_s u m r cb = Some (k, cb') \<Longrightarrow> state cb' = (if r \<noteq> 0 then ERROR else state cb)"
  by (auto simp: nmsg_rdma_rkey_s_def Let_def split: if_splits)

lemma nmsg_run_server_progress:
  assumes "nmsg_run_server ntohll u e hs cb = Ret 0 cb' hs'"
  shows "length hs' < length hs \<or> length hs' = length hs \<and> state cb \<noteq> ERROR \<and> state cb' = ERROR"
proof -
  let ?h = "handle_event_s ntohll"
  from assms obtain cb1 hs1 k cb2 where
    w1: "wait_event ?h (\<lambda>cb. state cb \<ge> RDMA_READ_ADV) hs cb = Some (cb1, hs1)"
    and st1: "state cb1 = RDMA_READ_ADV"
    and k: "nmsg_rdma_rkey_s u (r_map e) (r_reg e) cb1 = Some (k, cb2)"
    by (auto simp: nmsg_run_server_def split: option.splits if_splits prod.splits)
  let ?cb3 = "post_send 0 [WR_RDMA_READ (remote_rkey cb2) (remote_addr cb2) (remote_len cb2) k,
                           WR_LOCAL_INV (mr_rkey cb2)] cb2"
  from assms w1 st1 k obtain cb4 hs4 where
    w2: "wait_event ?h (\<lambda>cb. state cb \<ge> RDMA_READ_COMPLETE) hs1 ?cb3 = Some (cb4, hs4)"
    and fin: "hs' = hs4" "state cb4 = RDMA_READ_COMPLETE \<or> cb' = cb4"
    by (auto simp: nmsg_run_server_def Let_def split: option.splits if_splits prod.splits)
  show ?thesis
  proof (cases "r_reg e = 0")
    case True
    then have "\<not> state ?cb3 \<ge> RDMA_READ_COMPLETE"
      using nmsg_rdma_rkey_s_state [OF k] st1 by (simp add: state_order)
    then show ?thesis using wait_event_length [OF w2] wait_event_length_le [OF w1] fin by simp
  next
    case False
    then have err: "state ?cb3 = ERROR" using nmsg_rdma_rkey_s_state [OF k] by simp
    then have "cb4 = ?cb3" and "hs4 = hs1" using w2 by (simp_all add: wait_event_def)
    moreover have "state cb \<noteq> ERROR"
      using w1 st1 by (auto simp: wait_event_def)
    ultimately show ?thesis using wait_event_length_le [OF w1] err fin by auto
  qed
qed

function server_loop ::
  "(u64 \<Rightarrow> u64) \<Rightarrow> (u32 \<Rightarrow> u8 \<Rightarrow> u32) \<Rightarrow> (nat \<Rightarrow> round_env) \<Rightarrow> nat \<Rightarrow> rdma_event happening list \<Rightarrow> server_cb \<Rightarrow> outcome"
where
  "server_loop ntohll update_key env n hs cb =
    (case nmsg_run_server ntohll update_key (env n) hs cb of
       Asleep \<Rightarrow> Asleep
     | Bug \<Rightarrow> Bug
     | Ret ret cb' hs' \<Rightarrow>
         if ret \<noteq> 0 then Ret ret cb' hs' else server_loop ntohll update_key env (n + 1) hs' cb')"
  by pat_completeness auto
termination
  by (relation "measure (\<lambda>(_, _, _, _, hs, cb). 2 * length hs + (if state cb = ERROR then 0 else 1))")
    (auto dest!: nmsg_run_server_progress)

declare server_loop.simps [simp del]

definition nmsg_start_s ::
  "(u64 \<Rightarrow> u64) \<Rightarrow> (u32 \<Rightarrow> u8 \<Rightarrow> u32) \<Rightarrow> server_env \<Rightarrow> (nat \<Rightarrow> round_env) \<Rightarrow> rdma_event happening list \<Rightarrow> server_cb \<Rightarrow> outcome"
where
  "nmsg_start_s ntohll update_key e env hs cb =
    (let cleanup = (\<lambda>cb. release RES_CHILD_CM_ID (nmsg_free_qp_s (nmsg_free_buffers_s cb)))
     in case nmsg_server_setup ntohll e hs cb of
       Asleep \<Rightarrow> Asleep
     | Bug \<Rightarrow> Bug
     | Ret ret cb hs \<Rightarrow>
     if ret \<noteq> 0 then Ret ret cb hs
     else case nmsg_accept ntohll e hs cb of
       Asleep \<Rightarrow> Asleep
     | Bug \<Rightarrow> Bug
     | Ret ret cb hs \<Rightarrow>
     if ret \<noteq> 0 then Ret ret (cleanup cb) hs
     else case server_loop ntohll update_key env 0 hs cb of
       Asleep \<Rightarrow> Asleep
     | Bug \<Rightarrow> Bug
     | Ret ret cb hs \<Rightarrow> Ret ret (cleanup cb) hs)"

section \<open>Starting and stopping the server\<close>

text \<open>
  \<open>nmsg_pre_setup\<close> copies the address with \<open>strcpy\<close> into a block of \<open>strlen(addr)\<close> bytes;
  \<open>nmsg_pre_start\<close> returns an error without releasing what it holds.
\<close>

definition nmsg_pre_setup :: "string \<Rightarrow> server_cb \<Rightarrow> server_cb" where
  "nmsg_pre_setup addr fresh =
    (let cb = acquire RES_CB fresh;
         cb = cb\<lparr>server_overflow := server_overflow cb \<or> \<not> strcpy_fits (length addr) addr\<rparr>
     in cb\<lparr>state := IDLE, message_size := 1024\<rparr>)"

definition nmsg_bind_server :: "int \<Rightarrow> int \<Rightarrow> int" where
  "nmsg_bind_server bind_ret listen_ret = (if bind_ret \<noteq> 0 then bind_ret else if listen_ret \<noteq> 0 then listen_ret else 0)"

definition nmsg_pre_start_s :: "int \<Rightarrow> int \<Rightarrow> int \<Rightarrow> string \<Rightarrow> server_cb \<Rightarrow> int \<times> server_cb" where
  "nmsg_pre_start_s create_ret bind_ret listen_ret addr fresh =
    (let cb = nmsg_pre_setup addr fresh
     in if create_ret \<noteq> 0 then (create_ret, cb)
        else let cb = acquire RES_CM_ID cb; ret = nmsg_bind_server bind_ret listen_ret
        in (ret, cb))"

definition nmsg_free_s :: "server_cb \<Rightarrow> server_cb" where
  "nmsg_free_s cb =
    (let cb = release RES_CM_ID cb; cb = nmsg_free_buffers_s cb; cb = nmsg_free_qp_s cb
     in release RES_CB cb)"

definition nmsg_start_server_s :: "int \<Rightarrow> int \<Rightarrow> int \<Rightarrow> int \<Rightarrow> string \<Rightarrow> server_cb \<Rightarrow> int \<times> server_cb" where
  "nmsg_start_server_s create_ret bind_ret listen_ret kthread_ret addr fresh =
    (let (ret, cb) = nmsg_pre_start_s create_ret bind_ret listen_ret addr fresh
     in if ret \<noteq> 0 then (ret, cb)
        else if kthread_ret \<noteq> 0 then (kthread_ret, cb)
        else (ret, cb))"

text \<open>\<open>nmsg_stop_server\<close> kills the thread and then frees everything itself.\<close>

definition nmsg_stop_server_s :: "server_cb \<Rightarrow> server_cb" where
  "nmsg_stop_server_s cb = nmsg_free_s cb"

section \<open>Completions\<close>

text \<open>
  The server's completion handler ends in \<open>ERROR\<close> exactly when it started there, polling fails
  or one of the polled completions cannot be handled; otherwise the result is that of handling every
  completion in order, flushed ones skipped.
\<close>

theorem nmsg_cq_event_handler_s_drains:
  "case (if state cb = ERROR then None else if r = 0 then drain (cq_switch_s ntohll) ws cb else None) of
     None \<Rightarrow> state (nmsg_cq_event_handler_s ntohll ws r cb) = ERROR
   | Some cb' \<Rightarrow> nmsg_cq_event_handler_s ntohll ws r cb = cb' \<and> state cb' \<noteq> ERROR"
  using server_cq.loop_failed [of ntohll ws cb r] server_cq.loop_drain [of ntohll ws cb]
    server_cq.drain_state [of ntohll ws cb]
  by (auto simp: nmsg_cq_event_handler_s_def split: option.split)

section \<open>Accepting\<close>

text \<open>
  The events of a connection request that is established in the ordinary way: \<open>EV_ESTABLISHED\<close>, with
  the thread scheduled any number of times in between.
\<close>

definition establishing :: "rdma_event happening \<Rightarrow> bool" where
  "establishing h = (case h of Resched \<Rightarrow> True | Signal \<Rightarrow> False
     | Happen e \<Rightarrow> (case e of Cm ev _ \<Rightarrow> ev = EV_ESTABLISHED | Cq _ _ \<Rightarrow> False))"

lemma sleep_on_establishing:
  "list_all establishing hs \<Longrightarrow> state cb = CONNECT_REQUEST \<Longrightarrow>
     sleep_on (handle_event_s ntohll) (\<lambda>cb. state cb \<ge> CONNECTED) hs cb = None"
proof (induction hs arbitrary: cb)
  case (Cons h hs)
  then show ?case
    by (auto simp: establishing_def state_order split: happening.splits rdma_event.splits)
qed simp

text \<open>
  The handler announces \<open>EV_ESTABLISHED\<close> without recording it, so the event that
  establishes the connection never lets the accepting thread go on: without a message, an error or a
  signal \<open>nmsg_accept\<close> sleeps for ever, whereas the first message from the client wakes it.
\<close>

theorem nmsg_accept_ignores_established:
  assumes "list_all establishing hs" and "state cb = CONNECT_REQUEST" and "s_accept e = 0"
  shows "nmsg_accept ntohll e hs cb = Asleep
    \<and> (if status w = WC_SUCCESS \<and> opcode w = WC_RECV \<and> byte_len w = sizeof_nmsg_data \<and> post_recv_ret w = 0
       then \<exists>cb'. nmsg_accept ntohll e [Happen (Cq [w] 0), Resched] cb = Ret 0 cb' [] \<and> state cb' = RDMA_READ_ADV
       else True)"
  using assms sleep_on_establishing [of hs cb ntohll]
  by (simp add: nmsg_accept_def wait_event_def state_order nmsg_cq_event_handler_s_def
      cq_switch_s_def server_recv_def Let_def)

definition fresh_server :: server_cb where
  "fresh_server = \<lparr>state = IDLE, send_bytes = 0, send_msgs = 0, recv_bytes = 0, recv_msgs = 0,
     recv_buf = \<lparr>sync_t = 0, local_port_t = 0, remote_port_t = 0, data_id = 0, buf = 0, rkey = 0, data_size = 0, data_type = 0\<rparr>,
     send_buf = \<lparr>sync_t = 0, local_port_t = 0, remote_port_t = 0, data_id = 0, buf = 0, rkey = 0, data_size = 0, data_type = 0\<rparr>,
     send_sge_length = 0, key = 0, mr_rkey = 0, message_size = 1024, page_list_len = 1, reg_mr = Null,
     data_buf = Null, dma_addr = 0, live = {}, bad_release = {}, wakeups = 0, posted = [],
     remote_rkey = 0, remote_addr = 0, remote_len = 0, server_overflow = False\<rparr>"

definition calm_server_env :: server_env where
  "calm_server_env = \<lparr>s_supported = 1, s_qp = \<lparr>e_pd = 0, e_cq = 0, e_notify = 0, e_qp = 0\<rparr>,
     s_buffers = \<lparr>e_mr = 0, e_buf = True, e_addr = 4096\<rparr>, s_post_recv = 0, s_accept = 0\<rparr>"

theorem nmsg_accept_ignores_established_witness:
  "nmsg_accept (\<lambda>x. x) calm_server_env [Happen (Cm EV_ESTABLISHED 0), Resched] (fresh_server\<lparr>state := CONNECT_REQUEST\<rparr>) = Asleep"
  by (rule nmsg_accept_ignores_established [THEN conjunct1])
    (simp_all add: establishing_def calm_server_env_def)

section \<open>The end of the server thread\<close>

lemma live_event: "live (handle_event_s ntohll ev cb) \<inter> qp_resources = live cb \<inter> qp_resources"
proof (cases ev)
  case (Cm c r)
  then show ?thesis by (cases c) (simp_all add: qp_resources_def Let_def)
next
  case (Cq ws r)
  have switch: "cq_switch_s ntohll w cb = Inr cb' \<Longrightarrow> live cb' = live cb"
    "cq_switch_s ntohll w cb = Inl cb' \<Longrightarrow> live cb' = live cb" for w cb cb'
    by (auto simp: cq_switch_s_def server_recv_def Let_def split: wc_opcode.splits if_splits)
  have "live (cq_loop_s ntohll ws r cb) = live cb"
    by (induction ws arbitrary: cb) (auto simp: cq_error_s_def switch split: sum.split)
  with Cq show ?thesis by (simp add: nmsg_cq_event_handler_s_def)
qed

lemma live_wait:
  assumes "wait_event (handle_event_s ntohll) cond hs cb = Some (cb', hs')" and "live cb \<inter> qp_resources = {}"
  shows "live cb' \<inter> qp_resources = {}"
  by (rule wait_event_invariant [of "\<lambda>cb. live cb \<inter> qp_resources = {}", OF _ assms]) (simp add: live_event)

lemma free_qp_gone: "live (nmsg_free_qp_s cb) \<inter> qp_resources = {}"
  by (auto simp: server_qp.free_live)

lemma setup_failed_gone:
  assumes "nmsg_server_setup ntohll e hs cb = Ret r cb' hs'" and "r \<noteq> 0" and "live cb \<inter> qp_resources = {}"
  shows "live cb' \<inter> qp_resources = {}"
proof -
  have minus: "A \<inter> qp_resources = {} \<Longrightarrow> (A - B) \<inter> qp_resources = {}" for A B by auto
  obtain r1 cb1 hs1 where c: "nmsg_connect_client_s ntohll e hs cb = Ret r1 cb1 hs1"
    using assms(1) by (auto simp: nmsg_server_setup_def split: outcome.splits)
  then have "wait_event (handle_event_s ntohll) (\<lambda>cb. state cb \<ge> CONNECT_REQUEST) hs cb = Some (cb1, hs1)"
    by (auto simp: nmsg_connect_client_s_def split: option.splits if_splits)
  then have l1: "live cb1 \<inter> qp_resources = {}" using assms(3) by (rule live_wait)
  obtain r2 cb2 where q: "nmsg_setup_qp_s (s_qp e) cb1 = (r2, cb2)" by fastforce
  obtain r3 cb3 where b: "nmsg_setup_buffers_s (s_buffers e) cb2 = (r3, cb3)" by fastforce
  have "r2 \<noteq> 0 \<Longrightarrow> live cb2 = live cb1" using server_qp.setup_failed [OF q] l1 by simp
  then show ?thesis
    using assms(1,2) c q b l1
    by (auto simp: nmsg_server_setup_def minus server_qp.free_live split: if_splits)
qed

lemma start_gone:
  assumes "nmsg_start_s ntohll u e env hs cb = Ret r cb' hs'" and "live cb \<inter> qp_resources = {}"
  shows "live cb' \<inter> qp_resources = {}"
proof -
  have clean: "live (release RES_CHILD_CM_ID (nmsg_free_qp_s c)) \<inter> qp_resources = {}" for c
    using free_qp_gone [of c] by auto
  show ?thesis
    using assms setup_failed_gone [of ntohll e hs cb] clean
    by (fastforce simp: nmsg_start_s_def Let_def split: outcome.splits if_splits)
qed

text \<open>
  Whenever the server thread has come to its end by itself, with any result, it has
  torn the queue pair down, and \<open>nmsg_stop_server\<close> does it again: queue pair, completion queue and
  protection domain are each destroyed a second time (or without ever having existed).
\<close>

theorem nmsg_stop_after_exit:
  assumes "nmsg_start_s ntohll u e env hs cb = Ret r cb' hs'" and "live cb \<inter> qp_resources = {}"
  shows "live cb' \<inter> qp_resources = {} \<and> qp_resources \<subseteq> bad_release (nmsg_stop_server_s cb')"
proof -
  have gone: "live cb' \<inter> qp_resources = {}" using assms by (rule start_gone)
  then have "live (nmsg_free_buffers_s (release RES_CM_ID cb')) \<inter> qp_resources = {}"
    by (auto simp: nmsg_free_buffers_s_def Let_def)
  with gone show ?thesis
    by (auto simp: nmsg_stop_server_s_def nmsg_free_s_def server_qp.free_bad Let_def)
qed

theorem nmsg_stop_after_exit_witness:
  "\<exists>cb'. nmsg_start_s (\<lambda>x. x) (\<lambda>k b. k) calm_server_env (\<lambda>_. \<lparr>r_map = 1, r_reg = 0, r_read = 0, r_go = 0\<rparr>)
      [Happen (Cm EV_CONNECT_REQUEST 0), Resched, Happen (Cm EV_DISCONNECTED 0), Resched] fresh_server = Ret (-1) cb' []
    \<and> qp_resources \<subseteq> bad_release (nmsg_stop_server_s cb')"
proof -
  let ?run = "nmsg_start_s (\<lambda>x. x) (\<lambda>k b. k) calm_server_env (\<lambda>_. \<lparr>r_map = 1, r_reg = 0, r_read = 0, r_go = 0\<rparr>)
      [Happen (Cm EV_CONNECT_REQUEST 0), Resched, Happen (Cm EV_DISCONNECTED 0), Resched] fresh_server"
  obtain cb' where run: "?run = Ret (-1) cb' []"
    by (simp add: nmsg_start_s_def nmsg_server_setup_def nmsg_connect_client_s_def nmsg_accept_def
        nmsg_setup_qp_s_def nmsg_create_qp_s_def nmsg_setup_buffers_s_def nmsg_setup_wr_s_def
        calm_server_env_def fresh_server_def wait_event_def wake_up_def acquire_def release_def
        state_order Let_def)
  show ?thesis using nmsg_stop_after_exit [OF run] run by (simp add: fresh_server_def)
qed

end
