(* ===== verification/Rdma_Protocol.thy ===== *)
theory Rdma_Protocol
  imports Rdma_Client Rdma_Server
begin

text \<open>
  The two sides of the RDMA channel together: what \<open>nmsg_start\<close> of the client advertises is what
  \<open>nmsg_run_server\<close> fetches, for one message and for any number of them, and what happens when the
  client does not wait for the go-ahead.
\<close>

section \<open>What the client sends\<close>

lemma client_sends:
  assumes "nmsg_start_c htonll uk heap m 0 0 command c = Some (r, c')"
  shows "r = 0 \<and> state c' = RDMA_READ_ADV \<and> mr_rkey c' = uk (mr_rkey c) (key c + 1)
    \<and> posted c' = posted c @ [WR_REG_MR (mr_rkey c') ACCESS_REMOTE_READ, WR_SEND (send_buf c')]
    \<and> buf (send_buf c') = htonll (dma_addr c) \<and> rkey (send_buf c') = bswap32 (mr_rkey c')
    \<and> data_size (send_buf c') = bswap32 (word_of_int (message_size c))"
  using assms
  by (auto simp: nmsg_start_c_def nmsg_start_client_def make_message_c_def nmsg_rdma_rkey_c_def
      post_send_def Let_def split: option.splits if_splits)

text \<open>
  \<open>nmsg_start\<close> of the client copies the command with its NUL into a block that has
  no room for the NUL, whatever the command; the same holds of the address in \<open>nmsg_pre_start\<close> of
  the client and in \<open>nmsg_pre_setup\<close> of the server.
\<close>

theorem strcpy_overflows:
  "(case nmsg_start_c htonll uk heap m rr sr command c of None \<Rightarrow> True | Some (r, c') \<Rightarrow> heap_overflow c')
    \<and> (case nmsg_pre_start_c 1 ce addr hs c of None \<Rightarrow> False | Some (r, c', hs') \<Rightarrow> heap_overflow c')
    \<and> server_overflow (nmsg_pre_setup addr s)"
  by (auto simp: nmsg_start_c_def nmsg_start_client_def make_message_c_def nmsg_rdma_rkey_c_def
      post_send_def strcpy_fits_def nmsg_pre_start_c_def nmsg_pre_setup_def acquire_def release_def Let_def
      split: option.splits if_splits)

section \<open>One message\<close>

text \<open>Completions the server's adapter reports for a message and for the read that fetches it.\<close>

definition recv_done :: "nmsg_data \<Rightarrow> cq_item" where
  "recv_done d = \<lparr>status = WC_SUCCESS, opcode = WC_RECV, byte_len = sizeof_nmsg_data, incoming = d, post_recv_ret = 0\<rparr>"

definition read_done :: "nmsg_data \<Rightarrow> cq_item" where
  "read_done d = \<lparr>status = WC_SUCCESS, opcode = WC_RDMA_READ, byte_len = 0, incoming = d, post_recv_ret = 0\<rparr>"

definition delivery :: "nmsg_data \<Rightarrow> rdma_event happening list" where
  "delivery d = [Happen (Cq [recv_done d] 0), Resched, Happen (Cq [read_done d] 0), Resched]"

definition calm_round :: "round_env \<Rightarrow> server_cb \<Rightarrow> bool" where
  "calm_round e s \<longleftrightarrow> 0 < r_map e \<and> r_map e \<le> page_list_len s \<and> r_reg e = 0 \<and> r_read e = 0 \<and> r_go e = 0"

text \<open>The work requests one message makes the server post.\<close>

definition service :: "u32 \<Rightarrow> u64 \<Rightarrow> u32 \<Rightarrow> u32 \<Rightarrow> work_request list" where
  "service rk addr n lk = [WR_RECV, WR_REG_MR lk ACCESS_REMOTE_LOCAL_WRITE, WR_RDMA_READ rk addr n lk,
     WR_LOCAL_INV lk, WR_SEND_WITH_INV rk]"

lemma run_server_message:
  assumes "state s = CONNECTED" and "calm_round e s"
  obtains s' where "nmsg_run_server ntohll uk e (delivery d @ hs) s = Ret 0 s' hs"
    "state s' = CONNECTED" "page_list_len s' = page_list_len s" "key s' = key s + 1"
    "mr_rkey s' = uk (mr_rkey s) (key s + 1)"
    "posted s' = posted s @ service (bswap32 (rkey d)) (ntohll (buf d)) (bswap32 (data_size d)) (mr_rkey s')"
proof -
  show ?thesis
    using assms that
    by (simp add: nmsg_run_server_def delivery_def recv_done_def read_done_def wait_event_def state_order
        nmsg_cq_event_handler_s_def cq_switch_s_def server_recv_def nmsg_rdma_rkey_s_def calm_round_def
        post_send_def service_def wake_up_def Let_def)
qed

text \<open>
  C24. What the client advertises is what the server fetches: when the advertisement
  that \<open>nmsg_start\<close> posts reaches a connected server, \<open>nmsg_run_server\<close> reads exactly
  \<open>message_size\<close> bytes at the client's DMA address with the key the client has registered, gives the
  go-ahead for that key and is ready for the next message. \<open>ntohll\<close> is assumed to undo \<open>htonll\<close>.
\<close>

theorem rdma_message_delivered:
  assumes "\<And>x. ntohll (htonll x) = x"
    and "nmsg_start_c htonll uk heap m 0 0 command c = Some (r, c')"
    and "state s = CONNECTED" and "calm_round e s"
  shows "r = 0 \<and> (\<exists>s'. nmsg_run_server ntohll uk' e (delivery (send_buf c') @ hs) s = Ret 0 s' hs
    \<and> state s' = CONNECTED
    \<and> posted s' = posted s @ service (mr_rkey c') (dma_addr c) (word_of_int (message_size c)) (mr_rkey s'))"
proof -
  note sent = client_sends [OF assms(2)]
  from assms(3,4) obtain s' where
    "nmsg_run_server ntohll uk' e (delivery (send_buf c') @ hs) s = Ret 0 s' hs" "state s' = CONNECTED"
    "posted s' = posted s @ service (bswap32 (rkey (send_buf c'))) (ntohll (buf (send_buf c')))
       (bswap32 (data_size (send_buf c'))) (mr_rkey s')"
    by (rule run_server_message)
  with sent assms(1) show ?thesis by auto
qed

theorem rdma_message_delivered_witness:
  "\<exists>c' s'. nmsg_start_c (\<lambda>x. x) (\<lambda>k b. k + 1) [] 1 0 0 ''hello'' (fresh_client\<lparr>page_list_len := 1, message_size := 1024, dma_addr := 4096\<rparr>) = Some (0, c')
    \<and> nmsg_run_server (\<lambda>x. x) (\<lambda>k b. k + 7) \<lparr>r_map = 1, r_reg = 0, r_read = 0, r_go = 0\<rparr> (delivery (send_buf c')) (fresh_server\<lparr>state := CONNECTED\<rparr>) = Ret 0 s' []
    \<and> posted s' = service 1 4096 1024 7"
proof -
  let ?c = "fresh_client\<lparr>page_list_len := 1, message_size := 1024, dma_addr := 4096\<rparr>"
  obtain c' where c: "nmsg_start_c (\<lambda>x. x) (\<lambda>k b. k + 1) [] 1 0 0 ''hello'' ?c = Some (0, c')"
    by (simp add: nmsg_start_c_def nmsg_start_client_def make_message_c_def nmsg_rdma_rkey_c_def
      post_send_def fresh_client_def Let_def)
  have s: "state (fresh_server\<lparr>state := CONNECTED\<rparr>) = CONNECTED" by simp
  have e: "calm_round \<lparr>r_map = 1, r_reg = 0, r_read = 0, r_go = 0\<rparr> (fresh_server\<lparr>state := CONNECTED\<rparr>)"
    by (simp add: calm_round_def fresh_server_def)
  obtain s' where s': "nmsg_run_server (\<lambda>x. x) (\<lambda>k b. k + 7) \<lparr>r_map = 1, r_reg = 0, r_read = 0, r_go = 0\<rparr>
      (delivery (send_buf c') @ []) (fresh_server\<lparr>state := CONNECTED\<rparr>) = Ret 0 s' []"
    "posted s' = posted (fresh_server\<lparr>state := CONNECTED\<rparr>) @ service (mr_rkey c') (dma_addr ?c) (word_of_int (message_size ?c)) (mr_rkey s')"
    using rdma_message_delivered [where htonll = "\<lambda>x. x" and ntohll = "\<lambda>x. x" and uk' = "\<lambda>k b. k + 7" and hs = "[]", OF _ c s e] by auto
  have "mr_rkey s' = 7"
    by (rule run_server_message [OF s e, of "\<lambda>x. x" "\<lambda>k b. k + 7" "send_buf c'" "[]"])
      (use s'(1) in \<open>simp add: fresh_server_def\<close>)
  moreover have "mr_rkey c' = 1" using client_sends [OF c] by (simp add: fresh_client_def)
  ultimately show ?thesis using c s' by (auto simp: fresh_client_def fresh_server_def)
qed

section \<open>The service loop\<close>

text \<open>The remote buffers a list of work requests reads, and the keys it gives back.\<close>

fun fetched :: "work_request list \<Rightarrow> (u32 \<times> u64 \<times> u32) list" where
  "fetched [] = []"
| "fetched (WR_RDMA_READ rk addr n lk # ws) = (rk, addr, n) # fetched ws"
| "fetched (w # ws) = fetched ws"

fun go_aheads :: "work_request list \<Rightarrow> u32 list" where
  "go_aheads [] = []"
| "go_aheads (WR_SEND_WITH_INV rk # ws) = rk # go_aheads ws"
| "go_aheads (w # ws) = go_aheads ws"

lemma fetched_append [simp]: "fetched (a @ b) = fetched a @ fetched b"
  by (induction a rule: fetched.induct) simp_all

lemma go_aheads_append [simp]: "go_aheads (a @ b) = go_aheads a @ go_aheads b"
  by (induction a rule: go_aheads.induct) simp_all

lemma service_simps [simp]:
  "fetched (service rk addr n lk) = [(rk, addr, n)]" "go_aheads (service rk addr n lk) = [rk]"
  by (simp_all add: service_def)

definition advert :: "(u64 \<Rightarrow> u64) \<Rightarrow> nmsg_data \<Rightarrow> u32 \<times> u64 \<times> u32" where
  "advert ntohll d = (bswap32 (rkey d), ntohll (buf d), bswap32 (data_size d))"

definition hang_up :: "rdma_event happening list" where
  "hang_up = [Happen (Cm EV_DISCONNECTED 0), Resched]"

text \<open>
  C25. The service loop serves every message, in order and once: on a connection over
  which any number of advertisements arrive one after the other, each is read from the buffer it
  names and answered with the go-ahead for its key; when the client hangs up the loop ends with -1.
\<close>

theorem server_loop_serves:
  assumes "state s = CONNECTED" and "\<And>n. calm_round (env n) s"
  shows "\<exists>s'. server_loop ntohll uk env n (concat (map delivery ds) @ hang_up) s = Ret (-1) s' []
    \<and> fetched (posted s') = fetched (posted s) @ map (advert ntohll) ds
    \<and> go_aheads (posted s') = go_aheads (posted s) @ map (\<lambda>d. bswap32 (rkey d)) ds"
  using assms
proof (induction ds arbitrary: n s)
  case Nil
  then show ?case
    by (subst server_loop.simps)
      (simp add: nmsg_run_server_def hang_up_def wait_event_def state_order)
next
  case (Cons d ds)
  let ?hs = "concat (map delivery ds) @ hang_up"
  from Cons.prems(1) Cons.prems(2) [of n] obtain s1 where
    run: "nmsg_run_server ntohll uk (env n) (delivery d @ ?hs) s = Ret 0 s1 ?hs"
    and s1: "state s1 = CONNECTED" "page_list_len s1 = page_list_len s"
    and p1: "posted s1 = posted s @ service (bswap32 (rkey d)) (ntohll (buf d)) (bswap32 (data_size d)) (mr_rkey s1)"
    by (rule run_server_message)
  have step: "server_loop ntohll uk env n (concat (map delivery (d # ds)) @ hang_up) s
      = server_loop ntohll uk env (n + 1) ?hs s1"
    by (subst server_loop.simps) (simp add: run)
  have "calm_round (env m) s1" for m
    using Cons.prems(2) [of m] s1(2) by (simp add: calm_round_def)
  from Cons.IH [OF s1(1) this, of "n + 1"] show ?case
    unfolding step by (auto simp: p1 advert_def)
qed

theorem server_loop_serves_witness:
  "\<exists>s'. server_loop (\<lambda>x. x) (\<lambda>k b. k) (\<lambda>_. \<lparr>r_map = 1, r_reg = 0, r_read = 0, r_go = 0\<rparr>) 0
      (delivery (send_buf fresh_client) @ delivery (send_buf fresh_client) @ hang_up) (fresh_server\<lparr>state := CONNECTED\<rparr>) = Ret (-1) s' []
    \<and> fetched (posted s') = [(0, 0, 0), (0, 0, 0)]"
proof -
  have s: "state (fresh_server\<lparr>state := CONNECTED\<rparr>) = CONNECTED" by simp
  have e: "calm_round \<lparr>r_map = 1, r_reg = 0, r_read = 0, r_go = 0\<rparr> (fresh_server\<lparr>state := CONNECTED\<rparr>)"
    by (simp add: calm_round_def fresh_server_def)
  show ?thesis
    using server_loop_serves [OF s e, of "\<lambda>x. x" "\<lambda>k b. k" 0 "[send_buf fresh_client, send_buf fresh_client]"]
    by (auto simp: advert_def fresh_client_def fresh_server_def bswap32_def)
qed

text \<open>
  The client never waits for the go-ahead, and the server has no queue: when a
  second advertisement arrives before the thread has run, the state has moved past
  \<open>RDMA_READ_ADV\<close>, neither message is read and the service loop ends.
\<close>

theorem server_overrun:
  assumes "state s = CONNECTED"
  shows "\<exists>s'. server_loop ntohll uk env n (Happen (Cq [recv_done d, recv_done d'] 0) # Resched # hs) s = Ret (-1) s' hs
    \<and> fetched (posted s') = fetched (posted s) \<and> state s' = RDMA_WRITE_ADV"
  using assms
  by (subst server_loop.simps)
    (simp add: nmsg_run_server_def wait_event_def state_order recv_done_def nmsg_cq_event_handler_s_def
      cq_switch_s_def server_recv_def wake_up_def Let_def)

theorem server_overrun_witness:
  "\<exists>s'. server_loop (\<lambda>x. x) (\<lambda>k b. k) (\<lambda>_. \<lparr>r_map = 1, r_reg = 0, r_read = 0, r_go = 0\<rparr>) 0
      [Happen (Cq [recv_done (send_buf fresh_client), recv_done (send_buf fresh_client)] 0), Resched]
      (fresh_server\<lparr>state := CONNECTED\<rparr>) = Ret (-1) s' []"
  using server_overrun [of "fresh_server\<lparr>state := CONNECTED\<rparr>" "\<lambda>x. x" "\<lambda>k b. k"
      "\<lambda>_. \<lparr>r_map = 1, r_reg = 0, r_read = 0, r_go = 0\<rparr>" 0 "send_buf fresh_client"
      "send_buf fresh_client" "[]"] by auto

end
