(* ===== verification/Devmem.thy ===== *)
theory Devmem
  imports Prelude
begin

text \<open>
  Device memory of \<open>hmm.c\<close>: the \<open>dmirror_device\<close> with its array of chunks and its list of free pages,
  threaded through \<open>page->zone_device_data\<close>; \<open>dmirror_allocate_chunk\<close>, \<open>dmirror_devmem_alloc_page\<close>,
  \<open>dmirror_devmem_free\<close>, \<open>dmirror_remove_free_pages\<close>, \<open>dmirror_device_evict_chunk\<close> and
  \<open>dmirror_device_remove_chunks\<close>. A page is its frame number, a chunk and a device are numbers; what the
  kernel's allocators return is an argument. The result \<open>None\<close> is an invalid memory access.
\<close>

section \<open>Pages, chunks and devices\<close>

type_synonym page = nat

text \<open>The untyped pointers kept in \<open>zone_device_data\<close>: a page, or the \<open>struct dmirror\<close> with a number.\<close>

datatype ptr = NULL | PageP page | MirrorP nat

datatype memory_type = MEMORY_DEVICE_PRIVATE | MEMORY_DEVICE_COHERENT

record chunk =
  range_start :: u64
  range_end :: u64
  pagemap_type :: memory_type
  chunk_dev :: nat
  remove :: bool

record device =
  zone_device_type :: u32
  devmem_capacity :: u32
  devmem_count :: u32
  devmem_chunks :: "nat list option"
  calloc :: u64
  cfree :: u64
  free_pages :: ptr

text \<open>
  The part of the kernel's memory the driver works on: the devices, the chunks allocated, the fields
  \<open>zone_device_data\<close> and \<open>pgmap\<close> of every page, the contents of pages, the system pages taken from
  \<open>alloc_page\<close> and the physical regions reserved.
\<close>

record kernel =
  devs :: "nat \<Rightarrow> device"
  chunks :: "nat \<rightharpoonup> chunk"
  zone_device_data :: "page \<Rightarrow> ptr"
  pgmap :: "page \<rightharpoonup> nat"
  page_data :: "page \<Rightarrow> u8 list"
  sys_pages :: "page set"
  regions :: "(u64 \<times> u64) set"

definition HMM_DMIRROR_MEMORY_DEVICE_PRIVATE :: u32 where "HMM_DMIRROR_MEMORY_DEVICE_PRIVATE = 1"

definition HMM_DMIRROR_MEMORY_DEVICE_COHERENT :: u32 where "HMM_DMIRROR_MEMORY_DEVICE_COHERENT = 2"

abbreviation DEVMEM_CHUNK_SIZE :: u64 where "DEVMEM_CHUNK_SIZE \<equiv> 268435456"

abbreviation DEVMEM_CHUNKS_RESERVE :: u32 where "DEVMEM_CHUNKS_RESERVE \<equiv> 16"

definition set_dev :: "nat \<Rightarrow> (device \<Rightarrow> device) \<Rightarrow> 's kernel_scheme \<Rightarrow> 's kernel_scheme" where
  "set_dev d f k = k\<lparr>devs := (devs k)(d := f (devs k d))\<rparr>"

lemma set_dev_simps [simp]:
  "devs (set_dev d f k) d' = (if d' = d then f (devs k d) else devs k d')"
  "chunks (set_dev d f k) = chunks k" "zone_device_data (set_dev d f k) = zone_device_data k"
  "pgmap (set_dev d f k) = pgmap k" "page_data (set_dev d f k) = page_data k"
  "sys_pages (set_dev d f k) = sys_pages k" "regions (set_dev d f k) = regions k"
  by (simp_all add: set_dev_def)

definition dmirror_is_private_zone :: "device \<Rightarrow> bool" where
  "dmirror_is_private_zone dv = (if zone_device_type dv = HMM_DMIRROR_MEMORY_DEVICE_PRIVATE then True else False)"

datatype migrate_direction = SELECT_SYSTEM | SELECT_DEVICE_PRIVATE | SELECT_DEVICE_COHERENT

definition dmirror_select_device :: "device \<Rightarrow> migrate_direction" where
  "dmirror_select_device dv =
    (if zone_device_type dv = HMM_DMIRROR_MEMORY_DEVICE_PRIVATE then SELECT_DEVICE_PRIVATE else SELECT_DEVICE_COHERENT)"

definition dmirror_page_to_chunk :: "'s kernel_scheme \<Rightarrow> page \<Rightarrow> (nat \<times> chunk) option" where
  "dmirror_page_to_chunk k p =
    (case pgmap k p of None \<Rightarrow> None | Some c \<Rightarrow> (case chunks k c of None \<Rightarrow> None | Some ch \<Rightarrow> Some (c, ch)))"

definition dmirror_page_to_device :: "'s kernel_scheme \<Rightarrow> page \<Rightarrow> nat option" where
  "dmirror_page_to_device k p = map_option (chunk_dev \<circ> snd) (dmirror_page_to_chunk k p)"

definition is_device_page :: "memory_type \<Rightarrow> 's kernel_scheme \<Rightarrow> page \<Rightarrow> bool" where
  "is_device_page t k p = (case dmirror_page_to_chunk k p of None \<Rightarrow> False | Some (c, ch) \<Rightarrow> pagemap_type ch = t)"

definition BACKING_PAGE :: "'s kernel_scheme \<Rightarrow> page \<Rightarrow> ptr" where
  "BACKING_PAGE k p = (if is_device_page MEMORY_DEVICE_PRIVATE k p then zone_device_data k p else PageP p)"

section \<open>The list of free pages\<close>

text \<open>\<open>page->zone_device_data = mdevice->free_pages; mdevice->free_pages = page;\<close>\<close>

definition push_free :: "nat \<Rightarrow> page \<Rightarrow> 's kernel_scheme \<Rightarrow> 's kernel_scheme" where
  "push_free d p k = set_dev d (\<lambda>dv. dv\<lparr>free_pages := PageP p\<rparr>)
     (k\<lparr>zone_device_data := (zone_device_data k)(p := free_pages (devs k d))\<rparr>)"

text \<open>\<open>page = mdevice->free_pages; mdevice->free_pages = page->zone_device_data; mdevice->calloc++;\<close>\<close>

definition pop_free :: "nat \<Rightarrow> 's kernel_scheme \<Rightarrow> (page \<times> 's kernel_scheme) option" where
  "pop_free d k = (case free_pages (devs k d) of
     PageP p \<Rightarrow> Some (p, set_dev d (\<lambda>dv. dv\<lparr>free_pages := zone_device_data k p, calloc := calloc dv + 1\<rparr>) k)
   | _ \<Rightarrow> None)"

fun push_pages :: "nat \<Rightarrow> page list \<Rightarrow> 's kernel_scheme \<Rightarrow> 's kernel_scheme" where
  "push_pages d [] k = k"
| "push_pages d (p # ps) k = push_pages d ps (push_free d p k)"

section \<open>Allocation\<close>

datatype remap_result = Remapped | Remap_null | Remap_err int

text \<open>
  What the kernel answers while a chunk is allocated: the chunk \<open>kzalloc\<close> returns, the region
  \<open>request_free_mem_region\<close> finds, whether \<open>krealloc\<close> succeeds, and the result of \<open>memremap_pages\<close>.
\<close>

record chunk_env =
  e_kzalloc :: "nat option"
  e_region :: "(u64 \<times> u64) option"
  e_krealloc :: bool
  e_memremap :: remap_result

definition range_len :: "chunk \<Rightarrow> u64" where
  "range_len ch = range_end ch - range_start ch + 1"

definition pfn_first :: "chunk \<Rightarrow> nat" where
  "pfn_first ch = unat (drop_bit PAGE_SHIFT (range_start ch))"

definition pfn_last :: "chunk \<Rightarrow> nat" where
  "pfn_last ch = unat (drop_bit PAGE_SHIFT (range_start ch) + drop_bit PAGE_SHIFT (range_len ch))"

text \<open>The growth of the chunk array; \<open>None\<close> if \<open>krealloc\<close> fails.\<close>

definition grow_chunks :: "bool \<Rightarrow> device \<Rightarrow> device option" where
  "grow_chunks ok dv =
    (if devmem_count dv = devmem_capacity dv
     then if \<not> ok then None
          else let new_capacity = devmem_capacity dv + DEVMEM_CHUNKS_RESERVE;
                   cs = (case devmem_chunks dv of None \<Rightarrow> [] | Some cs \<Rightarrow> cs);
                   new_chunks = take (unat new_capacity) cs @ replicate (unat new_capacity - length cs) 0
               in Some (dv\<lparr>devmem_capacity := new_capacity, devmem_chunks := Some new_chunks\<rparr>)
     else Some dv)"

text \<open>\<open>mdevice->devmem_chunks[mdevice->devmem_count++] = devmem;\<close>\<close>

definition add_chunk :: "nat \<Rightarrow> device \<Rightarrow> device option" where
  "add_chunk c dv =
    (case devmem_chunks dv of
       None \<Rightarrow> None
     | Some cs \<Rightarrow> if unat (devmem_count dv) < length cs
         then Some (dv\<lparr>devmem_chunks := Some (cs[unat (devmem_count dv) := c]), devmem_count := devmem_count dv + 1\<rparr>)
         else None)"

text \<open>\<open>memremap_pages\<close> makes the pages of the region belong to the chunk.\<close>

definition publish_chunk :: "nat \<Rightarrow> chunk \<Rightarrow> 's kernel_scheme \<Rightarrow> 's kernel_scheme" where
  "publish_chunk c ch k = k\<lparr>chunks := (chunks k)(c \<mapsto> ch),
     pgmap := (\<lambda>p. if pfn_first ch \<le> p \<and> p < pfn_last ch then Some c else pgmap k p)\<rparr>"

definition dmirror_allocate_chunk ::
  "chunk_env \<Rightarrow> nat \<Rightarrow> bool \<Rightarrow> 's kernel_scheme \<Rightarrow> (int \<times> page option \<times> 's kernel_scheme) option"
where
  "dmirror_allocate_chunk e d ppage k =
    (case e_kzalloc e of
       None \<Rightarrow> Some (- ENOMEM, None, k)
     | Some c \<Rightarrow>
     case e_region e of
       None \<Rightarrow> Some (- ENOMEM, None, k)
     | Some (s, t) \<Rightarrow>
     let ch = \<lparr>range_start = s, range_end = t, pagemap_type = MEMORY_DEVICE_PRIVATE, chunk_dev = d, remove = False\<rparr>;
         k' = k\<lparr>regions := insert (s, t) (regions k)\<rparr>;
         err_release = (\<lambda>k. k\<lparr>regions := regions k - {(s, t)}\<rparr>)
     in case grow_chunks (e_krealloc e) (devs k' d) of
       None \<Rightarrow> Some (- ENOMEM, None, err_release k')
     | Some dv \<Rightarrow>
     let k' = set_dev d (\<lambda>_. dv) k'
     in case e_memremap e of
       Remap_err r \<Rightarrow> Some (r, None, err_release k')
     | Remap_null \<Rightarrow> Some (- EFAULT, None, err_release k')
     | Remapped \<Rightarrow>
     case add_chunk c dv of
       None \<Rightarrow> None
     | Some dv \<Rightarrow>
     let k' = publish_chunk c ch (set_dev d (\<lambda>_. dv) k');
         k' = push_pages d [pfn_first ch ..< pfn_last ch] k'
     in if ppage
        then (case pop_free d k' of None \<Rightarrow> None | Some (p, k') \<Rightarrow> Some (0, Some p, k'))
        else Some (0, None, k'))"

record page_env =
  e_alloc_page :: "page option"
  e_chunk :: chunk_env

text \<open>\<open>zone_device_page_init\<close> sets the reference count and locks the page; neither is in the state.\<close>

definition dmirror_devmem_alloc_page :: "page_env \<Rightarrow> nat \<Rightarrow> 's kernel_scheme \<Rightarrow> (page option \<times> 's kernel_scheme) option" where
  "dmirror_devmem_alloc_page e d k =
    (if dmirror_is_private_zone (devs k d) \<and> e_alloc_page e = None then Some (None, k)
     else let rpage = (if dmirror_is_private_zone (devs k d) then e_alloc_page e else None);
              k1 = (case rpage of None \<Rightarrow> k | Some r \<Rightarrow> k\<lparr>sys_pages := insert r (sys_pages k)\<rparr>)
     in case (if free_pages (devs k1 d) \<noteq> NULL
              then (case pop_free d k1 of None \<Rightarrow> None | Some (p, k2) \<Rightarrow> Some (Some p, k2))
              else (case dmirror_allocate_chunk (e_chunk e) d True k1 of
                      None \<Rightarrow> None
                    | Some (ret, p, k2) \<Rightarrow> Some (if ret \<noteq> 0 then None else p, k2))) of
       None \<Rightarrow> None
     | Some (None, k2) \<Rightarrow>
         Some (None, case rpage of None \<Rightarrow> k2 | Some r \<Rightarrow> k2\<lparr>sys_pages := sys_pages k2 - {r}\<rparr>)
     | Some (Some p, k2) \<Rightarrow>
         Some (Some p, k2\<lparr>zone_device_data := (zone_device_data k2)(p :=
           (case rpage of None \<Rightarrow> NULL | Some r \<Rightarrow> PageP r))\<rparr>))"

section \<open>Release\<close>

definition dmirror_devmem_free :: "page \<Rightarrow> 's kernel_scheme \<Rightarrow> 's kernel_scheme option" where
  "dmirror_devmem_free p k =
    (let rpage = BACKING_PAGE k p
     in case (if rpage \<noteq> PageP p
              then (case rpage of PageP r \<Rightarrow> Some (k\<lparr>sys_pages := sys_pages k - {r}\<rparr>) | _ \<Rightarrow> None)
              else Some k) of
       None \<Rightarrow> None
     | Some k \<Rightarrow>
     case dmirror_page_to_chunk k p of
       None \<Rightarrow> None
     | Some (c, ch) \<Rightarrow>
         if \<not> remove ch
         then Some (push_free (chunk_dev ch) p (set_dev (chunk_dev ch) (\<lambda>dv. dv\<lparr>cfree := cfree dv + 1\<rparr>) k))
         else Some k)"

text \<open>The loop of \<open>dmirror_remove_free_pages\<close> over the list that starts at the given pointer.\<close>

partial_function (option) remove_walk :: "nat \<Rightarrow> nat \<Rightarrow> ptr \<Rightarrow> 's kernel_scheme \<Rightarrow> 's kernel_scheme option" where
  "remove_walk d c q k =
    (case q of
       NULL \<Rightarrow> Some k
     | MirrorP _ \<Rightarrow> None
     | PageP p \<Rightarrow>
         (case pgmap k p of
            None \<Rightarrow> None
          | Some c' \<Rightarrow>
              let k' = (if c' = c then set_dev d (\<lambda>dv. dv\<lparr>free_pages := zone_device_data k p\<rparr>) k else k)
              in remove_walk d c (zone_device_data k' p) k'))"

definition dmirror_remove_free_pages :: "nat \<Rightarrow> 's kernel_scheme \<Rightarrow> 's kernel_scheme option" where
  "dmirror_remove_free_pages c k =
    (case chunks k c of
       None \<Rightarrow> None
     | Some ch \<Rightarrow> remove_walk (chunk_dev ch) c (free_pages (devs k (chunk_dev ch))) k)"

section \<open>Migrating a chunk back\<close>

text \<open>
  An entry of the arrays \<open>src\<close> and \<open>dst\<close> of a migration. \<open>migrate_pfn_to_page\<close> is \<open>NULL\<close> without
  \<open>MIGRATE_PFN_VALID\<close>; \<open>migrate_pfn\<close> sets that flag and no other.
\<close>

record mpfn =
  mp_valid :: bool
  mp_migrate :: bool
  mp_write :: bool
  mp_page :: page

definition migrate_pfn_to_page :: "mpfn \<Rightarrow> page option" where
  "migrate_pfn_to_page m = (if mp_valid m then Some (mp_page m) else None)"

definition migrate_pfn :: "page \<Rightarrow> mpfn" where
  "migrate_pfn p = \<lparr>mp_valid = True, mp_migrate = False, mp_write = False, mp_page = p\<rparr>"

definition no_pfn :: mpfn where
  "no_pfn = \<lparr>mp_valid = False, mp_migrate = False, mp_write = False, mp_page = 0\<rparr>"

definition copy_highpage :: "page \<Rightarrow> page \<Rightarrow> 's kernel_scheme \<Rightarrow> 's kernel_scheme" where
  "copy_highpage to from k = k\<lparr>page_data := (page_data k)(to := page_data k from)\<rparr>"

text \<open>
  The loop of \<open>dmirror_device_evict_chunk\<close>: \<open>srcs\<close> is what \<open>migrate_device_range\<close> has filled in, \<open>news\<close> the
  pages \<open>alloc_page\<close> returns, one for each entry (unused when the entry is skipped). The result has the
  array \<open>dst_pfns\<close>.
\<close>

fun evict_pages :: "mpfn list \<Rightarrow> page list \<Rightarrow> 's kernel_scheme \<Rightarrow> (mpfn list \<times> 's kernel_scheme) option" where
  "evict_pages (m # ms) (dpage # news) k =
    (case (if \<not> mp_migrate m then None else migrate_pfn_to_page m) of
       None \<Rightarrow> map_option (\<lambda>(ds, k). (no_pfn # ds, k)) (evict_pages ms news k)
     | Some spage \<Rightarrow>
         if \<not> is_device_page MEMORY_DEVICE_PRIVATE k spage \<and> \<not> is_device_page MEMORY_DEVICE_COHERENT k spage
         then map_option (\<lambda>(ds, k). (no_pfn # ds, k)) (evict_pages ms news k)
         else (case BACKING_PAGE k spage of
             PageP r \<Rightarrow>
               let k = copy_highpage dpage r (k\<lparr>sys_pages := insert dpage (sys_pages k)\<rparr>);
                   d = (migrate_pfn dpage)\<lparr>mp_write := mp_write m\<rparr>
               in map_option (\<lambda>(ds, k). (d # ds, k)) (evict_pages ms news k)
           | _ \<Rightarrow> None))"
| "evict_pages _ _ k = Some ([], k)"

text \<open>
  What the kernel does for one eviction: the source entries, the pages it allocates for the copies, and
  the device pages whose last reference \<open>migrate_device_finalize\<close> drops, for each of which it calls
  \<open>dmirror_devmem_free\<close>.
\<close>

record evict_env =
  ev_src :: "mpfn list"
  ev_new :: "page list"
  ev_freed :: "page list"

fun free_all :: "page list \<Rightarrow> 's kernel_scheme \<Rightarrow> 's kernel_scheme option" where
  "free_all [] k = Some k"
| "free_all (p # ps) k = (case dmirror_devmem_free p k of None \<Rightarrow> None | Some k \<Rightarrow> free_all ps k)"

definition evict_npages :: "chunk \<Rightarrow> u64" where
  "evict_npages ch = drop_bit PAGE_SHIFT (range_end ch) - drop_bit PAGE_SHIFT (range_start ch) + 1"

definition dmirror_device_evict_chunk :: "evict_env \<Rightarrow> chunk \<Rightarrow> 's kernel_scheme \<Rightarrow> 's kernel_scheme option" where
  "dmirror_device_evict_chunk e ch k =
    (case evict_pages (take (unat (evict_npages ch)) (ev_src e)) (ev_new e) k of
       None \<Rightarrow> None
     | Some (ds, k) \<Rightarrow> free_all (ev_freed e) k)"

fun remove_each :: "nat \<Rightarrow> (nat \<Rightarrow> evict_env) \<Rightarrow> nat list \<Rightarrow> 's kernel_scheme \<Rightarrow> 's kernel_scheme option" where
  "remove_each d env [] k = Some k"
| "remove_each d env (c # cs) k =
    (case chunks k c of
       None \<Rightarrow> None
     | Some ch \<Rightarrow>
     let k = k\<lparr>chunks := (chunks k)(c \<mapsto> ch\<lparr>remove := True\<rparr>)\<rparr>
     in case dmirror_remove_free_pages c k of
       None \<Rightarrow> None
     | Some k \<Rightarrow>
     case dmirror_device_evict_chunk (env c) ch k of
       None \<Rightarrow> None
     | Some k \<Rightarrow>
     let k = k\<lparr>pgmap := (\<lambda>p. if pfn_first ch \<le> p \<and> p < pfn_last ch then None else pgmap k p)\<rparr>;
         k = (if pagemap_type ch = MEMORY_DEVICE_PRIVATE
              then k\<lparr>regions := regions k - {(range_start ch, range_end ch)}\<rparr> else k);
         k = k\<lparr>chunks := (chunks k)(c := None)\<rparr>
     in remove_each d env cs k)"

definition dmirror_device_remove_chunks :: "(nat \<Rightarrow> evict_env) \<Rightarrow> nat \<Rightarrow> 's kernel_scheme \<Rightarrow> 's kernel_scheme option" where
  "dmirror_device_remove_chunks env d k =
    (case devmem_chunks (devs k d) of
       None \<Rightarrow> Some k
     | Some cs \<Rightarrow>
     case remove_each d env (take (unat (devmem_count (devs k d))) cs) k of
       None \<Rightarrow> None
     | Some k \<Rightarrow> Some (set_dev d (\<lambda>dv. dv\<lparr>devmem_count := 0, devmem_capacity := 0, free_pages := NULL,
           devmem_chunks := None\<rparr>) k))"

section \<open>The free list as a list\<close>

text \<open>The abstract content of the free list: \<open>chain f q ps\<close> says that following \<open>f\<close> from \<open>q\<close> runs through \<open>ps\<close>.\<close>

fun chain :: "(page \<Rightarrow> ptr) \<Rightarrow> ptr \<Rightarrow> page list \<Rightarrow> bool" where
  "chain f q [] = (q = NULL)"
| "chain f q (p # ps) = (q = PageP p \<and> chain f (f p) ps)"

lemma chain_update [simp]: "p \<notin> set ps \<Longrightarrow> chain (f(p := x)) q ps = chain f q ps"
  by (induction ps arbitrary: q) auto

definition owned :: "nat \<Rightarrow> 's kernel_scheme \<Rightarrow> page \<Rightarrow> bool" where
  "owned d k p = (case dmirror_page_to_chunk k p of None \<Rightarrow> False
     | Some (c, ch) \<Rightarrow> chunk_dev ch = d \<and> pagemap_type ch = MEMORY_DEVICE_PRIVATE \<and> \<not> remove ch)"

definition free_list :: "nat \<Rightarrow> 's kernel_scheme \<Rightarrow> page list \<Rightarrow> bool" where
  "free_list d k ps \<longleftrightarrow> chain (zone_device_data k) (free_pages (devs k d)) ps \<and> distinct ps \<and> list_all (owned d k) ps"

definition array_ok :: "device \<Rightarrow> bool" where
  "array_ok dv = (case devmem_chunks dv of None \<Rightarrow> devmem_capacity dv = 0 \<and> devmem_count dv = 0
     | Some cs \<Rightarrow> length cs = unat (devmem_capacity dv) \<and> devmem_count dv \<le> devmem_capacity dv)"

definition device_ok :: "nat \<Rightarrow> 's kernel_scheme \<Rightarrow> page list \<Rightarrow> bool" where
  "device_ok d k ps \<longleftrightarrow> free_list d k ps \<and> array_ok (devs k d) \<and> dmirror_is_private_zone (devs k d)"

text \<open>A page handed out: its \<open>zone_device_data\<close> points to its backing page.\<close>

definition lent :: "nat \<Rightarrow> 's kernel_scheme \<Rightarrow> page \<Rightarrow> bool" where
  "lent d k p \<longleftrightarrow> owned d k p \<and> (case zone_device_data k p of PageP _ \<Rightarrow> True | _ \<Rightarrow> False)"

lemma push_free_simps [simp]:
  "chunks (push_free d p k) = chunks k" "pgmap (push_free d p k) = pgmap k"
  "zone_device_data (push_free d p k) = (zone_device_data k)(p := free_pages (devs k d))"
  "devs (push_free d p k) d' = (if d' = d then (devs k d)\<lparr>free_pages := PageP p\<rparr> else devs k d')"
  "page_data (push_free d p k) = page_data k" "sys_pages (push_free d p k) = sys_pages k"
  "regions (push_free d p k) = regions k"
  by (simp_all add: push_free_def)

lemma owned_cong: "chunks k' = chunks k \<Longrightarrow> pgmap k' = pgmap k \<Longrightarrow> owned d k' = owned d k"
  by (rule ext) (simp add: owned_def dmirror_page_to_chunk_def split: option.split)

lemma owned_push [simp]: "owned d (push_free d' p k) = owned d k"
  by (rule owned_cong) simp_all

lemma push_pages_simps [simp]:
  "chunks (push_pages d ps k) = chunks k" "pgmap (push_pages d ps k) = pgmap k"
  "sys_pages (push_pages d ps k) = sys_pages k" "regions (push_pages d ps k) = regions k"
  "page_data (push_pages d ps k) = page_data k"
  "d' \<noteq> d \<Longrightarrow> devs (push_pages d ps k) d' = devs k d'"
  by (induction ps arbitrary: k) simp_all

lemma push_pages_zone: "p \<notin> set ps \<Longrightarrow> zone_device_data (push_pages d ps k) p = zone_device_data k p"
  by (induction ps arbitrary: k) simp_all

lemma push_pages_ids [simp]: "devmem_chunks (devs (push_pages d ps k) d) = devmem_chunks (devs k d)"
  by (induction ps arbitrary: k) simp_all

lemma array_ok_free_pages [simp]:
  "array_ok (dv\<lparr>free_pages := q\<rparr>) = array_ok dv" "array_ok (dv\<lparr>calloc := n\<rparr>) = array_ok dv"
  "array_ok (dv\<lparr>cfree := n\<rparr>) = array_ok dv"
  by (simp_all add: array_ok_def split: option.split)

lemma private_free_pages [simp]:
  "dmirror_is_private_zone (dv\<lparr>free_pages := q\<rparr>) = dmirror_is_private_zone dv"
  "dmirror_is_private_zone (dv\<lparr>calloc := n\<rparr>) = dmirror_is_private_zone dv"
  "dmirror_is_private_zone (dv\<lparr>cfree := n\<rparr>) = dmirror_is_private_zone dv"
  by (simp_all add: dmirror_is_private_zone_def)

lemma push_pages_dev [simp]:
  "array_ok (devs (push_pages d ps k) d) = array_ok (devs k d)"
  "dmirror_is_private_zone (devs (push_pages d ps k) d) = dmirror_is_private_zone (devs k d)"
  "devmem_count (devs (push_pages d ps k) d) = devmem_count (devs k d)"
  "calloc (devs (push_pages d ps k) d) = calloc (devs k d)"
  "cfree (devs (push_pages d ps k) d) = cfree (devs k d)"
  by (induction ps arbitrary: k) simp_all

lemma push_free_list:
  "free_list d k ps \<Longrightarrow> p \<notin> set ps \<Longrightarrow> owned d k p \<Longrightarrow> free_list d (push_free d p k) (p # ps)"
  by (simp add: free_list_def)

lemma push_pages_free_list:
  "free_list d k ps \<Longrightarrow> distinct qs \<Longrightarrow> set qs \<inter> set ps = {} \<Longrightarrow> list_all (owned d k) qs
    \<Longrightarrow> free_list d (push_pages d qs k) (rev qs @ ps)"
proof (induction qs arbitrary: k ps)
  case (Cons q qs)
  then have "free_list d (push_free d q k) (q # ps)" by (simp add: push_free_list)
  from Cons.IH [OF this] Cons.prems show ?case by simp
qed simp

lemma pop_free_list:
  assumes "free_list d k (p # ps)"
  shows "pop_free d k = Some (p, set_dev d (\<lambda>dv. dv\<lparr>free_pages := zone_device_data k p, calloc := calloc dv + 1\<rparr>) k)"
    "free_list d (set_dev d (\<lambda>dv. dv\<lparr>free_pages := zone_device_data k p, calloc := calloc dv + 1\<rparr>) k) ps"
proof -
  have "owned d (set_dev d f k) = owned d k" for f by (rule owned_cong) simp_all
  then show "pop_free d k = Some (p, set_dev d (\<lambda>dv. dv\<lparr>free_pages := zone_device_data k p, calloc := calloc dv + 1\<rparr>) k)"
    "free_list d (set_dev d (\<lambda>dv. dv\<lparr>free_pages := zone_device_data k p, calloc := calloc dv + 1\<rparr>) k) ps"
    using assms by (simp_all add: free_list_def pop_free_def)
qed

section \<open>Allocating a chunk\<close>

text \<open>A region as \<open>request_free_mem_region\<close> returns it: of the size asked for, in pages no one uses.\<close>

definition fresh_chunk :: "nat \<Rightarrow> chunk_env \<Rightarrow> 's kernel_scheme \<Rightarrow> bool" where
  "fresh_chunk d e k = (case (e_kzalloc e, e_region e) of
     (Some c, Some (s, t)) \<Rightarrow> t - s + 1 = DEVMEM_CHUNK_SIZE \<and> chunks k c = None \<and> (s, t) \<notin> regions k
       \<and> list_all (\<lambda>p. pgmap k p = None) [unat (drop_bit PAGE_SHIFT s) ..< unat (drop_bit PAGE_SHIFT s) + 65536]
       \<and> unat (devmem_capacity (devs k d)) + 16 < 2 ^ 32 \<and> e_krealloc e \<and> e_memremap e = Remapped
   | _ \<Rightarrow> False)"

definition chunk_pages :: "chunk_env \<Rightarrow> page list" where
  "chunk_pages e = (case e_region e of None \<Rightarrow> []
     | Some (s, t) \<Rightarrow> [unat (drop_bit PAGE_SHIFT s) ..< unat (drop_bit PAGE_SHIFT s) + 65536])"

lemma pfn_last_eq:
  assumes "range_len ch = DEVMEM_CHUNK_SIZE"
  shows "pfn_last ch = pfn_first ch + 65536"
proof -
  have d: "drop_bit PAGE_SHIFT DEVMEM_CHUNK_SIZE = (65536 :: u64)"
    by (simp add: drop_bit_eq_div)
  have "unat (range_start ch) < 2 ^ 64" by (rule order_less_le_trans [OF unsigned_less]) simp
  then have "unat (drop_bit PAGE_SHIFT (range_start ch)) < 2 ^ 52"
    by (simp add: unat_shift_page less_mult_imp_div_less)
  then have "unat (drop_bit PAGE_SHIFT (range_start ch) + 65536) = unat (drop_bit PAGE_SHIFT (range_start ch)) + 65536"
    by (simp add: unat_word_ariths)
  then show ?thesis unfolding pfn_last_def pfn_first_def assms d .
qed

text \<open>The part of the chunk array in use.\<close>

definition chunk_ids :: "device \<Rightarrow> nat list" where
  "chunk_ids dv = (case devmem_chunks dv of None \<Rightarrow> [] | Some cs \<Rightarrow> take (unat (devmem_count dv)) cs)"

lemma push_pages_chunk_ids [simp]: "chunk_ids (devs (push_pages d ps k) d) = chunk_ids (devs k d)"
  by (simp add: chunk_ids_def split: option.split)

lemma grow_ok:
  assumes "array_ok dv" and "unat (devmem_capacity dv) + 16 < 2 ^ 32"
  obtains dv1 dv2 where "grow_chunks True dv = Some dv1" "add_chunk c dv1 = Some dv2" "array_ok dv2"
    "devmem_count dv2 = devmem_count dv + 1" "free_pages dv1 = free_pages dv" "free_pages dv2 = free_pages dv"
    "zone_device_type dv2 = zone_device_type dv" "calloc dv2 = calloc dv" "cfree dv2 = cfree dv"
proof -
  have cap: "unat (devmem_capacity dv + 16) = unat (devmem_capacity dv) + 16"
    using assms(2) by (simp add: unat_word_ariths)
  have succ: "n < m \<Longrightarrow> n + 1 \<le> m" for n m :: u32 by (rule inc_le)
  show ?thesis
  proof (cases "devmem_count dv = devmem_capacity dv")
    case True
    have lt: "devmem_capacity dv < devmem_capacity dv + 16"
      using cap by (simp add: word_less_nat_alt)
    show ?thesis
      using assms(1) True cap succ [OF lt] that
      by (simp add: grow_chunks_def add_chunk_def array_ok_def Let_def split: option.splits)
  next
    case False
    then have "\<exists>cs. devmem_chunks dv = Some cs" "devmem_count dv < devmem_capacity dv"
      using assms(1) by (auto simp: array_ok_def split: option.splits)
    with False assms(1) succ that show ?thesis
      by (auto simp: grow_chunks_def add_chunk_def array_ok_def word_less_nat_alt)
  qed
qed

definition in_chunk :: "chunk \<Rightarrow> page \<Rightarrow> bool" where
  "in_chunk ch p \<longleftrightarrow> pfn_first ch \<le> p \<and> p < pfn_last ch"

text \<open>The pages of a chunk's region belong to it.\<close>

definition ranges_ok :: "'s kernel_scheme \<Rightarrow> bool" where
  "ranges_ok k \<longleftrightarrow> (\<forall>c ch p. chunks k c = Some ch \<longrightarrow> in_chunk ch p \<longrightarrow> pgmap k p = Some c)"

lemma grow_chunk_ids:
  assumes "array_ok dv" and "unat (devmem_capacity dv) + 16 < 2 ^ 32" and "grow_chunks True dv = Some dv1"
  shows "chunk_ids dv1 = chunk_ids dv" "devmem_chunks dv1 = Some cs \<Longrightarrow> length cs < 2 ^ 32"
proof -
  have cap: "unat (devmem_capacity dv + 16) = unat (devmem_capacity dv) + 16"
    using assms(2) by (simp add: unat_word_ariths)
  show "chunk_ids dv1 = chunk_ids dv"
    using assms(1,3) cap by (auto simp: grow_chunks_def array_ok_def chunk_ids_def Let_def split: option.splits if_splits)
  show "devmem_chunks dv1 = Some cs \<Longrightarrow> length cs < 2 ^ 32"
    using assms cap by (auto simp: grow_chunks_def array_ok_def Let_def split: option.splits if_splits)
qed

lemma add_chunk_ids:
  assumes "add_chunk c dv = Some dv2" and "\<And>cs. devmem_chunks dv = Some cs \<Longrightarrow> length cs < 2 ^ 32"
  shows "chunk_ids dv2 = chunk_ids dv @ [c]"
proof -
  obtain cs where cs: "devmem_chunks dv = Some cs" "unat (devmem_count dv) < length cs"
      "dv2 = dv\<lparr>devmem_chunks := Some (cs[unat (devmem_count dv) := c]), devmem_count := devmem_count dv + 1\<rparr>"
    using assms(1) by (auto simp: add_chunk_def split: option.splits if_splits)
  then have "unat (devmem_count dv + 1) = Suc (unat (devmem_count dv))"
    using assms(2) [OF cs(1)] by (simp add: unat_word_ariths)
  then show ?thesis using cs by (simp add: chunk_ids_def take_Suc_conv_app_nth)
qed

lemma allocate_chunk_ok:
  assumes "device_ok d k ps" and "fresh_chunk d e k" and "list_all (\<lambda>p. pgmap k p \<noteq> None) ps"
  obtains k' where "\<And>want. dmirror_allocate_chunk e d want k =
      (if want then (case pop_free d k' of None \<Rightarrow> None | Some (p, k') \<Rightarrow> Some (0, Some p, k')) else Some (0, None, k'))"
    "device_ok d k' (rev (chunk_pages e) @ ps)" "devmem_count (devs k' d) = devmem_count (devs k d) + 1"
    "\<And>d'. d' \<noteq> d \<Longrightarrow> devs k' d' = devs k d'" "calloc (devs k' d) = calloc (devs k d)"
    "cfree (devs k' d) = cfree (devs k d)" "sys_pages k' = sys_pages k"
    "list_all (\<lambda>p. pgmap k' p \<noteq> None) (rev (chunk_pages e) @ ps)"
    "\<And>p. p \<notin> set (chunk_pages e) \<Longrightarrow> zone_device_data k' p = zone_device_data k p"
    "\<And>c. chunks k c \<noteq> None \<Longrightarrow> chunks k' c = chunks k c" "\<And>p. p \<notin> set (chunk_pages e) \<Longrightarrow> pgmap k' p = pgmap k p"
    "ranges_ok k \<Longrightarrow> ranges_ok k'"
    "\<And>c. e_kzalloc e = Some c \<Longrightarrow> chunk_ids (devs k' d) = chunk_ids (devs k d) @ [c] \<and> map_option chunk_dev (chunks k' c) = Some d"
    "\<And>r. e_region e = Some r \<Longrightarrow> regions k' = insert r (regions k)"
    "\<And>c'. e_kzalloc e \<noteq> Some c' \<Longrightarrow> chunks k' c' = chunks k c'"
proof -
  obtain c s t where env: "e_kzalloc e = Some c" "e_region e = Some (s, t)" "t - s + 1 = DEVMEM_CHUNK_SIZE"
      "chunks k c = None" "(s, t) \<notin> regions k" "e_krealloc e" "e_memremap e = Remapped"
      "unat (devmem_capacity (devs k d)) + 16 < 2 ^ 32"
    and unused: "list_all (\<lambda>p. pgmap k p = None) (chunk_pages e)"
    using assms(2) by (auto simp: fresh_chunk_def chunk_pages_def split: option.splits)
  define ch where "ch = \<lparr>range_start = s, range_end = t, pagemap_type = MEMORY_DEVICE_PRIVATE, chunk_dev = d, remove = False\<rparr>"
  have "range_len ch = DEVMEM_CHUNK_SIZE" using env(3) by (simp add: range_len_def ch_def)
  from pfn_last_eq [OF this] have last: "pfn_last ch = pfn_first ch + 65536" .
  have pages: "[pfn_first ch ..< pfn_last ch] = chunk_pages e"
    by (simp add: last chunk_pages_def env(2)) (simp add: pfn_first_def ch_def)
  have ok: "free_list d k ps" "array_ok (devs k d)" "dmirror_is_private_zone (devs k d)"
    using assms(1) by (simp_all add: device_ok_def)
  obtain dv1 dv2 where g: "grow_chunks True (devs k d) = Some dv1" "add_chunk c dv1 = Some dv2" "array_ok dv2"
      "devmem_count dv2 = devmem_count (devs k d) + 1" "free_pages dv2 = free_pages (devs k d)"
      "zone_device_type dv2 = zone_device_type (devs k d)"
      "calloc dv2 = calloc (devs k d)" "cfree dv2 = cfree (devs k d)"
    by (rule grow_ok [OF ok(2) env(8), of c])
  have ids: "chunk_ids dv2 = chunk_ids (devs k d) @ [c]"
    using add_chunk_ids [OF g(2)] grow_chunk_ids [OF ok(2) env(8) g(1)] by simp
  let ?k1 = "set_dev d (\<lambda>_. dv2) (set_dev d (\<lambda>_. dv1) (k\<lparr>regions := insert (s, t) (regions k)\<rparr>))"
  define k2 where "k2 = publish_chunk c ch ?k1"
  have reg: "regions k2 = insert (s, t) (regions k)" by (simp add: k2_def publish_chunk_def)
  have k2: "devs k2 d = dv2" "zone_device_data k2 = zone_device_data k" "sys_pages k2 = sys_pages k"
    "chunks k2 = (chunks k)(c \<mapsto> ch)"
    "pgmap k2 = (\<lambda>p. if pfn_first ch \<le> p \<and> p < pfn_last ch then Some c else pgmap k p)"
    "\<And>d'. d' \<noteq> d \<Longrightarrow> devs k2 d' = devs k d'"
    by (simp_all add: k2_def publish_chunk_def cong: if_cong)
  have apart: "set (chunk_pages e) \<inter> set ps = {}"
    using unused assms(3) by (auto simp: list_all_iff)
  have range: "p \<in> set (chunk_pages e) \<longleftrightarrow> pfn_first ch \<le> p \<and> p < pfn_last ch" for p
    using pages [symmetric] by simp
  have old: "owned d k2 p" if "p \<in> set ps" for p
  proof -
    have "owned d k p" "p \<notin> set (chunk_pages e)"
      using ok(1) that apart by (auto simp: free_list_def list_all_iff)
    then show ?thesis using range [of p] env(4)
      by (auto simp: owned_def dmirror_page_to_chunk_def k2 split: option.splits if_splits)
  qed
  have new: "list_all (owned d k2) (chunk_pages e)"
    using range by (simp add: list_all_iff owned_def dmirror_page_to_chunk_def k2) (simp add: ch_def)
  have fl: "free_list d k2 ps"
    using ok(1) old by (simp add: free_list_def k2 g list_all_iff)
  have private2: "dmirror_is_private_zone dv2" using ok(3) g(6) by (simp add: dmirror_is_private_zone_def)
  define k3 where "k3 = push_pages d (chunk_pages e) k2"
  have l3: "free_list d k3 (rev (chunk_pages e) @ ps)"
    unfolding k3_def by (rule push_pages_free_list [OF fl _ apart new]) (simp add: pages [symmetric])
  have dev3: "array_ok (devs k3 d)" "dmirror_is_private_zone (devs k3 d)"
      "devmem_count (devs k3 d) = devmem_count (devs k d) + 1" "calloc (devs k3 d) = calloc (devs k d)"
      "cfree (devs k3 d) = cfree (devs k d)"
    using ok(3) g private2 by (simp_all add: k3_def k2)
  show ?thesis
  proof (rule that)
    fix want
    show "dmirror_allocate_chunk e d want k =
      (if want then (case pop_free d k3 of None \<Rightarrow> None | Some (p, k') \<Rightarrow> Some (0, Some p, k')) else Some (0, None, k3))"
      using env g by (simp add: dmirror_allocate_chunk_def Let_def ch_def [symmetric] k2_def [symmetric]
          pages k3_def [symmetric])
  next
    show "device_ok d k3 (rev (chunk_pages e) @ ps)" using l3 dev3 by (simp add: device_ok_def)
  next
    show "list_all (\<lambda>p. pgmap k3 p \<noteq> None) (rev (chunk_pages e) @ ps)"
      using range assms(3) by (auto simp: k3_def k2 list_all_iff)
  next
    show "p \<notin> set (chunk_pages e) \<Longrightarrow> zone_device_data k3 p = zone_device_data k p" for p
      by (simp add: k3_def k2 push_pages_zone)
  next
    assume rk: "ranges_ok k"
    show "ranges_ok k3"
      unfolding ranges_ok_def
    proof (intro allI impI)
      fix c' ch' p assume c': "chunks k3 c' = Some ch'" "in_chunk ch' p"
      show "pgmap k3 p = Some c'"
      proof (cases "c' = c")
        case True
        with c' show ?thesis by (simp add: k3_def k2 in_chunk_def)
      next
        case False
        with c' have "pgmap k p = Some c'" using rk by (simp add: k3_def k2 ranges_ok_def)
        moreover from this have "p \<notin> set (chunk_pages e)" using unused by (auto simp: list_all_iff)
        ultimately show ?thesis using range [of p] by (auto simp: k3_def k2)
      qed
    qed
  next
    show "e_kzalloc e = Some c' \<Longrightarrow> chunk_ids (devs k3 d) = chunk_ids (devs k d) @ [c'] \<and> map_option chunk_dev (chunks k3 c') = Some d" for c'
      using env(1) ids by (simp add: k3_def k2 ch_def)
  qed (use dev3 k2 reg env(1,2,4) range in \<open>auto simp: k3_def\<close>)
qed

lemma pop_device:
  assumes "device_ok d k (p # ps)"
  shows "\<exists>k'. pop_free d k = Some (p, k') \<and> device_ok d k' ps \<and> calloc (devs k' d) = calloc (devs k d) + 1
    \<and> k' = set_dev d (\<lambda>dv. dv\<lparr>free_pages := zone_device_data k p, calloc := calloc dv + 1\<rparr>) k"
  using assms pop_free_list [of d k p ps] by (auto simp: device_ok_def)

text \<open>
  C28. A chunk that can be allocated adds its 65536 pages to the device's free list, the last
  one first, in front of the pages that were there, and is counted; with a page asked for, the first
  of them is handed out. The chunk array is grown in time: its entry is always inside the array.
\<close>

theorem dmirror_allocate_chunk_ok:
  assumes "device_ok d k ps" and "fresh_chunk d e k" and "list_all (\<lambda>p. pgmap k p \<noteq> None) ps"
  shows "length (chunk_pages e) = 65536
    \<and> (\<exists>k'. dmirror_allocate_chunk e d False k = Some (0, None, k')
      \<and> device_ok d k' (rev (chunk_pages e) @ ps) \<and> devmem_count (devs k' d) = devmem_count (devs k d) + 1)
    \<and> (\<exists>k'. dmirror_allocate_chunk e d True k = Some (0, Some (last (chunk_pages e)), k')
      \<and> device_ok d k' (tl (rev (chunk_pages e)) @ ps) \<and> calloc (devs k' d) = calloc (devs k d) + 1)"
proof -
  obtain k' where k': "\<And>want. dmirror_allocate_chunk e d want k =
      (if want then (case pop_free d k' of None \<Rightarrow> None | Some (p, k') \<Rightarrow> Some (0, Some p, k')) else Some (0, None, k'))"
    "device_ok d k' (rev (chunk_pages e) @ ps)" "devmem_count (devs k' d) = devmem_count (devs k d) + 1"
    "calloc (devs k' d) = calloc (devs k d)"
    using assms by (rule allocate_chunk_ok) blast
  have len: "length (chunk_pages e) = 65536"
    using assms(2) by (auto simp: fresh_chunk_def chunk_pages_def split: option.splits)
  then have "rev (chunk_pages e) @ ps = last (chunk_pages e) # (tl (rev (chunk_pages e)) @ ps)"
    by (cases "chunk_pages e" rule: rev_cases) simp_all
  with k'(2) have "device_ok d k' (last (chunk_pages e) # (tl (rev (chunk_pages e)) @ ps))"
    by (simp only:)
  then show ?thesis using len k' pop_device [of d k' "last (chunk_pages e)"] by auto
qed

text \<open>
  C29. A chunk that cannot be allocated leaves no trace but the capacity of the array: an error
  is returned with no page, no region stays reserved, and the chunks, the free list, the count and the
  pages are as before.
\<close>

theorem dmirror_allocate_chunk_failed:
  "case dmirror_allocate_chunk e d want k of None \<Rightarrow> True
   | Some (r, p, k') \<Rightarrow> if r = 0 then True
       else p = None \<and> regions k' \<subseteq> regions k \<and> chunks k' = chunks k \<and> pgmap k' = pgmap k
         \<and> zone_device_data k' = zone_device_data k \<and> free_pages (devs k' d) = free_pages (devs k d)
         \<and> devmem_count (devs k' d) = devmem_count (devs k d) \<and> sys_pages k' = sys_pages k"
  by (auto simp: dmirror_allocate_chunk_def grow_chunks_def Let_def
      split: option.splits remap_result.splits if_splits)

section \<open>Contract: a pool of pages\<close>

text \<open>
  What a client of the allocator relies on: the pool is a stack, a page is handed out once until it
  comes back, and the pages handed out (\<open>out\<close>) stay usable meanwhile.
\<close>

fun take_pages :: "('e \<Rightarrow> 'k \<Rightarrow> ('p option \<times> 'k) option) \<Rightarrow> 'e list \<Rightarrow> 'k \<Rightarrow> ('p list \<times> 'k) option" where
  "take_pages tk [] k = Some ([], k)"
| "take_pages tk (e # es) k =
    (case tk e k of Some (Some p, k) \<Rightarrow> (case take_pages tk es k of None \<Rightarrow> None | Some (ps, k) \<Rightarrow> Some (p # ps, k))
     | _ \<Rightarrow> None)"

fun put_pages :: "('p \<Rightarrow> 'k \<Rightarrow> 'k option) \<Rightarrow> 'p list \<Rightarrow> 'k \<Rightarrow> 'k option" where
  "put_pages pt [] k = Some k"
| "put_pages pt (p # ps) k = (case pt p k of None \<Rightarrow> None | Some k \<Rightarrow> put_pages pt ps k)"

locale page_pool =
  fixes pool :: "'k \<Rightarrow> 'p list \<Rightarrow> bool"
    and out :: "'k \<Rightarrow> 'p \<Rightarrow> bool"
    and ready :: "'e \<Rightarrow> bool"
    and tk :: "'e \<Rightarrow> 'k \<Rightarrow> ('p option \<times> 'k) option"
    and pt :: "'p \<Rightarrow> 'k \<Rightarrow> 'k option"
  assumes pool_distinct: "pool k ps \<Longrightarrow> distinct ps"
    and tk_page: "pool k (p # ps) \<Longrightarrow> ready e \<Longrightarrow>
      \<exists>k'. tk e k = Some (Some p, k') \<and> pool k' ps \<and> out k' p \<and> (\<forall>q. q \<noteq> p \<longrightarrow> out k' q = out k q)"
    and pt_page: "pool k ps \<Longrightarrow> out k p \<Longrightarrow> p \<notin> set ps \<Longrightarrow>
      \<exists>k'. pt p k = Some k' \<and> pool k' (p # ps) \<and> (\<forall>q. q \<noteq> p \<longrightarrow> out k' q = out k q)"
begin

lemma take_all:
  "pool k (ps @ qs) \<Longrightarrow> list_all ready es \<Longrightarrow> length es = length ps \<Longrightarrow>
     \<exists>k'. take_pages tk es k = Some (ps, k') \<and> pool k' qs \<and> (\<forall>q. out k' q = (q \<in> set ps \<or> out k q))"
proof (induction es arbitrary: k ps)
  case (Cons e es)
  then obtain p ps' where ps: "ps = p # ps'" by (cases ps) simp_all
  have "pool k (p # (ps' @ qs))" using Cons.prems(1) ps by simp
  with Cons.prems(2) obtain k1 where
    k1: "tk e k = Some (Some p, k1)" "pool k1 (ps' @ qs)" "out k1 p" "\<forall>q. q \<noteq> p \<longrightarrow> out k1 q = out k q"
    using tk_page [of k p "ps' @ qs" e] by auto
  from Cons.IH [OF k1(2)] Cons.prems(2,3) ps obtain k2 where
    k2: "take_pages tk es k1 = Some (ps', k2)" "pool k2 qs" "\<forall>q. out k2 q = (q \<in> set ps' \<or> out k1 q)"
    by auto
  have "out k2 q = (q \<in> set ps \<or> out k q)" for q
    using k2(3) k1(3,4) ps by (cases "q = p") simp_all
  with k1(1) k2(1,2) ps show ?case by simp
qed simp

lemma put_all:
  "pool k qs \<Longrightarrow> list_all (out k) ps \<Longrightarrow> distinct (ps @ qs) \<Longrightarrow>
     \<exists>k'. put_pages pt ps k = Some k' \<and> pool k' (rev ps @ qs)"
proof (induction ps arbitrary: k qs)
  case (Cons p ps)
  with pt_page [of k qs p] obtain k1 where
    k1: "pt p k = Some k1" "pool k1 (p # qs)" "\<forall>q. q \<noteq> p \<longrightarrow> out k1 q = out k q" by auto
  moreover have "list_all (out k1) ps"
    using Cons.prems(2,3) k1(3) by (auto simp: list_all_iff)
  ultimately show ?case using Cons.IH [of k1 "p # qs"] Cons.prems(3) by auto
qed simp

lemma round_trip:
  assumes "pool k (ps @ qs)" and "list_all ready es" and "length es = length ps" and "set ps' = set ps" and "distinct ps'"
  shows "\<exists>k1 k2. take_pages tk es k = Some (ps, k1) \<and> put_pages pt ps' k1 = Some k2 \<and> pool k2 (rev ps' @ qs)"
proof -
  from take_all [OF assms(1-3)] obtain k1 where
    k1: "take_pages tk es k = Some (ps, k1)" "pool k1 qs" "\<forall>q. out k1 q = (q \<in> set ps \<or> out k q)" by blast
  moreover have "list_all (out k1) ps'" "distinct (ps' @ qs)"
    using k1(3) assms(4,5) pool_distinct [OF assms(1)] by (auto simp: list_all_iff)
  ultimately show ?thesis using put_all [of k1 qs ps'] by blast
qed

end

lemma page_to_chunk_simps [simp]:
  "dmirror_page_to_chunk (k\<lparr>sys_pages := S\<rparr>) p = dmirror_page_to_chunk k p"
  "dmirror_page_to_chunk (k\<lparr>page_data := D\<rparr>) p = dmirror_page_to_chunk k p"
  "dmirror_page_to_chunk (k\<lparr>zone_device_data := Z\<rparr>) p = dmirror_page_to_chunk k p"
  "dmirror_page_to_chunk (set_dev d f k) p = dmirror_page_to_chunk k p"
  by (simp_all add: dmirror_page_to_chunk_def split: option.split)

lemma lent_cong:
  assumes "chunks k' = chunks k" and "pgmap k' = pgmap k" and "zone_device_data k' q = zone_device_data k q"
  shows "lent d k' q = lent d k q"
  by (simp add: lent_def assms(3) owned_cong [OF assms(1,2)])

lemma device_ok_cong:
  assumes "device_ok d k ps" and "chunks k' = chunks k" and "pgmap k' = pgmap k" and "devs k' d = devs k d"
    and "\<And>p. p \<in> set ps \<Longrightarrow> zone_device_data k' p = zone_device_data k p"
  shows "device_ok d k' ps"
proof -
  have "(\<And>p. p \<in> set ps \<Longrightarrow> f p = g p) \<Longrightarrow> chain f q ps = chain g q ps" for f g q
    by (induction ps arbitrary: q) auto
  from this [OF assms(5)] assms(1) show ?thesis
    by (simp add: device_ok_def free_list_def owned_cong [OF assms(2,3)] assms(4))
qed

lemma alloc_page_pool:
  assumes "device_ok d k (p # ps)" and "e_alloc_page e = Some r"
  obtains k' where "dmirror_devmem_alloc_page e d k = Some (Some p, k')" "device_ok d k' ps"
    "lent d k' p" "\<And>q. q \<noteq> p \<Longrightarrow> lent d k' q = lent d k q" "zone_device_data k' p = PageP r"
    "calloc (devs k' d) = calloc (devs k d) + 1"
    "k' = (set_dev d (\<lambda>dv. dv\<lparr>free_pages := zone_device_data k p, calloc := calloc dv + 1\<rparr>)
      (k\<lparr>sys_pages := insert r (sys_pages k)\<rparr>))\<lparr>zone_device_data := (zone_device_data k)(p := PageP r)\<rparr>"
proof -
  let ?k1 = "k\<lparr>sys_pages := insert r (sys_pages k)\<rparr>"
  have "device_ok d ?k1 (p # ps)" by (rule device_ok_cong [OF assms(1)]) simp_all
  then obtain k2 where k2: "pop_free d ?k1 = Some (p, k2)" "device_ok d k2 ps"
      "calloc (devs k2 d) = calloc (devs k d) + 1"
      "k2 = set_dev d (\<lambda>dv. dv\<lparr>free_pages := zone_device_data ?k1 p, calloc := calloc dv + 1\<rparr>) ?k1"
    using pop_device [of d ?k1 p ps] by auto
  let ?k3 = "k2\<lparr>zone_device_data := (zone_device_data k2)(p := PageP r)\<rparr>"
  have fresh: "p \<notin> set ps" "free_pages (devs k d) = PageP p" "owned d k p" "dmirror_is_private_zone (devs k d)"
    using assms(1) by (simp_all add: device_ok_def free_list_def)
  have same: "chunks k2 = chunks k" "pgmap k2 = pgmap k" "zone_device_data k2 = zone_device_data k"
    "sys_pages k2 = insert r (sys_pages k)"
    using k2(4) by simp_all
  have own3: "owned d ?k3 = owned d k" by (rule owned_cong) (simp_all add: same)
  show ?thesis
  proof (rule that)
    show "dmirror_devmem_alloc_page e d k = Some (Some p, ?k3)"
      using fresh assms(2) k2(1) by (simp add: dmirror_devmem_alloc_page_def Let_def)
    show "device_ok d ?k3 ps" by (rule device_ok_cong [OF k2(2)]) (use fresh in auto)
    show "lent d ?k3 p" using fresh(3) by (simp add: lent_def own3)
    show "lent d ?k3 q = lent d k q" if "q \<noteq> p" for q
      using that same by (intro lent_cong) simp_all
  qed (use same k2(3,4) in simp_all)
qed

lemma free_pool:
  assumes "device_ok d k ps" and "lent d k p" and "p \<notin> set ps"
  obtains k' where "dmirror_devmem_free p k = Some k'" "device_ok d k' (p # ps)"
    "\<And>q. q \<noteq> p \<Longrightarrow> lent d k' q = lent d k q" "cfree (devs k' d) = cfree (devs k d) + 1"
proof -
  obtain c ch r where c: "dmirror_page_to_chunk k p = Some (c, ch)" "chunk_dev ch = d"
      "pagemap_type ch = MEMORY_DEVICE_PRIVATE" "\<not> remove ch" "zone_device_data k p = PageP r"
    using assms(2) by (auto simp: lent_def owned_def split: option.splits ptr.splits)
  let ?k1 = "if r \<noteq> p then k\<lparr>sys_pages := sys_pages k - {r}\<rparr> else k"
  let ?k2 = "set_dev d (\<lambda>dv. dv\<lparr>cfree := cfree dv + 1\<rparr>) ?k1"
  have k2: "chunks ?k2 = chunks k" "pgmap ?k2 = pgmap k" "zone_device_data ?k2 = zone_device_data k"
    by simp_all
  have ok2: "device_ok d ?k2 ps"
    using assms(1) owned_cong [OF k2(1,2)] by (simp add: device_ok_def free_list_def k2)
  have own: "owned d ?k2 p" using assms(2) owned_cong [OF k2(1,2)] by (simp add: lent_def)
  have chunk1: "dmirror_page_to_chunk ?k1 p = Some (c, ch)"
    using c(1) by simp
  show ?thesis
  proof (rule that)
    show "dmirror_devmem_free p k = Some (push_free d p ?k2)"
      using c chunk1 by (simp add: dmirror_devmem_free_def BACKING_PAGE_def is_device_page_def Let_def)
    show "device_ok d (push_free d p ?k2) (p # ps)"
      using ok2 push_free_list [OF _ assms(3) own] by (simp add: device_ok_def)
    show "lent d (push_free d p ?k2) q = lent d k q" if "q \<noteq> p" for q
      using that by (intro lent_cong) simp_all
  qed simp
qed

interpretation devmem: page_pool "device_ok d" "lent d" "\<lambda>e. e_alloc_page e \<noteq> None"
  "\<lambda>e. dmirror_devmem_alloc_page e d" dmirror_devmem_free for d
proof unfold_locales
  fix k :: "'a kernel_scheme" and p ps and e :: page_env
  assume "device_ok d k (p # ps)" and "e_alloc_page e \<noteq> None"
  then show "\<exists>k'. dmirror_devmem_alloc_page e d k = Some (Some p, k') \<and> device_ok d k' ps \<and> lent d k' p
      \<and> (\<forall>q. q \<noteq> p \<longrightarrow> lent d k' q = lent d k q)"
    using alloc_page_pool [of d k p ps e] by (metis option.exhaust)
next
  fix k :: "'a kernel_scheme" and p ps
  assume "device_ok d k ps" and "lent d k p" and "p \<notin> set ps"
  then show "\<exists>k'. dmirror_devmem_free p k = Some k' \<and> device_ok d k' (p # ps)
      \<and> (\<forall>q. q \<noteq> p \<longrightarrow> lent d k' q = lent d k q)"
    using free_pool [of d k ps p] by metis
qed (simp add: device_ok_def free_list_def)

text \<open>
  C18. Device pages taken one after the other from the free list are distinct and come in its order;
  given back in any order with \<open>dmirror_devmem_free\<close> they are on the list again, the last one returned
  in front, and the rest of the list is untouched.
\<close>

theorem devmem_round_trip:
  assumes "device_ok d k (ps @ qs)" and "list_all (\<lambda>e. e_alloc_page e \<noteq> None) es"
    and "length es = length ps" and "set ps' = set ps" and "distinct ps'"
  shows "\<exists>k1 k2. take_pages (\<lambda>e. dmirror_devmem_alloc_page e d) es k = Some (ps, k1)
    \<and> put_pages dmirror_devmem_free ps' k1 = Some k2 \<and> device_ok d k2 (rev ps' @ qs)"
  using assms by (rule devmem.round_trip)

section \<open>Removing the free pages of a chunk\<close>

text \<open>What stays on the list: the pages behind the last page of the chunk.\<close>

definition kept :: "nat \<Rightarrow> 's kernel_scheme \<Rightarrow> page list \<Rightarrow> page list" where
  "kept c k ps = rev (takeWhile (\<lambda>p. pgmap k p \<noteq> Some c) (rev ps))"

lemma kept_simps [simp]:
  "kept c k [] = []"
  "kept c k (p # ps) = (if pgmap k p \<noteq> Some c \<and> kept c k ps = ps then p # ps else kept c k ps)"
proof -
  show "kept c k [] = []" by (simp add: kept_def)
  have all: "kept c k ps = ps \<longleftrightarrow> (\<forall>p\<in>set ps. pgmap k p \<noteq> Some c)" for ps
    by (simp add: kept_def rev_swap takeWhile_eq_all_conv)
  show "kept c k (p # ps) = (if pgmap k p \<noteq> Some c \<and> kept c k ps = ps then p # ps else kept c k ps)"
  proof (cases "\<forall>q\<in>set ps. pgmap k q \<noteq> Some c")
    case True
    then have w: "takeWhile (\<lambda>p. pgmap k p \<noteq> Some c) (rev ps @ r) = rev ps @ takeWhile (\<lambda>p. pgmap k p \<noteq> Some c) r" for r
      by (intro takeWhile_append2) simp
    have "kept c k ps = ps" unfolding all by (rule True)
    moreover have "kept c k (p # ps) = (if pgmap k p \<noteq> Some c then p # ps else ps)"
      unfolding kept_def by (simp only: rev.simps w) simp
    ultimately show ?thesis by simp
  next
    case False
    then obtain q where "q \<in> set (rev ps)" "\<not> pgmap k q \<noteq> Some c" by auto
    then have "takeWhile (\<lambda>p. pgmap k p \<noteq> Some c) (rev ps @ [p]) = takeWhile (\<lambda>p. pgmap k p \<noteq> Some c) (rev ps)"
      by (rule takeWhile_append1)
    with False show ?thesis unfolding all by (auto simp: kept_def)
  qed
qed

lemma kept_cong: "pgmap k' = pgmap k \<Longrightarrow> kept c k' ps = kept c k ps"
  by (simp add: kept_def)

lemma kept_subset: "set (kept c k ps) \<subseteq> set ps"
  using set_takeWhileD by (fastforce simp: kept_def)

lemma kept_not_chunk: "p \<in> set (kept c k ps) \<Longrightarrow> pgmap k p \<noteq> Some c"
  using set_takeWhileD by (fastforce simp: kept_def)

lemma kept_distinct: "distinct ps \<Longrightarrow> distinct (kept c k ps)"
  by (simp add: kept_def distinct_takeWhile)

lemma remove_walk_ok:
  assumes "chain (zone_device_data k) q ps" and "list_all (\<lambda>p. pgmap k p \<noteq> None) ps"
  obtains x where "remove_walk d c q k = Some (set_dev d (\<lambda>dv. dv\<lparr>free_pages := x\<rparr>) k)"
    "if kept c k ps = ps then x = free_pages (devs k d) else chain (zone_device_data k) x (kept c k ps)"
proof -
  have "\<exists>x. remove_walk d c q k = Some (set_dev d (\<lambda>dv. dv\<lparr>free_pages := x\<rparr>) k)
    \<and> (if kept c k ps = ps then x = free_pages (devs k d) else chain (zone_device_data k) x (kept c k ps))"
    using assms
  proof (induction ps arbitrary: q k)
    case Nil
    have "k = set_dev d (\<lambda>dv. dv\<lparr>free_pages := free_pages (devs k d)\<rparr>) k" by (simp add: set_dev_def)
    with Nil show ?case by (auto simp: remove_walk.simps)
  next
    case (Cons p ps)
    obtain c' where c': "pgmap k p = Some c'" using Cons.prems by auto
    define k1 where "k1 = (if c' = c then set_dev d (\<lambda>dv. dv\<lparr>free_pages := zone_device_data k p\<rparr>) k else k)"
    have same: "zone_device_data k1 = zone_device_data k" "pgmap k1 = pgmap k"
      and dev: "free_pages (devs k1 d) = (if c' = c then zone_device_data k p else free_pages (devs k d))"
      by (simp_all add: k1_def)
    have set1: "set_dev d (\<lambda>dv. dv\<lparr>free_pages := x\<rparr>) k1 = set_dev d (\<lambda>dv. dv\<lparr>free_pages := x\<rparr>) k" for x
      by (simp add: k1_def set_dev_def)
    have tail: "chain (zone_device_data k) (zone_device_data k p) ps" using Cons.prems by simp
    have step: "remove_walk d c q k = remove_walk d c (zone_device_data k p) k1"
      using Cons.prems c' by (subst remove_walk.simps) (simp add: k1_def Let_def)
    note ih = Cons.IH [of k1 "zone_device_data k p", unfolded same kept_cong [OF same(2)] set1]
    from ih [OF tail] Cons.prems(2) obtain x where
      x: "remove_walk d c (zone_device_data k p) k1 = Some (set_dev d (\<lambda>dv. dv\<lparr>free_pages := x\<rparr>) k)"
      "if kept c k ps = ps then x = free_pages (devs k1 d) else chain (zone_device_data k) x (kept c k ps)"
      by auto
    have "if kept c k (p # ps) = p # ps then x = free_pages (devs k d)
        else chain (zone_device_data k) x (kept c k (p # ps))"
    proof (cases "kept c k ps = ps")
      case True
      then show ?thesis using x(2) dev tail c' by (auto split: if_splits)
    next
      case False
      moreover have "kept c k ps \<noteq> p # ps"
        by (metis kept_def length_Cons length_rev length_takeWhile_le not_less_eq_eq order_refl)
      ultimately show ?thesis using x(2) by simp
    qed
    then show ?case unfolding step using x(1) by (intro exI [of _ x] conjI)
  qed
  then show ?thesis using that by blast
qed

lemma remove_free_pages_ok:
  assumes "device_ok d k ps" and "chunks k c = Some ch" and "chunk_dev ch = d"
    and "list_all (\<lambda>p. pgmap k p \<noteq> None) ps"
  obtains x where "dmirror_remove_free_pages c k = Some (set_dev d (\<lambda>dv. dv\<lparr>free_pages := x\<rparr>) k)"
    "device_ok d (set_dev d (\<lambda>dv. dv\<lparr>free_pages := x\<rparr>) k) (kept c k ps)"
proof -
  have ok: "chain (zone_device_data k) (free_pages (devs k d)) ps" "distinct ps" "list_all (owned d k) ps"
    using assms(1) by (simp_all add: device_ok_def free_list_def)
  from ok(1) assms(4) obtain x where
    x: "remove_walk d c (free_pages (devs k d)) k = Some (set_dev d (\<lambda>dv. dv\<lparr>free_pages := x\<rparr>) k)"
    "if kept c k ps = ps then x = free_pages (devs k d) else chain (zone_device_data k) x (kept c k ps)"
    by (rule remove_walk_ok)
  have "owned d (set_dev d f k) = owned d k" for f by (rule owned_cong) simp_all
  moreover have "chain (zone_device_data k) x (kept c k ps)"
    using x(2) ok(1) by (auto split: if_splits)
  moreover have "list_all (owned d k) (kept c k ps)"
    using ok(3) kept_subset [of c k ps] by (auto simp: list_all_iff)
  ultimately have "device_ok d (set_dev d (\<lambda>dv. dv\<lparr>free_pages := x\<rparr>) k) (kept c k ps)"
    using assms(1) ok(2) by (simp add: device_ok_def free_list_def kept_distinct)
  with that x(1) assms(2,3) show ?thesis by (simp add: dmirror_remove_free_pages_def)
qed

text \<open>
  \<open>dmirror_remove_free_pages\<close> terminates on every free list and takes the chunk's pages off
  it, so none of them can be allocated again. But it does so by cutting the list behind the last of
  them: every free page in front of it is lost too, whichever chunk it belongs to.
\<close>

theorem dmirror_remove_free_pages_cuts:
  assumes "device_ok d k ps" and "chunks k c = Some ch" and "chunk_dev ch = d"
    and "list_all (\<lambda>p. pgmap k p \<noteq> None) ps"
  shows "\<exists>k'. dmirror_remove_free_pages c k = Some k' \<and> device_ok d k' (rev (takeWhile (\<lambda>p. pgmap k p \<noteq> Some c) (rev ps)))"
proof -
  obtain x where "dmirror_remove_free_pages c k = Some (set_dev d (\<lambda>dv. dv\<lparr>free_pages := x\<rparr>) k)"
    "device_ok d (set_dev d (\<lambda>dv. dv\<lparr>free_pages := x\<rparr>) k) (kept c k ps)"
    using assms by (rule remove_free_pages_ok)
  then show ?thesis by (auto simp: kept_def)
qed

text \<open>A device with two chunks and a free page of chunk 1 in front of one of chunk 0.\<close>

definition two_chunks :: kernel where
  "two_chunks = \<lparr>devs = (\<lambda>_. \<lparr>zone_device_type = 1, devmem_capacity = 2, devmem_count = 2, devmem_chunks = Some [0, 1],
       calloc = 0, cfree = 0, free_pages = PageP 20\<rparr>),
     chunks = (\<lambda>c. if c \<le> 1 then Some \<lparr>range_start = 0, range_end = 0, pagemap_type = MEMORY_DEVICE_PRIVATE,
       chunk_dev = 0, remove = False\<rparr> else None),
     zone_device_data = (\<lambda>p. if p = 20 then PageP 10 else NULL), pgmap = [10 \<mapsto> 0, 20 \<mapsto> 1],
     page_data = (\<lambda>_. []), sys_pages = {}, regions = {}\<rparr>"

lemma two_chunks_ok: "device_ok 0 two_chunks [20, 10]"
  by (simp add: device_ok_def free_list_def two_chunks_def owned_def dmirror_page_to_chunk_def array_ok_def
      dmirror_is_private_zone_def HMM_DMIRROR_MEMORY_DEVICE_PRIVATE_def)

theorem dmirror_remove_free_pages_cuts_witness:
  "\<exists>k'. dmirror_remove_free_pages 0 two_chunks = Some k' \<and> device_ok 0 k' []"
proof -
  let ?ch = "\<lparr>range_start = 0, range_end = 0, pagemap_type = MEMORY_DEVICE_PRIVATE, chunk_dev = 0, remove = False\<rparr>"
  have "\<exists>k'. dmirror_remove_free_pages 0 two_chunks = Some k'
      \<and> device_ok 0 k' (rev (takeWhile (\<lambda>p. pgmap two_chunks p \<noteq> Some 0) (rev [20, 10])))"
    by (rule dmirror_remove_free_pages_cuts [OF two_chunks_ok, of 0 ?ch]) (simp_all add: two_chunks_def)
  then show ?thesis by (simp add: two_chunks_def)
qed

section \<open>Removing all chunks\<close>

definition backed :: "'s kernel_scheme \<Rightarrow> page \<Rightarrow> bool" where
  "backed k p = (case zone_device_data k p of PageP _ \<Rightarrow> True | _ \<Rightarrow> False)"

text \<open>
  What an eviction of chunk \<open>c\<close> meets: pages with a backing page, and only pages of the chunk lose their
  last reference.
\<close>

definition evict_ok :: "evict_env \<Rightarrow> nat \<Rightarrow> 's kernel_scheme \<Rightarrow> bool" where
  "evict_ok e c k \<longleftrightarrow> list_all (\<lambda>m. backed k (mp_page m)) (ev_src e)
     \<and> list_all (\<lambda>p. pgmap k p = Some c \<and> backed k p) (ev_freed e)"

lemma is_device_page_simps [simp]:
  "is_device_page t (k\<lparr>sys_pages := S\<rparr>) p = is_device_page t k p"
  "is_device_page t (k\<lparr>page_data := D\<rparr>) p = is_device_page t k p"
  by (simp_all add: is_device_page_def)

lemma evict_pages_ok:
  "list_all (\<lambda>m. backed k (mp_page m)) ms \<Longrightarrow>
     \<exists>ds S D. evict_pages ms news k = Some (ds, k\<lparr>sys_pages := S, page_data := D\<rparr>)"
proof (induction ms arbitrary: news k)
  case Nil
  have "k = k\<lparr>sys_pages := sys_pages k, page_data := page_data k\<rparr>" by simp
  then have "evict_pages [] news k = Some ([], k\<lparr>sys_pages := sys_pages k, page_data := page_data k\<rparr>)" by simp
  then show ?case by blast
next
  case step: (Cons m ms)
  obtain r where r: "zone_device_data k (mp_page m) = PageP r"
    using step.prems by (auto simp: backed_def split: ptr.splits)
  then obtain r' where r': "BACKING_PAGE k (mp_page m) = PageP r'"
    by (cases "is_device_page MEMORY_DEVICE_PRIVATE k (mp_page m)") (auto simp: BACKING_PAGE_def)
  show ?case
  proof (cases news)
    case Nil
    then have "evict_pages (m # ms) news k = Some ([], k\<lparr>sys_pages := sys_pages k, page_data := page_data k\<rparr>)" by simp
    then show ?thesis by blast
  next
    case (Cons dpage news')
    let ?k = "copy_highpage dpage r' (k\<lparr>sys_pages := insert dpage (sys_pages k)\<rparr>)"
    from step.IH [of k news'] step.prems have skip:
      "\<exists>ds S D. evict_pages ms news' k = Some (ds, k\<lparr>sys_pages := S, page_data := D\<rparr>)" by simp
    have "list_all (\<lambda>m. backed ?k (mp_page m)) ms"
      using step.prems by (simp add: backed_def copy_highpage_def)
    from step.IH [OF this, of news'] have copy:
      "\<exists>ds S D. evict_pages ms news' ?k = Some (ds, ?k\<lparr>sys_pages := S, page_data := D\<rparr>)" .
    from skip copy r' show ?thesis
      by (cases "mp_migrate m"; cases "mp_valid m")
        (auto simp: Cons migrate_pfn_to_page_def copy_highpage_def Let_def)
  qed
qed

lemma free_all_removed:
  "list_all (\<lambda>p. pgmap k p = Some c \<and> backed k p) ps \<Longrightarrow> chunks k c = Some ch \<Longrightarrow> remove ch \<Longrightarrow>
     \<exists>S. free_all ps k = Some (k\<lparr>sys_pages := S\<rparr>)"
proof (induction ps arbitrary: k)
  case Nil
  have "k = k\<lparr>sys_pages := sys_pages k\<rparr>" by simp
  then show ?case by (metis free_all.simps(1))
next
  case (Cons p ps)
  obtain r where r: "zone_device_data k p = PageP r"
    using Cons.prems(1) by (auto simp: backed_def split: ptr.splits)
  have c: "dmirror_page_to_chunk k p = Some (c, ch)"
    using Cons.prems by (simp add: dmirror_page_to_chunk_def)
  obtain S where S: "dmirror_devmem_free p k = Some (k\<lparr>sys_pages := S\<rparr>)"
  proof -
    show thesis
    proof (cases "BACKING_PAGE k p = PageP p")
      case True
      with c Cons.prems(3) that [of "sys_pages k"] show ?thesis by (simp add: dmirror_devmem_free_def)
    next
      case False
      then have "BACKING_PAGE k p = PageP r" using r by (simp add: BACKING_PAGE_def split: if_splits)
      with c False Cons.prems(3) that [of "sys_pages k - {r}"] show ?thesis
        by (simp add: dmirror_devmem_free_def)
    qed
  qed
  have "\<exists>S'. free_all ps (k\<lparr>sys_pages := S\<rparr>) = Some (k\<lparr>sys_pages := S\<rparr>\<lparr>sys_pages := S'\<rparr>)"
    using Cons.prems by (intro Cons.IH) (simp_all add: backed_def)
  with S show ?case by auto
qed

text \<open>One round of \<open>dmirror_device_remove_chunks\<close>.\<close>

lemma remove_round:
  assumes "chain (zone_device_data k) (free_pages (devs k d)) ps" and "list_all (\<lambda>p. pgmap k p \<noteq> None) ps"
    and "chunks k c = Some ch" and "chunk_dev ch = d" and "evict_ok e c k"
  obtains k1 k2 where
    "dmirror_remove_free_pages c (k\<lparr>chunks := (chunks k)(c \<mapsto> ch\<lparr>remove := True\<rparr>)\<rparr>) = Some k1"
    "dmirror_device_evict_chunk e ch k1 = Some k2" "chunks k2 = (chunks k)(c \<mapsto> ch\<lparr>remove := True\<rparr>)"
    "pgmap k2 = pgmap k" "zone_device_data k2 = zone_device_data k"
    "chain (zone_device_data k) (free_pages (devs k2 d)) (kept c k ps)"
    "zone_device_type (devs k2 d) = zone_device_type (devs k d)"
    "\<And>d'. d' \<noteq> d \<Longrightarrow> devs k2 d' = devs k d'"
proof -
  let ?ch = "ch\<lparr>remove := True\<rparr>"
  let ?k = "k\<lparr>chunks := (chunks k)(c \<mapsto> ?ch)\<rparr>"
  have "chain (zone_device_data ?k) (free_pages (devs k d)) ps" "list_all (\<lambda>p. pgmap ?k p \<noteq> None) ps"
    using assms(1,2) by simp_all
  then obtain x where walk: "remove_walk d c (free_pages (devs k d)) ?k = Some (set_dev d (\<lambda>dv. dv\<lparr>free_pages := x\<rparr>) ?k)"
    "if kept c ?k ps = ps then x = free_pages (devs ?k d) else chain (zone_device_data ?k) x (kept c ?k ps)"
    by (rule remove_walk_ok)
  define k1 where "k1 = set_dev d (\<lambda>dv. dv\<lparr>free_pages := x\<rparr>) ?k"
  have rm: "dmirror_remove_free_pages c ?k = Some k1"
    using walk(1) assms(4) by (simp add: dmirror_remove_free_pages_def k1_def)
  have same: "pgmap k1 = pgmap k" "zone_device_data k1 = zone_device_data k" "chunks k1 = (chunks k)(c \<mapsto> ?ch)"
    by (simp_all add: k1_def)
  have x: "chain (zone_device_data k) x (kept c k ps)"
    using walk(2) assms(1) kept_cong [of ?k k c ps] by (auto split: if_splits)
  have "list_all (\<lambda>m. backed k1 (mp_page m)) (take (unat (evict_npages ch)) (ev_src e))"
    using assms(5) by (auto simp: evict_ok_def backed_def same list_all_iff dest: in_set_takeD)
  from evict_pages_ok [OF this] obtain ds S D where
    ev: "evict_pages (take (unat (evict_npages ch)) (ev_src e)) (ev_new e) k1 = Some (ds, k1\<lparr>sys_pages := S, page_data := D\<rparr>)"
    by blast
  let ?k3 = "k1\<lparr>sys_pages := S, page_data := D\<rparr>"
  have "\<exists>S'. free_all (ev_freed e) ?k3 = Some (?k3\<lparr>sys_pages := S'\<rparr>)"
    using assms(5) by (intro free_all_removed [of _ c _ ?ch]) (simp_all add: evict_ok_def backed_def same)
  then obtain S' where fr: "free_all (ev_freed e) ?k3 = Some (?k3\<lparr>sys_pages := S'\<rparr>)" by blast
  show ?thesis
  proof (rule that [OF rm])
    show "dmirror_device_evict_chunk e ch k1 = Some (?k3\<lparr>sys_pages := S'\<rparr>)"
      using ev fr by (simp add: dmirror_device_evict_chunk_def)
    show "chain (zone_device_data k) (free_pages (devs (?k3\<lparr>sys_pages := S'\<rparr>) d)) (kept c k ps)"
      using x by (simp add: k1_def)
  qed (simp_all add: same, simp_all add: k1_def)
qed

lemma remove_each_ok:
  assumes "chain (zone_device_data k) (free_pages (devs k d)) ps" and "list_all (\<lambda>p. pgmap k p \<noteq> None) ps"
    and "ranges_ok k" and "distinct cs" and "\<forall>c\<in>set cs. \<exists>ch. chunks k c = Some ch \<and> chunk_dev ch = d"
    and "\<forall>c\<in>set cs. evict_ok (env c) c k"
  shows "\<exists>k'. remove_each d env cs k = Some k' \<and> (\<forall>c. chunks k' c = (if c \<in> set cs then None else chunks k c))
    \<and> zone_device_type (devs k' d) = zone_device_type (devs k d) \<and> (\<forall>d'. d' \<noteq> d \<longrightarrow> devs k' d' = devs k d')
    \<and> zone_device_data k' = zone_device_data k \<and> ranges_ok k'
    \<and> (\<forall>p. pgmap k p \<notin> Some ` set cs \<longrightarrow> pgmap k' p = pgmap k p)"
  using assms
proof (induction cs arbitrary: k ps)
  case (Cons c cs)
  obtain ch where ch: "chunks k c = Some ch" "chunk_dev ch = d" using Cons.prems(5) by auto
  obtain k1 k2 where r:
    "dmirror_remove_free_pages c (k\<lparr>chunks := (chunks k)(c \<mapsto> ch\<lparr>remove := True\<rparr>)\<rparr>) = Some k1"
    "dmirror_device_evict_chunk (env c) ch k1 = Some k2" "chunks k2 = (chunks k)(c \<mapsto> ch\<lparr>remove := True\<rparr>)"
    "pgmap k2 = pgmap k" "zone_device_data k2 = zone_device_data k"
    "chain (zone_device_data k) (free_pages (devs k2 d)) (kept c k ps)"
    "zone_device_type (devs k2 d) = zone_device_type (devs k d)"
    "\<And>d'. d' \<noteq> d \<Longrightarrow> devs k2 d' = devs k d'"
    using Cons.prems(6) by (auto intro: remove_round [OF Cons.prems(1,2) ch, of "env c"])
  define k3 where "k3 = k2\<lparr>pgmap := (\<lambda>p. if pfn_first ch \<le> p \<and> p < pfn_last ch then None else pgmap k2 p)\<rparr>"
  define k4 where "k4 = (if pagemap_type ch = MEMORY_DEVICE_PRIVATE
    then k3\<lparr>regions := regions k3 - {(range_start ch, range_end ch)}\<rparr> else k3)"
  define k5 where "k5 = k4\<lparr>chunks := (chunks k4)(c := None)\<rparr>"
  have k5: "chunks k5 = (chunks k)(c := None)" "zone_device_data k5 = zone_device_data k" "devs k5 = devs k2"
    "pgmap k5 = (\<lambda>p. if in_chunk ch p then None else pgmap k p)"
    by (simp_all add: k5_def k4_def k3_def r in_chunk_def cong: if_cong)
  have step: "remove_each d env (c # cs) k = remove_each d env cs k5"
    using ch r(1,2) by (simp add: Let_def k5_def k4_def k3_def)
  have apart: "\<not> in_chunk ch p" if "pgmap k p \<noteq> Some c" for p
    using Cons.prems(3) ch(1) that by (auto simp: ranges_ok_def)
  have "\<exists>k'. remove_each d env cs k5 = Some k' \<and> (\<forall>c. chunks k' c = (if c \<in> set cs then None else chunks k5 c))
    \<and> zone_device_type (devs k' d) = zone_device_type (devs k5 d) \<and> (\<forall>d'. d' \<noteq> d \<longrightarrow> devs k' d' = devs k5 d')
    \<and> zone_device_data k' = zone_device_data k5 \<and> ranges_ok k'
    \<and> (\<forall>p. pgmap k5 p \<notin> Some ` set cs \<longrightarrow> pgmap k' p = pgmap k5 p)"
  proof (rule Cons.IH [of k5 "kept c k ps"])
    show "chain (zone_device_data k5) (free_pages (devs k5 d)) (kept c k ps)" using r(6) by (simp add: k5)
    show "list_all (\<lambda>p. pgmap k5 p \<noteq> None) (kept c k ps)"
      using Cons.prems(2) kept_subset [of c k ps] apart kept_not_chunk [of _ c k ps]
      by (auto simp: k5 list_all_iff)
    show "ranges_ok k5"
      unfolding ranges_ok_def
    proof (intro allI impI)
      fix c' ch' p assume c': "chunks k5 c' = Some ch'" "in_chunk ch' p"
      then have "c' \<noteq> c" "chunks k c' = Some ch'" by (auto simp: k5 split: if_splits)
      with c'(2) Cons.prems(3) have "pgmap k p = Some c'" by (simp add: ranges_ok_def)
      with \<open>c' \<noteq> c\<close> apart [of p] show "pgmap k5 p = Some c'" by (simp add: k5)
    qed
    show "distinct cs" using Cons.prems(4) by simp
    show "\<forall>c\<in>set cs. \<exists>ch. chunks k5 c = Some ch \<and> chunk_dev ch = d"
      using Cons.prems(4,5) by (auto simp: k5)
    show "\<forall>c\<in>set cs. evict_ok (env c) c k5"
    proof
      fix c' assume c': "c' \<in> set cs"
      then have "c' \<noteq> c" and "evict_ok (env c') c' k" using Cons.prems(4,6) by auto
      then show "evict_ok (env c') c' k5"
        using apart by (auto simp: evict_ok_def k5 backed_def list_all_iff)
    qed
  qed
  then obtain k' where k': "remove_each d env cs k5 = Some k'" "\<forall>c. chunks k' c = (if c \<in> set cs then None else chunks k5 c)"
    "zone_device_type (devs k' d) = zone_device_type (devs k5 d)" "\<forall>d'. d' \<noteq> d \<longrightarrow> devs k' d' = devs k5 d'"
    "zone_device_data k' = zone_device_data k5" "ranges_ok k'" "\<forall>p. pgmap k5 p \<notin> Some ` set cs \<longrightarrow> pgmap k' p = pgmap k5 p"
    by blast
  have "pgmap k' p = pgmap k p" if "pgmap k p \<notin> Some ` set (c # cs)" for p
  proof -
    from that have "pgmap k p \<noteq> Some c" "pgmap k p \<notin> Some ` set cs" by auto
    with apart [of p] k'(7) show ?thesis by (simp add: k5)
  qed
  with k' r(7,8) show ?case unfolding step by (auto simp: k5)
qed simp

text \<open>The free list of another device survives.\<close>

lemma device_ok_other:
  assumes "device_ok d' k ps'" and "devs k' d' = devs k d'" and "zone_device_data k' = zone_device_data k"
    and "\<forall>c. chunks k' c = (if c \<in> C then None else chunks k c)"
    and "\<forall>p. pgmap k p \<notin> Some ` C \<longrightarrow> pgmap k' p = pgmap k p"
    and "\<forall>c\<in>C. \<exists>ch. chunks k c = Some ch \<and> chunk_dev ch = d" and "d' \<noteq> d"
  shows "device_ok d' k' ps'" "list_all (\<lambda>p. pgmap k p \<noteq> None) ps' \<Longrightarrow> list_all (\<lambda>p. pgmap k' p \<noteq> None) ps'"
proof -
  have own: "owned d' k' p \<and> pgmap k' p = pgmap k p" if o1: "owned d' k p" for p
  proof -
    obtain c ch where c: "pgmap k p = Some c" "chunks k c = Some ch" "chunk_dev ch = d'"
        "pagemap_type ch = MEMORY_DEVICE_PRIVATE" "\<not> remove ch"
      using o1 by (auto simp: owned_def dmirror_page_to_chunk_def split: option.splits)
    with assms(6,7) have "c \<notin> C" by auto
    then have "pgmap k p \<notin> Some ` C" using c(1) by auto
    with assms(5) have "pgmap k' p = pgmap k p" by blast
    with c \<open>c \<notin> C\<close> assms(4) show ?thesis by (simp add: owned_def dmirror_page_to_chunk_def)
  qed
  then show "device_ok d' k' ps'"
    using assms(1-3) by (auto simp: device_ok_def free_list_def list_all_iff)
  show "list_all (\<lambda>p. pgmap k p \<noteq> None) ps' \<Longrightarrow> list_all (\<lambda>p. pgmap k' p \<noteq> None) ps'"
    using assms(1) own by (auto simp: device_ok_def free_list_def list_all_iff)
qed

lemma remove_chunks_ok:
  assumes "device_ok d k ps" and "list_all (\<lambda>p. pgmap k p \<noteq> None) ps" and "ranges_ok k"
    and "distinct (chunk_ids (devs k d))"
    and "\<forall>c\<in>set (chunk_ids (devs k d)). \<exists>ch. chunks k c = Some ch \<and> chunk_dev ch = d"
    and "\<forall>c\<in>set (chunk_ids (devs k d)). evict_ok (env c) c k"
    and "devmem_chunks (devs k d) \<noteq> None \<or> ps = []"
  obtains k' where "dmirror_device_remove_chunks env d k = Some k'" "device_ok d k' []" "devmem_count (devs k' d) = 0"
    "devmem_chunks (devs k' d) = None" "\<forall>c. chunks k' c = (if c \<in> set (chunk_ids (devs k d)) then None else chunks k c)"
    "\<forall>d'. d' \<noteq> d \<longrightarrow> devs k' d' = devs k d'" "ranges_ok k'" "zone_device_data k' = zone_device_data k"
    "\<forall>p. pgmap k p \<notin> Some ` set (chunk_ids (devs k d)) \<longrightarrow> pgmap k' p = pgmap k p"
proof (cases "devmem_chunks (devs k d)")
  case None
  with assms have "dmirror_device_remove_chunks env d k = Some k" "device_ok d k []" "devmem_count (devs k d) = 0"
      "chunk_ids (devs k d) = []"
    by (auto simp: dmirror_device_remove_chunks_def chunk_ids_def device_ok_def array_ok_def)
  with None assms(3) that show ?thesis by simp
next
  case (Some cs)
  then have ids: "chunk_ids (devs k d) = take (unat (devmem_count (devs k d))) cs"
    by (simp add: chunk_ids_def)
  have "chain (zone_device_data k) (free_pages (devs k d)) ps"
    using assms(1) by (simp add: device_ok_def free_list_def)
  from remove_each_ok [OF this assms(2-6)] obtain k1 where
    k1: "remove_each d env (chunk_ids (devs k d)) k = Some k1"
    "\<forall>c. chunks k1 c = (if c \<in> set (chunk_ids (devs k d)) then None else chunks k c)"
    "zone_device_type (devs k1 d) = zone_device_type (devs k d)" "\<forall>d'. d' \<noteq> d \<longrightarrow> devs k1 d' = devs k d'"
    "zone_device_data k1 = zone_device_data k" "ranges_ok k1"
    "\<forall>p. pgmap k p \<notin> Some ` set (chunk_ids (devs k d)) \<longrightarrow> pgmap k1 p = pgmap k p"
    by blast
  have "dmirror_is_private_zone (devs k d)" using assms(1) by (simp add: device_ok_def)
  then have priv: "dmirror_is_private_zone (devs k1 d)" by (simp add: dmirror_is_private_zone_def k1(3))
  let ?k = "set_dev d (\<lambda>dv. dv\<lparr>devmem_count := 0, devmem_capacity := 0, free_pages := NULL, devmem_chunks := None\<rparr>) k1"
  show ?thesis
  proof (rule that)
    show "dmirror_device_remove_chunks env d k = Some ?k"
      using Some k1(1) by (simp add: dmirror_device_remove_chunks_def ids [symmetric])
    show "device_ok d ?k []"
      using priv by (simp add: device_ok_def free_list_def array_ok_def dmirror_is_private_zone_def)
    show "ranges_ok ?k" using k1(6) by (simp add: ranges_ok_def)
  qed (use k1 in simp_all)
qed



section \<open>Instances\<close>

text \<open>A device without chunks and an environment that grants everything asked for.\<close>

definition empty_device :: device where
  "empty_device = \<lparr>zone_device_type = 1, devmem_capacity = 0, devmem_count = 0, devmem_chunks = None,
     calloc = 0, cfree = 0, free_pages = NULL\<rparr>"

definition empty_kernel :: kernel where
  "empty_kernel = \<lparr>devs = (\<lambda>_. empty_device), chunks = Map.empty, zone_device_data = (\<lambda>_. NULL),
     pgmap = Map.empty, page_data = (\<lambda>_. []), sys_pages = {}, regions = {}\<rparr>"

definition granting :: chunk_env where
  "granting = \<lparr>e_kzalloc = Some 0, e_region = Some (0x100000000, 0x10FFFFFFF), e_krealloc = True, e_memremap = Remapped\<rparr>"

lemma empty_kernel_ok: "device_ok d empty_kernel []"
  by (simp add: device_ok_def free_list_def empty_kernel_def empty_device_def array_ok_def
      dmirror_is_private_zone_def HMM_DMIRROR_MEMORY_DEVICE_PRIVATE_def)

lemma granting_fresh: "fresh_chunk d granting empty_kernel"
  by (simp add: fresh_chunk_def granting_def empty_kernel_def empty_device_def list_all_iff)

theorem dmirror_allocate_chunk_ok_witness:
  "\<exists>k'. dmirror_allocate_chunk granting 0 False empty_kernel = Some (0, None, k') \<and> devmem_count (devs k' 0) = 1"
  using dmirror_allocate_chunk_ok [OF empty_kernel_ok granting_fresh, of 0]
  by (auto simp: empty_kernel_def empty_device_def)

theorem devmem_round_trip_witness:
  "\<exists>k1 k2. take_pages (\<lambda>e. dmirror_devmem_alloc_page e 0) [\<lparr>e_alloc_page = Some 99, e_chunk = granting\<rparr>] two_chunks = Some ([20], k1)
    \<and> put_pages dmirror_devmem_free [20] k1 = Some k2 \<and> device_ok 0 k2 [20, 10]"
  using devmem_round_trip [of 0 two_chunks "[20]" "[10]" "[\<lparr>e_alloc_page = Some 99, e_chunk = granting\<rparr>]" "[20]"]
    two_chunks_ok by simp

end
