(* ===== verification/Dmirror.thy ===== *)
theory Dmirror
  imports Devmem
begin

text \<open>
  The mirror of one process in \<open>hmm.c\<close>: the \<open>struct dmirror\<close> with its page table \<open>pt\<close>, kept coherent
  with the CPU's by the interval notifier, and the commands that read, write and take exclusive
  access through it. What the CPU does meanwhile is a list of events; what the kernel's functions
  return is an argument. Loops over retries end when the list of attempts given to them ends: the
  result \<open>None\<close> is a loop that is still running.
\<close>

unbundle bit_operations_syntax

section \<open>The mirror\<close>

definition DPT_XA_TAG_ATOMIC :: nat where "DPT_XA_TAG_ATOMIC = 1"

definition DPT_XA_TAG_WRITE :: nat where "DPT_XA_TAG_WRITE = 3"

text \<open>
  An entry of \<open>pt\<close> is a page with its tag (0 when untagged). Beside the \<open>struct dmirror\<close> the state has the
  number of its device, the notifier's sequence number and the page table of the mirrored process:
  the page of each virtual frame and whether it is writable.
\<close>

record mirror = kernel +
  mdevice :: nat
  pt :: "nat \<rightharpoonup> page \<times> nat"
  inv_seq :: nat
  cpu :: "nat \<rightharpoonup> page \<times> bool"

record hmm_pfn =
  hp_valid :: bool
  hp_error :: bool
  hp_write :: bool
  hp_page :: page
  hp_order :: nat

text \<open>The virtual frames from \<open>start >> PAGE_SHIFT\<close> up to, but not including, \<open>end >> PAGE_SHIFT\<close>.\<close>

definition pfn_range :: "u64 \<Rightarrow> u64 \<Rightarrow> nat list" where
  "pfn_range start fin = [unat (drop_bit PAGE_SHIFT start) ..< unat (drop_bit PAGE_SHIFT fin)]"

text \<open>\<open>xa_store\<close>, whose error code for a frame is given by \<open>xa\<close> (0 for success).\<close>

definition xa_store :: "(nat \<Rightarrow> int) \<Rightarrow> nat \<Rightarrow> page \<times> nat \<Rightarrow> mirror \<Rightarrow> int \<times> mirror" where
  "xa_store xa pfn entry m = (if xa pfn \<noteq> 0 then (xa pfn, m) else (0, m\<lparr>pt := (pt m)(pfn \<mapsto> entry)\<rparr>))"

section \<open>Invalidation\<close>

definition dmirror_do_update :: "u64 \<Rightarrow> u64 \<Rightarrow> mirror \<Rightarrow> mirror" where
  "dmirror_do_update start fin m = m\<lparr>pt := (\<lambda>pfn.
     if unat (drop_bit PAGE_SHIFT start) \<le> pfn \<and> pfn \<le> unat (drop_bit PAGE_SHIFT fin) then None else pt m pfn)\<rparr>"

record invalidation =
  inv_start :: u64
  inv_end :: u64
  inv_migrate :: bool
  inv_owner :: "nat option"
  inv_blockable :: bool
  inv_trylock :: bool
  inv_cur_seq :: nat

definition dmirror_interval_invalidate :: "invalidation \<Rightarrow> mirror \<Rightarrow> bool \<times> mirror" where
  "dmirror_interval_invalidate r m =
    (if inv_migrate r \<and> inv_owner r = Some (mdevice m) then (True, m)
     else if \<not> inv_blockable r \<and> \<not> inv_trylock r then (False, m)
     else let m = m\<lparr>inv_seq := inv_cur_seq r\<rparr>; m = dmirror_do_update (inv_start r) (inv_end r) m
          in (True, m))"

text \<open>
  What happens to the page table of the process: frames are unmapped after the notifiers have been
  told (with the next sequence number), an empty entry is filled, or an entry becomes writable.
\<close>

datatype cpu_event = Cpu_unmap u64 u64 | Cpu_map nat page bool | Cpu_upgrade nat

definition unmapping :: "u64 \<Rightarrow> u64 \<Rightarrow> mirror \<Rightarrow> invalidation" where
  "unmapping s e m = \<lparr>inv_start = s, inv_end = e, inv_migrate = False, inv_owner = None,
     inv_blockable = True, inv_trylock = False, inv_cur_seq = inv_seq m + 1\<rparr>"

fun cpu_step :: "cpu_event \<Rightarrow> mirror \<Rightarrow> mirror" where
  "cpu_step (Cpu_unmap s e) m =
    (let m = snd (dmirror_interval_invalidate (unmapping s e m) m)
     in m\<lparr>cpu := (\<lambda>pfn. if pfn \<in> set (pfn_range s e) then None else cpu m pfn)\<rparr>)"
| "cpu_step (Cpu_map pfn p w) m = (if cpu m pfn = None then m\<lparr>cpu := (cpu m)(pfn \<mapsto> (p, w))\<rparr> else m)"
| "cpu_step (Cpu_upgrade pfn) m =
    (case cpu m pfn of None \<Rightarrow> m | Some (p, w) \<Rightarrow> m\<lparr>cpu := (cpu m)(pfn \<mapsto> (p, True))\<rparr>)"

section \<open>Faulting a range in\<close>

fun do_fault_loop :: "(nat \<Rightarrow> int) \<Rightarrow> bool \<Rightarrow> nat list \<Rightarrow> hmm_pfn list \<Rightarrow> mirror \<Rightarrow> int \<times> mirror" where
  "do_fault_loop xa default_write (pfn # pfns) (e # es) m =
    (if \<not> hp_write e \<and> default_write then (- EFAULT, m)
     else let entry = (hp_page e, if hp_write e then DPT_XA_TAG_WRITE else 0)
     in case xa_store xa pfn entry m of (r, m) \<Rightarrow>
        if r \<noteq> 0 then (r, m) else do_fault_loop xa default_write pfns es m)"
| "do_fault_loop xa default_write _ _ m = (0, m)"

definition dmirror_do_fault ::
  "(nat \<Rightarrow> int) \<Rightarrow> bool \<Rightarrow> u64 \<Rightarrow> u64 \<Rightarrow> hmm_pfn list \<Rightarrow> mirror \<Rightarrow> int \<times> mirror" where
  "dmirror_do_fault xa default_write start fin pfns m = do_fault_loop xa default_write (pfn_range start fin) pfns m"

text \<open>
  One turn of the retry loop: whether the timeout has passed, what the CPU does between
  \<open>mmu_interval_read_begin\<close> and \<open>hmm_range_fault\<close> has looked at the page table, a code other than 0
  if \<open>hmm_range_fault\<close> is interrupted, and what the CPU does until the mutex is taken. When it is not
  interrupted \<open>hmm_range_fault\<close> is the parameter \<open>hrf\<close>: from the page table, the range and whether
  write access is requested it finds a code and the entries of the frames.
\<close>

record attempt =
  at_expired :: bool
  at_before :: "cpu_event list"
  at_ret :: int
  at_after :: "cpu_event list"

type_synonym range_walk = "(nat \<rightharpoonup> page \<times> bool) \<Rightarrow> u64 \<Rightarrow> u64 \<Rightarrow> bool \<Rightarrow> int \<times> hmm_pfn list"

fun dmirror_range_fault ::
  "range_walk \<Rightarrow> (nat \<Rightarrow> int) \<Rightarrow> bool \<Rightarrow> u64 \<Rightarrow> u64 \<Rightarrow> attempt list \<Rightarrow> mirror \<Rightarrow> (int \<times> mirror) option"
where
  "dmirror_range_fault hrf xa write start fin [] m = None"
| "dmirror_range_fault hrf xa write start fin (a # ats) m =
    (if at_expired a then Some (- EBUSY, m)
     else let notifier_seq = inv_seq m;
              m = fold cpu_step (at_before a) m;
              (ret, pfns) = (if at_ret a \<noteq> 0 then (at_ret a, []) else hrf (cpu m) start fin write);
              m = fold cpu_step (at_after a) m
     in if ret \<noteq> 0
        then (if ret = - EBUSY then dmirror_range_fault hrf xa write start fin ats m else Some (ret, m))
        else if inv_seq m \<noteq> notifier_seq then dmirror_range_fault hrf xa write start fin ats m
        else Some (dmirror_do_fault xa write start fin pfns m))"

text \<open>The loop of \<open>dmirror_fault\<close> over pieces of 64 pages, with the attempts for each piece.\<close>

definition next_piece :: "u64 \<Rightarrow> u64 \<Rightarrow> u64" where
  "next_piece addr fin = min (addr + push_bit PAGE_SHIFT 64) fin"

fun fault_loop ::
  "range_walk \<Rightarrow> (nat \<Rightarrow> int) \<Rightarrow> bool \<Rightarrow> u64 \<Rightarrow> attempt list list \<Rightarrow> u64 \<Rightarrow> mirror \<Rightarrow> (int \<times> mirror) option"
where
  "fault_loop hrf xa write fin [] addr m = (if addr < fin then None else Some (0, m))"
| "fault_loop hrf xa write fin (ats # rest) addr m =
    (if addr < fin
     then (case dmirror_range_fault hrf xa write addr (next_piece addr fin) ats m of
             None \<Rightarrow> None
           | Some (r, m) \<Rightarrow> if r \<noteq> 0 then Some (r, m) else fault_loop hrf xa write fin rest (next_piece addr fin) m)
     else Some (0, m))"

definition dmirror_fault ::
  "range_walk \<Rightarrow> (nat \<Rightarrow> int) \<Rightarrow> bool \<Rightarrow> attempt list list \<Rightarrow> u64 \<Rightarrow> u64 \<Rightarrow> bool \<Rightarrow> mirror \<Rightarrow> (int \<times> mirror) option"
where
  "dmirror_fault hrf xa mmget_not_zero pieces start fin write m =
    (if \<not> mmget_not_zero then Some (0, m) else fault_loop hrf xa write fin pieces start m)"

section \<open>Reading and writing through the mirror\<close>

record bounce =
  b_ptr :: "u8 list list"
  b_size :: u64
  b_addr :: u64
  b_cpages :: u64

text \<open>\<open>vmalloc\<close> fails or returns pages with any content, \<open>junk\<close>.\<close>

definition dmirror_bounce_init :: "(nat \<Rightarrow> u8 list) option \<Rightarrow> u64 \<Rightarrow> u64 \<Rightarrow> int \<times> bounce" where
  "dmirror_bounce_init vmalloc addr nbytes =
    (case vmalloc of
       None \<Rightarrow> (- ENOMEM, \<lparr>b_ptr = [], b_size = nbytes, b_addr = addr, b_cpages = 0\<rparr>)
     | Some junk \<Rightarrow> (0, \<lparr>b_ptr = map junk [0..<unat (drop_bit PAGE_SHIFT nbytes)], b_size = nbytes, b_addr = addr, b_cpages = 0\<rparr>))"

definition bounce_index :: "u64 \<Rightarrow> bounce \<Rightarrow> nat" where
  "bounce_index start b = unat (drop_bit PAGE_SHIFT ((start - b_addr b) AND PAGE_MASK))"

fun do_read_loop :: "nat list \<Rightarrow> nat \<Rightarrow> mirror \<Rightarrow> bounce \<Rightarrow> int \<times> bounce" where
  "do_read_loop [] i m b = (0, b)"
| "do_read_loop (pfn # pfns) i m b =
    (case pt m pfn of
       None \<Rightarrow> (- ENOENT, b)
     | Some (page, tag) \<Rightarrow>
         do_read_loop pfns (i + 1) m (b\<lparr>b_ptr := (b_ptr b)[i := page_data m page], b_cpages := b_cpages b + 1\<rparr>))"

definition dmirror_do_read :: "u64 \<Rightarrow> u64 \<Rightarrow> mirror \<Rightarrow> bounce \<Rightarrow> int \<times> bounce" where
  "dmirror_do_read start fin m b = do_read_loop (pfn_range start fin) (bounce_index start b) m b"

fun do_write_loop :: "nat list \<Rightarrow> nat \<Rightarrow> mirror \<Rightarrow> bounce \<Rightarrow> int \<times> mirror \<times> bounce" where
  "do_write_loop [] i m b = (0, m, b)"
| "do_write_loop (pfn # pfns) i m b =
    (case pt m pfn of
       None \<Rightarrow> (- ENOENT, m, b)
     | Some (page, tag) \<Rightarrow>
         if tag \<noteq> DPT_XA_TAG_WRITE then (- ENOENT, m, b)
         else do_write_loop pfns (i + 1) (m\<lparr>page_data := (page_data m)(page := b_ptr b ! i)\<rparr>)
                (b\<lparr>b_cpages := b_cpages b + 1\<rparr>))"

definition dmirror_do_write :: "u64 \<Rightarrow> u64 \<Rightarrow> mirror \<Rightarrow> bounce \<Rightarrow> int \<times> mirror \<times> bounce" where
  "dmirror_do_write start fin m b = do_write_loop (pfn_range start fin) (bounce_index start b) m b"

record hmm_dmirror_cmd =
  c_addr :: u64
  c_ptr :: u64
  c_npages :: u64
  c_cpages :: u64
  c_faults :: u64

text \<open>
  One round of the loops of \<open>dmirror_read\<close> and \<open>dmirror_write\<close>: whether the process's memory still
  exists, the attempts of \<open>dmirror_fault\<close>, and what the CPU does until the mutex is taken again.
\<close>

record round =
  rd_alive :: bool
  rd_pieces :: "attempt list list"
  rd_after :: "cpu_event list"

fun read_loop ::
  "range_walk \<Rightarrow> (nat \<Rightarrow> int) \<Rightarrow> u64 \<Rightarrow> u64 \<Rightarrow> round list \<Rightarrow> u64 \<Rightarrow> mirror \<Rightarrow> bounce \<Rightarrow> u64
    \<Rightarrow> (int \<times> mirror \<times> bounce \<times> u64) option"
where
  "read_loop hrf xa addr fin [] start m b faults =
    (case dmirror_do_read start fin m b of (ret, b) \<Rightarrow>
       if ret \<noteq> - ENOENT then Some (ret, m, b, faults) else None)"
| "read_loop hrf xa addr fin (r # rs) start m b faults =
    (case dmirror_do_read start fin m b of (ret, b) \<Rightarrow>
       if ret \<noteq> - ENOENT then Some (ret, m, b, faults)
       else let start = addr + push_bit PAGE_SHIFT (b_cpages b)
       in case dmirror_fault hrf xa (rd_alive r) (rd_pieces r) start fin False m of
            None \<Rightarrow> None
          | Some (ret, m) \<Rightarrow>
              if ret \<noteq> 0 then Some (ret, m, b, faults)
              else read_loop hrf xa addr fin rs start (fold cpu_step (rd_after r) m) b (faults + 1))"

fun write_loop ::
  "range_walk \<Rightarrow> (nat \<Rightarrow> int) \<Rightarrow> u64 \<Rightarrow> u64 \<Rightarrow> round list \<Rightarrow> u64 \<Rightarrow> mirror \<Rightarrow> bounce \<Rightarrow> u64
    \<Rightarrow> (int \<times> mirror \<times> bounce \<times> u64) option"
where
  "write_loop hrf xa addr fin [] start m b faults =
    (case dmirror_do_write start fin m b of (ret, m, b) \<Rightarrow>
       if ret \<noteq> - ENOENT then Some (ret, m, b, faults) else None)"
| "write_loop hrf xa addr fin (r # rs) start m b faults =
    (case dmirror_do_write start fin m b of (ret, m, b) \<Rightarrow>
       if ret \<noteq> - ENOENT then Some (ret, m, b, faults)
       else let start = addr + push_bit PAGE_SHIFT (b_cpages b)
       in case dmirror_fault hrf xa (rd_alive r) (rd_pieces r) start fin True m of
            None \<Rightarrow> None
          | Some (ret, m) \<Rightarrow>
              if ret \<noteq> 0 then Some (ret, m, b, faults)
              else write_loop hrf xa addr fin rs start (fold cpu_step (rd_after r) m) b (faults + 1))"

record io_env =
  io_vmalloc :: "(nat \<Rightarrow> u8 list) option"
  io_rounds :: "round list"
  io_copy :: bool

text \<open>The last component of the result is what \<open>copy_to_user\<close> has written to \<open>cmd->ptr\<close>.\<close>

definition dmirror_read ::
  "range_walk \<Rightarrow> (nat \<Rightarrow> int) \<Rightarrow> io_env \<Rightarrow> hmm_dmirror_cmd \<Rightarrow> mirror \<Rightarrow> (int \<times> hmm_dmirror_cmd \<times> mirror \<times> u8 list list option) option"
where
  "dmirror_read hrf xa e cmd m =
    (let nbytes = push_bit PAGE_SHIFT (c_npages cmd);
         start = c_addr cmd;
         fin = start + nbytes
     in if fin < start then Some (- EINVAL, cmd, m, None)
     else case dmirror_bounce_init (io_vmalloc e) start nbytes of (ret, b) \<Rightarrow>
     if ret \<noteq> 0 then Some (ret, cmd, m, None)
     else case read_loop hrf xa start fin (io_rounds e) start m b (c_faults cmd) of
       None \<Rightarrow> None
     | Some (ret, m, b, faults) \<Rightarrow>
         let cmd = cmd\<lparr>c_faults := faults, c_cpages := b_cpages b\<rparr>
         in if ret = 0 then (if io_copy e then Some (0, cmd, m, Some (b_ptr b)) else Some (- EFAULT, cmd, m, None))
            else Some (ret, cmd, m, None))"

text \<open>\<open>input\<close> is what \<open>copy_from_user\<close> finds at \<open>cmd->ptr\<close>, or \<open>None\<close> when it faults.\<close>

definition dmirror_write ::
  "range_walk \<Rightarrow> (nat \<Rightarrow> int) \<Rightarrow> io_env \<Rightarrow> u8 list list option \<Rightarrow> hmm_dmirror_cmd \<Rightarrow> mirror \<Rightarrow> (int \<times> hmm_dmirror_cmd \<times> mirror) option"
where
  "dmirror_write hrf xa e input cmd m =
    (let nbytes = push_bit PAGE_SHIFT (c_npages cmd);
         start = c_addr cmd;
         fin = start + nbytes
     in if fin < start then Some (- EINVAL, cmd, m)
     else case dmirror_bounce_init (io_vmalloc e) start nbytes of (ret, b) \<Rightarrow>
     if ret \<noteq> 0 then Some (ret, cmd, m)
     else case input of
       None \<Rightarrow> Some (- EFAULT, cmd\<lparr>c_cpages := b_cpages b\<rparr>, m)
     | Some pages \<Rightarrow>
     let b = b\<lparr>b_ptr := pages\<rparr>
     in case write_loop hrf xa start fin (io_rounds e) start m b (c_faults cmd) of
       None \<Rightarrow> None
     | Some (ret, m, b, faults) \<Rightarrow> Some (ret, cmd\<lparr>c_faults := faults, c_cpages := b_cpages b\<rparr>, m))"

section \<open>Exclusive access\<close>

definition dmirror_check_atomic :: "u64 \<Rightarrow> u64 \<Rightarrow> mirror \<Rightarrow> int" where
  "dmirror_check_atomic start fin m =
    (if list_ex (\<lambda>pfn. map_option snd (pt m pfn) = Some DPT_XA_TAG_ATOMIC) (pfn_range start fin) then - EPERM else 0)"

text \<open>\<open>mapped\<close> counts the entries stored.\<close>

fun atomic_map_loop :: "(nat \<Rightarrow> int) \<Rightarrow> nat list \<Rightarrow> page option list \<Rightarrow> int \<Rightarrow> mirror \<Rightarrow> int \<times> mirror" where
  "atomic_map_loop xa (pfn # pfns) (p # ps) mapped m =
    (case p of
       None \<Rightarrow> atomic_map_loop xa pfns ps mapped m
     | Some page \<Rightarrow>
         (case xa_store xa pfn (page, DPT_XA_TAG_ATOMIC) m of (r, m) \<Rightarrow>
            if r \<noteq> 0 then (r, m) else atomic_map_loop xa pfns ps (mapped + 1) m))"
| "atomic_map_loop xa _ _ mapped m = (mapped, m)"

definition dmirror_atomic_map :: "(nat \<Rightarrow> int) \<Rightarrow> u64 \<Rightarrow> u64 \<Rightarrow> page option list \<Rightarrow> mirror \<Rightarrow> int \<times> mirror" where
  "dmirror_atomic_map xa start fin pages m = atomic_map_loop xa (pfn_range start fin) pages 0 m"

text \<open>
  The result of \<open>make_device_exclusive_range\<close> for each piece, and the pages it has filled in. The
  code's test for the last piece and \<open>min\<close> agree.
\<close>

fun exclusive_loop ::
  "(nat \<Rightarrow> int) \<Rightarrow> u64 \<Rightarrow> (int \<times> page option list) list \<Rightarrow> u64 \<Rightarrow> mirror \<Rightarrow> (int \<times> mirror) option"
where
  "exclusive_loop xa fin [] addr m = (if addr < fin then None else Some (0, m))"
| "exclusive_loop xa fin ((ret, pages) # rest) addr m =
    (if addr < fin
     then let nxt = (if fin < addr + push_bit PAGE_SHIFT 64 then fin else addr + push_bit PAGE_SHIFT 64);
              (mapped, m) = (if word_of_int ret = drop_bit PAGE_SHIFT (nxt - addr)
                             then dmirror_atomic_map xa addr nxt pages m else (0, m))
          in if addr + push_bit PAGE_SHIFT (word_of_int mapped) < nxt then Some (- EBUSY, m)
             else exclusive_loop xa fin rest nxt m
     else Some (0, m))"

record exclusive_env =
  ex_alive :: bool
  ex_pieces :: "(int \<times> page option list) list"
  ex_vmalloc :: "(nat \<Rightarrow> u8 list) option"
  ex_copy :: bool

text \<open>The end of \<open>dmirror_exclusive\<close> and of \<open>dmirror_migrate_to_device\<close>: read the range back for the caller.\<close>

definition read_back ::
  "(nat \<Rightarrow> u8 list) option \<Rightarrow> bool \<Rightarrow> u64 \<Rightarrow> u64 \<Rightarrow> u64 \<Rightarrow> hmm_dmirror_cmd \<Rightarrow> mirror \<Rightarrow> int \<times> hmm_dmirror_cmd \<times> mirror \<times> u8 list list option"
where
  "read_back vmalloc copy start nbytes fin cmd m =
    (case dmirror_bounce_init vmalloc start nbytes of (ret, b) \<Rightarrow>
     if ret \<noteq> 0 then (ret, cmd, m, None)
     else case dmirror_do_read start fin m b of (ret, b) \<Rightarrow>
       let cmd = cmd\<lparr>c_cpages := b_cpages b\<rparr>
       in if ret = 0 then (if copy then (0, cmd, m, Some (b_ptr b)) else (- EFAULT, cmd, m, None))
          else (ret, cmd, m, None))"

definition dmirror_exclusive ::
  "(nat \<Rightarrow> int) \<Rightarrow> exclusive_env \<Rightarrow> hmm_dmirror_cmd \<Rightarrow> mirror \<Rightarrow> (int \<times> hmm_dmirror_cmd \<times> mirror \<times> u8 list list option) option"
where
  "dmirror_exclusive xa e cmd m =
    (let nbytes = push_bit PAGE_SHIFT (c_npages cmd);
         start = c_addr cmd;
         fin = start + nbytes
     in if fin < start then Some (- EINVAL, cmd, m, None)
     else if \<not> ex_alive e then Some (- EINVAL, cmd, m, None)
     else case exclusive_loop xa fin (ex_pieces e) start m of
       None \<Rightarrow> None
     | Some (ret, m) \<Rightarrow>
         if ret \<noteq> 0 then Some (ret, cmd, m, None)
         else Some (read_back (ex_vmalloc e) (ex_copy e) start nbytes fin cmd m))"

section \<open>Page addresses\<close>

definition page_addr :: "nat \<Rightarrow> u64" where
  "page_addr n = word_of_nat (4096 * n)"

lemma unat_page_addr: "n < 2 ^ 52 \<Longrightarrow> unat (page_addr n) = 4096 * n"
  unfolding page_addr_def unsigned_of_nat by (simp add: take_bit_nat_eq_self)

lemma page_addr_shift [simp]: "n < 2 ^ 52 \<Longrightarrow> unat (drop_bit PAGE_SHIFT (page_addr n)) = n"
  using unat_page_addr [of n] by (simp add: unat_shift_page)

lemma page_addr_add: "page_addr a + page_addr b = page_addr (a + b)"
  by (simp add: page_addr_def distrib_left)

lemma page_addr_diff: "page_addr (a + b) - page_addr a = page_addr b"
  by (simp add: page_addr_add [symmetric])

lemma push_bit_page: "push_bit PAGE_SHIFT (w :: u64) = page_addr (unat w)"
  by (simp add: page_addr_def push_bit_eq_mult mult.commute)

lemma page_addr_less: "a < 2 ^ 52 \<Longrightarrow> b < 2 ^ 52 \<Longrightarrow> page_addr a < page_addr b \<longleftrightarrow> a < b"
  by (simp add: word_less_nat_alt unat_page_addr)

lemma page_addr_le: "a < 2 ^ 52 \<Longrightarrow> b < 2 ^ 52 \<Longrightarrow> page_addr a \<le> page_addr b \<longleftrightarrow> a \<le> b"
  by (simp add: word_le_nat_alt unat_page_addr)

lemma pfn_range_page: "a < 2 ^ 52 \<Longrightarrow> b < 2 ^ 52 \<Longrightarrow> pfn_range (page_addr a) (page_addr b) = [a..<b]"
  by (simp add: pfn_range_def)

lemma next_piece_page:
  "a < b \<Longrightarrow> b + 64 \<le> 2 ^ 52 \<Longrightarrow> next_piece (page_addr a) (page_addr b) = page_addr (min (a + 64) b)"
  unfolding next_piece_def push_bit_page
  by (simp add: page_addr_add min_def page_addr_le)

lemma uint_page_div: "(4096 * (uint w div 4096) = uint w) = (4096 * (unat w div 4096) = unat w)" for w :: u64
proof -
  have "4096 * (uint w div 4096) = int (4096 * (unat w div 4096))"
    by (simp only: of_nat_mult of_nat_div uint_nat of_nat_numeral)
  then show ?thesis by (simp only: uint_nat of_nat_eq_iff)
qed

lemma page_addr_mask: "page_addr n AND PAGE_MASK = page_addr n"
proof -
  have "unat (page_addr n) mod 4096 = 0"
    unfolding page_addr_def unsigned_of_nat take_bit_nat_def by (simp add: mod_mod_cancel)
  then have "4096 * (unat (page_addr n) div 4096) = unat (page_addr n)" by (metis add_0_right mult_div_mod_eq)
  then have "4096 * (uint (page_addr n) div 4096) = uint (page_addr n)" by (simp only: uint_page_div)
  then have "uint (page_addr n AND PAGE_MASK) = uint (page_addr n)" by (simp only: and_PAGE_MASK)
  then show ?thesis by (simp only: word_uint_eq_iff)
qed

lemma aligned_page_addr:
  assumes "a AND NOT PAGE_MASK = (0 :: u64)"
  shows "a = page_addr (unat a div 4096)"
proof -
  have "a = (a AND PAGE_MASK) OR (a AND NOT PAGE_MASK)"
    by (simp add: bit_eq_iff bit_simps) blast
  then have "a AND PAGE_MASK = a" using assms by simp
  then have "4096 * (uint a div 4096) = uint a" using and_PAGE_MASK [of a] by simp
  then have "4096 * (unat a div 4096) = unat a" by (simp only: uint_page_div)
  then have "page_addr (unat a div 4096) = word_of_nat (unat a)" by (simp only: page_addr_def)
  then show ?thesis by simp
qed

lemma bounce_index_page:
  "b_addr b = page_addr a \<Longrightarrow> n < 2 ^ 52 \<Longrightarrow> bounce_index (page_addr (a + n)) b = n"
  by (simp add: bounce_index_def page_addr_diff page_addr_mask)

end
