(* ===== verification/Dmirror_Coherence.thy ===== *)
theory Dmirror_Coherence
  imports Dmirror
begin

text \<open>
  The mirror stays coherent with the page table of the process, whatever the process does between the
  steps of a fault (\<open>dmirror_range_fault\<close>, \<open>dmirror_fault\<close>, \<open>dmirror_interval_invalidate\<close>); a successful
  fault leaves the whole range mirrored. A locale states what the loops over pieces of 64 pages share.
\<close>

section \<open>Contract: a loop over pieces\<close>

text \<open>
  \<open>loop fin es addr s\<close> runs \<open>step e\<close> on one piece after the other, until \<open>addr\<close> has reached \<open>fin\<close> or a step
  returns an error; \<open>es\<close> holds what the environment does for each piece.
\<close>

locale piecewise =
  fixes step :: "'e \<Rightarrow> u64 \<Rightarrow> u64 \<Rightarrow> 's \<Rightarrow> (int \<times> 's) option"
    and loop :: "u64 \<Rightarrow> 'e list \<Rightarrow> u64 \<Rightarrow> 's \<Rightarrow> (int \<times> 's) option"
  assumes loop_Nil: "loop fin [] addr s = (if addr < fin then None else Some (0, s))"
    and loop_Cons: "loop fin (e # es) addr s =
      (if addr < fin
       then (case step e addr (next_piece addr fin) s of
               None \<Rightarrow> None
             | Some (r, s) \<Rightarrow> if r \<noteq> 0 then Some (r, s) else loop fin es (next_piece addr fin) s)
       else Some (0, s))"
begin

lemma invariant:
  assumes "loop fin es addr s = Some (r, s')" and "P s"
    and step: "\<And>e a b s r s'. P s \<Longrightarrow> step e a b s = Some (r, s') \<Longrightarrow> P s'"
  shows "P s'"
  using assms(1,2)
proof (induction es arbitrary: addr s)
  case Nil
  then show ?case by (simp add: loop_Nil split: if_splits)
next
  case (Cons e es)
  then show ?case by (auto simp: loop_Cons split: if_splits option.splits dest: step)
qed

text \<open>
  What each step achieves for the frames of its piece, and later steps keep, holds of the whole range
  at the end.
\<close>

lemma covers:
  assumes "loop (page_addr b) es (page_addr a) s = Some (0, s')" and "P s" and "b + 64 \<le> 2 ^ 52" and "a \<le> b"
    and "list_all ok es"
    and step: "\<And>e x y s s'. ok e \<Longrightarrow> P s \<Longrightarrow> a \<le> x \<Longrightarrow> x < y \<Longrightarrow> y \<le> b \<Longrightarrow>
      step e (page_addr x) (page_addr y) s = Some (0, s') \<Longrightarrow>
      P s' \<and> (\<forall>n. x \<le> n \<and> n < y \<longrightarrow> R n s') \<and> (\<forall>n. R n s \<longrightarrow> R n s')"
  shows "P s' \<and> (\<forall>n. a \<le> n \<and> n < b \<longrightarrow> R n s')"
proof -
  have gen: "loop (page_addr b) es (page_addr x) s = Some (0, s') \<Longrightarrow> P s \<Longrightarrow> a \<le> x \<Longrightarrow> x \<le> b
    \<Longrightarrow> list_all ok es \<Longrightarrow> \<forall>n. a \<le> n \<and> n < x \<longrightarrow> R n s \<Longrightarrow> P s' \<and> (\<forall>n. a \<le> n \<and> n < b \<longrightarrow> R n s')" for x
  proof (induction es arbitrary: x s)
    case Nil
    then show ?case using assms(3) by (auto simp: loop_Nil page_addr_less split: if_splits)
  next
    case (Cons e es)
    show ?case
    proof (cases "x < b")
      case False
      with Cons.prems assms(3) show ?thesis by (auto simp: loop_Cons page_addr_less)
    next
      case True
      let ?y = "min (x + 64) b"
      have nxt: "next_piece (page_addr x) (page_addr b) = page_addr ?y"
        using True assms(3) by (rule next_piece_page)
      from Cons.prems(1) True assms(3) obtain s1 where
        st: "step e (page_addr x) (page_addr ?y) s = Some (0, s1)"
        and lp: "loop (page_addr b) es (page_addr ?y) s1 = Some (0, s')"
        by (auto simp: loop_Cons page_addr_less nxt split: option.splits if_splits)
      have new: "P s1" "\<forall>n. x \<le> n \<and> n < ?y \<longrightarrow> R n s1" "\<forall>n. R n s \<longrightarrow> R n s1"
        using step [OF _ Cons.prems(2,3) _ _ st] Cons.prems(5) True by simp_all
      have "\<forall>n. a \<le> n \<and> n < ?y \<longrightarrow> R n s1"
        using new(2,3) Cons.prems(6) by (metis not_less)
      from Cons.IH [OF lp new(1) _ _ _ this] Cons.prems(3,4,5) show ?thesis by simp
    qed
  qed
  show ?thesis by (rule gen [OF assms(1,2) order_refl assms(4,5)]) auto
qed

text \<open>A range of \<open>n\<close> pages takes at most \<open>(n + 63) div 64\<close> pieces.\<close>

lemma returns:
  assumes "P s" and "b + 64 \<le> 2 ^ 52" and "a \<le> b" and "b - a \<le> 64 * length es" and "list_all ok es"
    and step: "\<And>e x y s. ok e \<Longrightarrow> P s \<Longrightarrow> a \<le> x \<Longrightarrow> x < y \<Longrightarrow> y \<le> b \<Longrightarrow> \<exists>s'. step e (page_addr x) (page_addr y) s = Some (0, s') \<and> P s'"
  shows "\<exists>s'. loop (page_addr b) es (page_addr a) s = Some (0, s') \<and> P s'"
proof -
  have "P s \<Longrightarrow> a \<le> c \<Longrightarrow> c \<le> b \<Longrightarrow> b - c \<le> 64 * length es \<Longrightarrow> list_all ok es
    \<Longrightarrow> \<exists>s'. loop (page_addr b) es (page_addr c) s = Some (0, s') \<and> P s'" for c
  proof (induction es arbitrary: c s)
    case Nil
    then show ?case by (simp add: loop_Nil)
  next
    case (Cons e es)
    show ?case
    proof (cases "c < b")
      case False
      with Cons.prems show ?thesis by (simp add: loop_Cons)
    next
      case True
      then have nxt: "next_piece (page_addr c) (page_addr b) = page_addr (min (c + 64) b)"
        using assms(2) by (rule next_piece_page)
      obtain s1 where "step e (page_addr c) (page_addr (min (c + 64) b)) s = Some (0, s1)" "P s1"
        using step [of e s c "min (c + 64) b"] Cons.prems True by auto
      with Cons.IH [of s1 "min (c + 64) b"] Cons.prems True assms(2) show ?thesis
        by (simp add: loop_Cons page_addr_less nxt)
    qed
  qed
  from this [of a] assms show ?thesis by simp
qed

end

interpretation fault_pieces: piecewise
  "\<lambda>ats a b. dmirror_range_fault hrf xa wr a b ats" "\<lambda>fin ats addr. fault_loop hrf xa wr fin ats addr"
  for hrf xa wr
  by unfold_locales simp_all

section \<open>Coherence\<close>

text \<open>
  Every entry of the mirror names the page the process has at that address, and is tagged writable
  only if the process may write it.
\<close>

definition coherent :: "mirror \<Rightarrow> bool" where
  "coherent m \<longleftrightarrow> (\<forall>pfn p t. pt m pfn = Some (p, t) \<longrightarrow>
     (\<exists>w. cpu m pfn = Some (p, w) \<and> (t = DPT_XA_TAG_WRITE \<longrightarrow> w)))"

lemma coherentD:
  "coherent m \<Longrightarrow> pt m pfn = Some (p, t) \<Longrightarrow> \<exists>w. cpu m pfn = Some (p, w) \<and> (t = DPT_XA_TAG_WRITE \<longrightarrow> w)"
  unfolding coherent_def by blast

text \<open>
  What \<open>hmm_range_fault\<close> promises: on success every frame of the range has a page with the access asked
  for, and the entries say which. \<open>cpu_walk\<close> is such a function.
\<close>

definition hrf_ok :: "range_walk \<Rightarrow> bool" where
  "hrf_ok hrf \<longleftrightarrow> (\<forall>c s e write pfns. hrf c s e write = (0, pfns) \<longrightarrow>
     list_all2 (\<lambda>pfn h. \<exists>w. c pfn = Some (hp_page h, w) \<and> hp_write h = w \<and> (write \<longrightarrow> w)) (pfn_range s e) pfns)"

definition cpu_walk :: range_walk where
  "cpu_walk c s e write =
    (if list_all (\<lambda>pfn. case c pfn of None \<Rightarrow> False | Some (p, w) \<Rightarrow> write \<longrightarrow> w) (pfn_range s e)
     then (0, map (\<lambda>pfn. case c pfn of None \<Rightarrow> \<lparr>hp_valid = False, hp_error = True, hp_write = False, hp_page = 0, hp_order = 0\<rparr>
        | Some (p, w) \<Rightarrow> \<lparr>hp_valid = True, hp_error = False, hp_write = w, hp_page = p, hp_order = 0\<rparr>) (pfn_range s e))
     else (- EFAULT, []))"

lemma cpu_walk_ok: "hrf_ok cpu_walk"
  by (auto simp: hrf_ok_def cpu_walk_def list_all2_map2 list_all2_same list_all_iff split: if_splits option.splits)

lemma coherent_unmap:
  assumes "coherent m"
  shows "coherent (cpu_step (Cpu_unmap s e) m)"
proof -
  have "pfn \<in> set (pfn_range s e) \<Longrightarrow>
    unat (drop_bit PAGE_SHIFT s) \<le> pfn \<and> pfn \<le> unat (drop_bit PAGE_SHIFT e)" for pfn
    by (simp add: pfn_range_def)
  with assms show ?thesis
    by (auto simp: coherent_def dmirror_interval_invalidate_def dmirror_do_update_def unmapping_def Let_def)
qed

lemma coherent_cpu_step: "coherent m \<Longrightarrow> coherent (cpu_step e m)"
proof (cases e)
  case (Cpu_map pfn p w)
  then show "coherent m \<Longrightarrow> coherent (cpu_step e m)" by (fastforce simp: coherent_def)
next
  case (Cpu_upgrade pfn)
  then show "coherent m \<Longrightarrow> coherent (cpu_step e m)"
    by (fastforce simp: coherent_def split: option.splits)
qed (use coherent_unmap in simp)

lemma coherent_cpu_steps: "coherent m \<Longrightarrow> coherent (fold cpu_step es m)"
  by (induction es arbitrary: m) (simp_all add: coherent_cpu_step)

text \<open>As long as nothing is unmapped, mapped frames keep their page and do not lose access.\<close>

definition kept_mapped :: "mirror \<Rightarrow> mirror \<Rightarrow> bool" where
  "kept_mapped m m' \<longleftrightarrow> (\<forall>pfn p w. cpu m pfn = Some (p, w) \<longrightarrow> (\<exists>w'. cpu m' pfn = Some (p, w') \<and> (w \<longrightarrow> w')))"

lemma kept_mapped_refl [simp]: "kept_mapped m m"
  by (simp add: kept_mapped_def)

lemma kept_mapped_trans: "kept_mapped a b \<Longrightarrow> kept_mapped b c \<Longrightarrow> kept_mapped a c"
  by (simp add: kept_mapped_def) meson

lemma cpu_step_seq:
  "inv_seq m \<le> inv_seq (cpu_step e m)"
  "inv_seq (cpu_step e m) = inv_seq m \<Longrightarrow> kept_mapped m (cpu_step e m)"
  by (cases e; auto simp: kept_mapped_def dmirror_interval_invalidate_def dmirror_do_update_def unmapping_def
      Let_def split: option.splits)+

lemma cpu_steps_seq: "inv_seq m \<le> inv_seq (fold cpu_step es m)"
proof (induction es arbitrary: m)
  case (Cons e es)
  from Cons [of "cpu_step e m"] cpu_step_seq(1) [of m e] show ?case by simp
qed simp

lemma cpu_steps_kept: "inv_seq (fold cpu_step es m) = inv_seq m \<Longrightarrow> kept_mapped m (fold cpu_step es m)"
proof (induction es arbitrary: m)
  case (Cons e es)
  have "inv_seq (cpu_step e m) = inv_seq m"
    using Cons.prems cpu_step_seq(1) [of m e] cpu_steps_seq [of "cpu_step e m" es] by simp
  with Cons cpu_step_seq(2) [of e m] kept_mapped_trans show ?case by simp
qed simp

section \<open>Faults\<close>

definition mirrored :: "bool \<Rightarrow> nat \<Rightarrow> mirror \<Rightarrow> bool" where
  "mirrored wr pfn m \<longleftrightarrow> (\<exists>p t. pt m pfn = Some (p, t) \<and> (wr \<longrightarrow> t = DPT_XA_TAG_WRITE))"

lemma do_fault_loop_cpu:
  "do_fault_loop xa wr pfns hs m = (r, m') \<Longrightarrow> cpu m' = cpu m \<and> inv_seq m' = inv_seq m
     \<and> page_data m' = page_data m \<and> (\<forall>pfn. pfn \<notin> set pfns \<longrightarrow> pt m' pfn = pt m pfn)"
  by (induction xa wr pfns hs m rule: do_fault_loop.induct)
    (auto simp: xa_store_def Let_def split: if_splits)

lemma do_fault_loop_ok:
  assumes "do_fault_loop xa wr pfns hs m = (r, m')" and "coherent m" and "distinct pfns"
    and "list_all2 (\<lambda>pfn h. \<exists>w. cpu m pfn = Some (hp_page h, w) \<and> (hp_write h \<longrightarrow> w) \<and> (wr \<longrightarrow> hp_write h)) pfns hs"
  shows "coherent m' \<and> (r = 0 \<longrightarrow> (\<forall>pfn\<in>set pfns. mirrored wr pfn m'))"
  using assms
proof (induction xa wr pfns hs m rule: do_fault_loop.induct)
  case (1 xa wr pfn pfns h hs m)
  from 1(5) obtain w where w: "cpu m pfn = Some (hp_page h, w)" "hp_write h \<longrightarrow> w" "wr \<longrightarrow> hp_write h" by auto
  let ?t = "if hp_write h then DPT_XA_TAG_WRITE else 0"
  let ?m = "m\<lparr>pt := (pt m)(pfn \<mapsto> (hp_page h, ?t))\<rparr>"
  have c: "coherent ?m"
    using 1(3) w by (auto simp: coherent_def DPT_XA_TAG_WRITE_def)
  show ?case
  proof (cases "xa pfn = 0")
    case False
    with 1(2,3) w(3) show ?thesis by (auto simp: xa_store_def Let_def split: if_splits)
  next
    case True
    with 1(2) w(3) have run: "do_fault_loop xa wr pfns hs ?m = (r, m')"
      by (auto simp: xa_store_def Let_def)
    have "coherent m' \<and> (r = 0 \<longrightarrow> (\<forall>pfn\<in>set pfns. mirrored wr pfn m'))"
      using 1(1) [OF _ refl _ _ run c] w(3) True 1(4,5) by (auto simp: xa_store_def)
    moreover have "mirrored wr pfn m'"
      using do_fault_loop_cpu [OF run] 1(4) w(3) by (auto simp: mirrored_def)
    ultimately show ?thesis by simp
  qed
qed auto

text \<open>What a fault does besides: nothing to page contents, and entries elsewhere only go.\<close>

definition only_drops :: "nat set \<Rightarrow> mirror \<Rightarrow> mirror \<Rightarrow> bool" where
  "only_drops S m m' \<longleftrightarrow> page_data m' = page_data m \<and> (\<forall>pfn. pfn \<notin> S \<longrightarrow> pt m' pfn = pt m pfn \<or> pt m' pfn = None)"

lemma only_drops_trans: "only_drops S a b \<Longrightarrow> only_drops S b c \<Longrightarrow> only_drops S a c"
  by (fastforce simp: only_drops_def)

lemma only_drops_step: "only_drops S m (cpu_step e m)"
  by (cases e) (auto simp: only_drops_def dmirror_interval_invalidate_def dmirror_do_update_def unmapping_def
      Let_def split: option.splits)

lemma only_drops_steps: "only_drops S m (fold cpu_step es m)"
proof (induction es arbitrary: m)
  case Nil
  then show ?case by (simp add: only_drops_def)
next
  case (Cons e es)
  from only_drops_trans [OF only_drops_step Cons] show ?case by simp
qed

text \<open>How \<open>dmirror_range_fault\<close> ends: by an error after some events, or in its last attempt.\<close>

lemma range_fault_cases:
  assumes "dmirror_range_fault hrf xa wr s e ats m = Some (r, m')"
  obtains (error) es where "m' = fold cpu_step es m" "r \<noteq> 0"
  | (stored) es before after pfns where "hrf (cpu (fold cpu_step before (fold cpu_step es m))) s e wr = (0, pfns)"
      "inv_seq (fold cpu_step after (fold cpu_step before (fold cpu_step es m))) = inv_seq (fold cpu_step es m)"
      "dmirror_do_fault xa wr s e pfns (fold cpu_step after (fold cpu_step before (fold cpu_step es m))) = (r, m')"
proof -
  have "(\<exists>es. m' = fold cpu_step es m \<and> r \<noteq> 0) \<or> (\<exists>es before after pfns.
      hrf (cpu (fold cpu_step before (fold cpu_step es m))) s e wr = (0, pfns)
      \<and> inv_seq (fold cpu_step after (fold cpu_step before (fold cpu_step es m))) = inv_seq (fold cpu_step es m)
      \<and> dmirror_do_fault xa wr s e pfns (fold cpu_step after (fold cpu_step before (fold cpu_step es m))) = (r, m'))"
    using assms
  proof (induction ats arbitrary: m)
    case (Cons a ats)
    let ?m1 = "fold cpu_step (at_before a) m"
    let ?m2 = "fold cpu_step (at_after a) ?m1"
    obtain ret pfns where rp: "(if at_ret a \<noteq> 0 then (at_ret a, []) else hrf (cpu ?m1) s e wr) = (ret, pfns)" by fastforce
    have run: "(if at_expired a then Some (- EBUSY, m)
       else if ret \<noteq> 0 then (if ret = - EBUSY then dmirror_range_fault hrf xa wr s e ats ?m2 else Some (ret, ?m2))
       else if inv_seq ?m2 \<noteq> inv_seq m then dmirror_range_fault hrf xa wr s e ats ?m2
       else Some (dmirror_do_fault xa wr s e pfns ?m2)) = Some (r, m')"
      using Cons.prems by (simp only: dmirror_range_fault.simps Let_def rp prod.case)
    have again: ?case if retry: "dmirror_range_fault hrf xa wr s e ats ?m2 = Some (r, m')"
    proof -
      have f: "fold cpu_step es ?m2 = fold cpu_step (at_before a @ at_after a @ es) m" for es by simp
      from Cons.IH [OF retry] show ?thesis unfolding f by blast
    qed
    consider "at_expired a" | "\<not> at_expired a" "ret \<noteq> 0" "ret \<noteq> - EBUSY"
      | "dmirror_range_fault hrf xa wr s e ats ?m2 = Some (r, m')"
      | "\<not> at_expired a" "ret = 0" "inv_seq ?m2 = inv_seq m" "dmirror_do_fault xa wr s e pfns ?m2 = (r, m')"
      using run by (auto split: if_splits)
    then show ?case
    proof cases
      case 1
      with run have "m' = fold cpu_step [] m \<and> r \<noteq> 0" by auto
      then show ?thesis by blast
    next
      case 2
      with run have "m' = fold cpu_step (at_before a @ at_after a) m \<and> r \<noteq> 0" by simp
      then show ?thesis by blast
    next
      case 3
      then show ?thesis by (rule again)
    next
      case 4
      with rp have "hrf (cpu ?m1) s e wr = (0, pfns)" by (auto split: if_splits)
      with 4 have "hrf (cpu (fold cpu_step (at_before a) (fold cpu_step [] m))) s e wr = (0, pfns)
        \<and> inv_seq (fold cpu_step (at_after a) (fold cpu_step (at_before a) (fold cpu_step [] m))) = inv_seq (fold cpu_step [] m)
        \<and> dmirror_do_fault xa wr s e pfns (fold cpu_step (at_after a) (fold cpu_step (at_before a) (fold cpu_step [] m))) = (r, m')"
        by simp
      then show ?thesis by blast
    qed
  qed simp
  then show ?thesis using that by blast
qed

lemma do_fault_drops:
  assumes "dmirror_do_fault xa wr s e pfns n = (r, n')"
  shows "only_drops (set (pfn_range s e)) n n'"
  using do_fault_loop_cpu [OF assms [unfolded dmirror_do_fault_def]] by (auto simp: only_drops_def)

lemma range_fault_drops:
  assumes "dmirror_range_fault hrf xa wr s e ats m = Some (r, m')"
  shows "only_drops (set (pfn_range s e)) m m'"
  using assms
proof (cases rule: range_fault_cases)
  case (error es)
  then show ?thesis by (simp add: only_drops_steps)
next
  case (stored es before after pfns)
  from do_fault_drops [OF stored(3)] show ?thesis
    by (rule only_drops_trans [OF only_drops_steps, OF only_drops_trans [OF only_drops_steps,
        OF only_drops_trans [OF only_drops_steps]]])
qed

lemma range_fault_coh:
  assumes "hrf_ok hrf" and "coherent m" and "dmirror_range_fault hrf xa wr s e ats m = Some (r, m')"
  shows "coherent m' \<and> (r = 0 \<longrightarrow> (\<forall>pfn\<in>set (pfn_range s e). mirrored wr pfn m'))"
  using assms(3)
proof (cases rule: range_fault_cases)
  case (error es)
  then show ?thesis using assms(2) by (simp add: coherent_cpu_steps)
next
  case (stored es before after pfns)
  let ?m0 = "fold cpu_step es m" and ?m1 = "fold cpu_step before (fold cpu_step es m)"
  let ?m2 = "fold cpu_step after (fold cpu_step before (fold cpu_step es m))"
  have "inv_seq ?m0 \<le> inv_seq ?m1" "inv_seq ?m1 \<le> inv_seq ?m2" by (rule cpu_steps_seq)+
  with stored(2) have "inv_seq ?m2 = inv_seq ?m1" by simp
  then have kept: "kept_mapped ?m1 ?m2" by (rule cpu_steps_kept)
  have "list_all2 (\<lambda>pfn h. \<exists>w. cpu ?m1 pfn = Some (hp_page h, w) \<and> hp_write h = w \<and> (wr \<longrightarrow> w)) (pfn_range s e) pfns"
    using assms(1) stored(1) by (simp add: hrf_ok_def)
  then have "list_all2 (\<lambda>pfn h. \<exists>w. cpu ?m2 pfn = Some (hp_page h, w) \<and> (hp_write h \<longrightarrow> w) \<and> (wr \<longrightarrow> hp_write h))
      (pfn_range s e) pfns"
    by (rule list_all2_mono) (use kept in \<open>fastforce simp: kept_mapped_def\<close>)
  moreover have "coherent ?m2" using assms(2) by (simp add: coherent_cpu_steps)
  moreover have "distinct (pfn_range s e)" by (simp add: pfn_range_def)
  ultimately show ?thesis
    using do_fault_loop_ok [OF stored(3) [unfolded dmirror_do_fault_def]] by blast
qed

text \<open>
  C4. A fault keeps the mirror coherent whatever the process does to its page table between the
  steps, and when it succeeds every frame of the range is mirrored, with write access if asked for: a
  page unmapped while \<open>hmm_range_fault\<close> was looking is never stored, because the sequence number has
  moved.
\<close>

theorem dmirror_range_fault_coherent:
  assumes "hrf_ok hrf" and "coherent m" and "dmirror_range_fault hrf xa wr s e ats m = Some (r, m')"
  shows "coherent m' \<and> (r = 0 \<longrightarrow> (\<forall>pfn\<in>set (pfn_range s e). mirrored wr pfn m'))"
  using assms by (rule range_fault_coh)

lemma coherent_fault_loop:
  "hrf_ok hrf \<Longrightarrow> fault_loop hrf xa wr fin ats addr m = Some (r, m') \<Longrightarrow> coherent m \<Longrightarrow> coherent m'"
  by (rule fault_pieces.invariant [of hrf xa wr fin ats addr m r m' coherent])
    (auto dest: range_fault_coh)

text \<open>Nothing is unmapped during a quiet sequence of events.\<close>

definition quiet :: "cpu_event \<Rightarrow> bool" where
  "quiet e = (case e of Cpu_unmap _ _ \<Rightarrow> False | _ \<Rightarrow> True)"

definition quiet_attempt :: "attempt \<Rightarrow> bool" where
  "quiet_attempt a \<longleftrightarrow> list_all quiet (at_before a) \<and> list_all quiet (at_after a)"

lemma quiet_step:
  assumes "quiet e"
  shows "kept_mapped m (cpu_step e m)" "inv_seq (cpu_step e m) = inv_seq m"
    "pt (cpu_step e m) = pt m" "page_data (cpu_step e m) = page_data m"
  using assms by (cases e; auto simp: quiet_def kept_mapped_def split: option.splits)+

lemma quiet_steps:
  assumes "list_all quiet es"
  shows "kept_mapped m (fold cpu_step es m) \<and> inv_seq (fold cpu_step es m) = inv_seq m
    \<and> pt (fold cpu_step es m) = pt m \<and> page_data (fold cpu_step es m) = page_data m"
  using assms
proof (induction es arbitrary: m)
  case (Cons e es)
  from Cons.prems have q: "quiet e" "list_all quiet es" by simp_all
  from Cons.IH [OF q(2), of "cpu_step e m"] quiet_step [OF q(1), of m] kept_mapped_trans [of m "cpu_step e m"]
  show ?case by simp
qed simp

text \<open>What a sequence of quiet steps may have done: entries are kept or added.\<close>

definition calm :: "mirror \<Rightarrow> mirror \<Rightarrow> bool" where
  "calm m m' \<longleftrightarrow> coherent m' \<and> kept_mapped m m' \<and> page_data m' = page_data m
     \<and> (\<forall>pfn wr. mirrored wr pfn m \<longrightarrow> mirrored wr pfn m')"

lemma calm_refl: "coherent m \<Longrightarrow> calm m m"
  by (simp add: calm_def)

lemma calm_trans: "calm a b \<Longrightarrow> calm b c \<Longrightarrow> calm a c"
  using kept_mapped_trans by (auto simp: calm_def)

lemma calm_steps: "list_all quiet es \<Longrightarrow> coherent m \<Longrightarrow> calm m (fold cpu_step es m)"
  using quiet_steps [of es m] coherent_cpu_steps [of m es] by (simp add: calm_def mirrored_def)

text \<open>A fault without unmapping takes no access away: an entry writable before was seen as writable.\<close>

lemma do_fault_mirrored:
  assumes "do_fault_loop xa wr pfns hs m = (r, m')"
    and "list_all2 (\<lambda>pfn h. mirrored True pfn m \<longrightarrow> hp_write h) pfns hs" and "distinct pfns"
    and "mirrored v pfn m"
  shows "mirrored v pfn m'"
  using assms
proof (induction xa wr pfns hs m rule: do_fault_loop.induct)
  case (1 xa wr q pfns h hs m)
  let ?t = "if hp_write h then DPT_XA_TAG_WRITE else 0"
  let ?m = "m\<lparr>pt := (pt m)(q \<mapsto> (hp_page h, ?t))\<rparr>"
  show ?case
  proof (cases "xa q = 0 \<and> \<not> (\<not> hp_write h \<and> wr)")
    case False
    with 1(2,5) show ?thesis by (auto simp: xa_store_def Let_def split: if_splits)
  next
    case True
    with 1(2) have run: "do_fault_loop xa wr pfns hs ?m = (r, m')" by (auto simp: xa_store_def Let_def)
    have tl: "list_all2 (\<lambda>pfn h. mirrored True pfn m \<longrightarrow> hp_write h) pfns hs" using 1(3) by simp
    have "mirrored v pfn ?m" using 1(3,5) by (auto simp: mirrored_def)
    moreover have "list_all2 (\<lambda>pfn h. mirrored True pfn ?m \<longrightarrow> hp_write h) pfns hs"
      using tl by (rule list.rel_mono_strong) (use 1(4) in \<open>auto simp: mirrored_def split: if_splits\<close>)
    ultimately show ?thesis using 1(1) [OF _ refl _ _ run] True 1(4) by (auto simp: xa_store_def)
  qed
qed auto

lemma calm_range_fault:
  assumes "hrf_ok hrf" and "coherent m" and "list_all quiet_attempt ats"
    and "dmirror_range_fault hrf xa wr s e ats m = Some (r, m')"
  shows "calm m m' \<and> (r = 0 \<longrightarrow> (\<forall>pfn\<in>set (pfn_range s e). mirrored wr pfn m'))"
proof -
  have "calm m m'"
    using assms(2-4)
  proof (induction ats arbitrary: m)
    case (Cons a ats)
    let ?m1 = "fold cpu_step (at_before a) m"
    let ?m2 = "fold cpu_step (at_after a) ?m1"
    have q: "list_all quiet (at_before a)" "list_all quiet (at_after a)" "list_all quiet_attempt ats"
      using Cons.prems(2) by (simp_all add: quiet_attempt_def [of a])
    have c1: "calm m ?m1" "coherent ?m1" using q(1) Cons.prems(1) calm_steps coherent_cpu_steps by auto
    have c2: "calm m ?m2" "coherent ?m2"
      using calm_trans [OF c1(1)] calm_steps [OF q(2) c1(2)] coherent_cpu_steps [OF c1(2)] by auto
    have same: "pt ?m2 = pt m" "pt ?m1 = pt m" "page_data ?m2 = page_data m" "kept_mapped ?m1 ?m2"
      using quiet_steps [OF q(1), of m] quiet_steps [OF q(2), of ?m1] by simp_all
    obtain ret pfns where rp: "(if at_ret a \<noteq> 0 then (at_ret a, []) else hrf (cpu ?m1) s e wr) = (ret, pfns)" by fastforce
    have run: "(if at_expired a then Some (- EBUSY, m)
       else if ret \<noteq> 0 then (if ret = - EBUSY then dmirror_range_fault hrf xa wr s e ats ?m2 else Some (ret, ?m2))
       else if inv_seq ?m2 \<noteq> inv_seq m then dmirror_range_fault hrf xa wr s e ats ?m2
       else Some (dmirror_do_fault xa wr s e pfns ?m2)) = Some (r, m')"
      using Cons.prems(3) by (simp only: dmirror_range_fault.simps Let_def rp prod.case)
    have stored: "calm m m'" if ret: "ret = 0" and df: "dmirror_do_fault xa wr s e pfns ?m2 = (r, m')"
    proof -
      have "hrf (cpu ?m1) s e wr = (0, pfns)" using ret rp by (auto split: if_splits)
      then have l: "list_all2 (\<lambda>pfn h. \<exists>w. cpu ?m1 pfn = Some (hp_page h, w) \<and> hp_write h = w \<and> (wr \<longrightarrow> w)) (pfn_range s e) pfns"
        using assms(1) by (simp add: hrf_ok_def)
      have "list_all2 (\<lambda>pfn h. mirrored True pfn ?m2 \<longrightarrow> hp_write h) (pfn_range s e) pfns"
        using l by (rule list_all2_mono) (use c1(2) same in \<open>fastforce simp: mirrored_def coherent_def\<close>)
      then have mi: "mirrored v pfn ?m2 \<Longrightarrow> mirrored v pfn m'" for v pfn
        by (intro do_fault_mirrored [OF df [unfolded dmirror_do_fault_def]]) (simp_all add: pfn_range_def)
      have "list_all2 (\<lambda>pfn h. \<exists>w. cpu ?m2 pfn = Some (hp_page h, w) \<and> (hp_write h \<longrightarrow> w) \<and> (wr \<longrightarrow> hp_write h))
          (pfn_range s e) pfns"
        using l by (rule list_all2_mono) (use same(4) in \<open>fastforce simp: kept_mapped_def\<close>)
      then have "coherent m'"
        using do_fault_loop_ok [OF df [unfolded dmirror_do_fault_def] c2(2)] by (simp add: pfn_range_def)
      with mi do_fault_loop_cpu [OF df [unfolded dmirror_do_fault_def]] have "calm ?m2 m'"
        by (simp add: calm_def kept_mapped_def)
      with c2(1) show ?thesis by (rule calm_trans)
    qed
    have retry: "calm m m'" if "dmirror_range_fault hrf xa wr s e ats ?m2 = Some (r, m')"
      using calm_trans [OF c2(1) Cons.IH [OF c2(2) q(3) that]] .
    from run stored retry c2(1) calm_refl [OF Cons.prems(1)] show ?case
      by (auto split: if_splits)
  qed simp
  with range_fault_coh [OF assms(1,2,4)] show ?thesis by simp
qed

text \<open>The whole of \<open>dmirror_fault\<close> on a range of pages, when nothing is unmapped meanwhile.\<close>

lemma calm_fault_loop:
  assumes "hrf_ok hrf" and "coherent m" and "list_all (list_all quiet_attempt) pieces"
    and "fault_loop hrf xa wr fin pieces addr m = Some (r, m')"
  shows "calm m m'"
  using assms(2-4)
proof (induction pieces arbitrary: addr m)
  case Nil
  then show ?case by (simp add: calm_refl split: if_splits)
next
  case (Cons ats pieces)
  show ?case
  proof (cases "addr < fin")
    case False
    with Cons.prems show ?thesis by (simp add: calm_refl)
  next
    case True
    with Cons.prems obtain r1 m1 where
      rf: "dmirror_range_fault hrf xa wr addr (next_piece addr fin) ats m = Some (r1, m1)"
      by (auto split: option.splits)
    have c: "calm m m1" using calm_range_fault [OF assms(1) Cons.prems(1) _ rf] Cons.prems(2) by simp
    then have "coherent m1" by (simp add: calm_def)
    with Cons rf True c show ?thesis by (auto split: if_splits intro: calm_trans)
  qed
qed

end
