(* ===== verification/Dmirror_IO.thy ===== *)
theory Dmirror_IO
  imports Dmirror_Coherence
begin

text \<open>
  Reading and writing through the mirror (\<open>dmirror_read\<close>, \<open>dmirror_write\<close>): what a command that returns
  0 has copied, that a read comes to its end when the pages can be faulted in, and when it never does.
\<close>

unbundle bit_operations_syntax

section \<open>Copying page by page\<close>

lemma do_read_loop_prefix:
  assumes "do_read_loop [a + n..<a + N] n m b = (r, b')" and "n \<le> N" and "length (b_ptr b) = N"
    and "b_cpages b = of_nat n"
  shows "\<exists>n'. n \<le> n' \<and> n' \<le> N \<and> b_cpages b' = of_nat n' \<and> length (b_ptr b') = N \<and> b_addr b' = b_addr b
    \<and> (\<forall>j<n. b_ptr b' ! j = b_ptr b ! j)
    \<and> (\<forall>j. n \<le> j \<and> j < n' \<longrightarrow> (\<exists>p t. pt m (a + j) = Some (p, t) \<and> b_ptr b' ! j = page_data m p))
    \<and> (if n' = N then r = 0 else r = - ENOENT \<and> pt m (a + n') = None)"
  using assms
proof (induction "N - n" arbitrary: n b)
  case 0
  then have "n = N" by simp
  with 0(2) have "r = 0" "b' = b" by simp_all
  with 0 \<open>n = N\<close> show ?case by (intro exI [of _ N]) auto
next
  case (Suc d)
  then have lt: "n < N" by simp
  then have cons: "[a + n..<a + N] = (a + n) # [a + Suc n..<a + N]" by (simp add: upt_conv_Cons)
  show ?case
  proof (cases "pt m (a + n)")
    case None
    then have "r = - ENOENT" "b' = b" using Suc.prems(1) by (simp_all add: cons)
    with None lt Suc.prems show ?thesis by (intro exI [of _ n]) auto
  next
    case (Some e)
    obtain p t where e: "e = (p, t)" by (cases e)
    let ?b = "b\<lparr>b_ptr := (b_ptr b)[n := page_data m p], b_cpages := b_cpages b + 1\<rparr>"
    have run: "do_read_loop [a + Suc n..<a + N] (Suc n) m ?b = (r, b')"
      using Suc.prems(1) Some e by (simp add: cons)
    have "\<exists>n'. Suc n \<le> n' \<and> n' \<le> N \<and> b_cpages b' = of_nat n' \<and> length (b_ptr b') = N \<and> b_addr b' = b_addr ?b
      \<and> (\<forall>j<Suc n. b_ptr b' ! j = b_ptr ?b ! j)
      \<and> (\<forall>j. Suc n \<le> j \<and> j < n' \<longrightarrow> (\<exists>p t. pt m (a + j) = Some (p, t) \<and> b_ptr b' ! j = page_data m p))
      \<and> (if n' = N then r = 0 else r = - ENOENT \<and> pt m (a + n') = None)"
      by (rule Suc.hyps(1) [OF _ run]) (use Suc.hyps(2) Suc.prems lt in simp_all)
    then obtain n' where n': "Suc n \<le> n'" "n' \<le> N" "b_cpages b' = of_nat n'" "length (b_ptr b') = N" "b_addr b' = b_addr b"
      "\<forall>j<Suc n. b_ptr b' ! j = b_ptr ?b ! j"
      "\<forall>j. Suc n \<le> j \<and> j < n' \<longrightarrow> (\<exists>p t. pt m (a + j) = Some (p, t) \<and> b_ptr b' ! j = page_data m p)"
      "if n' = N then r = 0 else r = - ENOENT \<and> pt m (a + n') = None" by auto
    have "b_ptr b' ! n = page_data m p" using n'(6) lt Suc.prems(3) by simp
    then have "\<exists>p t. pt m (a + j) = Some (p, t) \<and> b_ptr b' ! j = page_data m p" if "n \<le> j \<and> j < n'" for j
      using that n'(7) Some e by (cases "j = n") auto
    with n' show ?thesis by (intro exI [of _ n']) auto
  qed
qed

text \<open>The first \<open>n\<close> pages of the buffer are the process's pages.\<close>

definition read_inv :: "nat \<Rightarrow> nat \<Rightarrow> nat \<Rightarrow> mirror \<Rightarrow> bounce \<Rightarrow> bool" where
  "read_inv a N n m b \<longleftrightarrow> coherent m \<and> n \<le> N \<and> b_cpages b = of_nat n \<and> length (b_ptr b) = N \<and> b_addr b = page_addr a
     \<and> (\<forall>j<n. \<exists>p w. cpu m (a + j) = Some (p, w) \<and> b_ptr b ! j = page_data m p)"

lemma read_inv_calm: "read_inv a N n m b \<Longrightarrow> calm m m' \<Longrightarrow> read_inv a N n m' b"
  by (fastforce simp: read_inv_def calm_def kept_mapped_def)

lemma do_read_inv:
  assumes "dmirror_do_read (page_addr (a + n)) (page_addr (a + N)) m b = (r, b')" and "read_inv a N n m b"
    and "a + N < 2 ^ 52"
  obtains n' where "n \<le> n'" "read_inv a N n' m b'" "if n' = N then r = 0 else r = - ENOENT \<and> pt m (a + n') = None"
proof -
  have n: "n \<le> N" "length (b_ptr b) = N" "b_cpages b = of_nat n" "b_addr b = page_addr a"
    using assms(2) by (simp_all add: read_inv_def)
  have "pfn_range (page_addr (a + n)) (page_addr (a + N)) = [a + n..<a + N]" "bounce_index (page_addr (a + n)) b = n"
    using n assms(3) by (simp_all add: pfn_range_page bounce_index_page)
  then have "do_read_loop [a + n..<a + N] n m b = (r, b')"
    using assms(1) by (simp add: dmirror_do_read_def)
  from do_read_loop_prefix [OF this n(1-3)] obtain n' where
    n': "n \<le> n'" "n' \<le> N" "b_cpages b' = of_nat n'" "length (b_ptr b') = N" "b_addr b' = b_addr b"
    "\<forall>j<n. b_ptr b' ! j = b_ptr b ! j"
    "\<forall>j. n \<le> j \<and> j < n' \<longrightarrow> (\<exists>p t. pt m (a + j) = Some (p, t) \<and> b_ptr b' ! j = page_data m p)"
    "if n' = N then r = 0 else r = - ENOENT \<and> pt m (a + n') = None" by blast
  have "\<exists>p w. cpu m (a + j) = Some (p, w) \<and> b_ptr b' ! j = page_data m p" if "j < n'" for j
  proof (cases "j < n")
    case True
    with assms(2) n'(6) show ?thesis by (auto simp: read_inv_def)
  next
    case False
    then have "n \<le> j \<and> j < n'" using that by simp
    with n'(7) obtain p t where "pt m (a + j) = Some (p, t)" "b_ptr b' ! j = page_data m p" by blast
    moreover from assms(2) have "coherent m" by (simp add: read_inv_def)
    then obtain w where "cpu m (a + j) = Some (p, w)" using coherentD [OF _ \<open>pt m (a + j) = Some (p, t)\<close>] by blast
    ultimately show ?thesis by blast
  qed
  with n' n assms(2) have "read_inv a N n' m b'" by (simp add: read_inv_def)
  with that n'(1,8) show ?thesis by blast
qed

section \<open>Reading\<close>

definition quiet_round :: "round \<Rightarrow> bool" where
  "quiet_round r \<longleftrightarrow> list_all (list_all quiet_attempt) (rd_pieces r) \<and> list_all quiet (rd_after r)"

lemma calm_fault:
  assumes "hrf_ok hrf" and "coherent m" and "quiet_round rd"
    and "dmirror_fault hrf xa (rd_alive rd) (rd_pieces rd) s fin wr m = Some (r, m')"
  shows "calm m m'"
  using assms calm_refl [OF assms(2)] calm_fault_loop [OF assms(1,2)]
  by (auto simp: dmirror_fault_def quiet_round_def split: if_splits)

lemma push_cpages: "b_cpages b = of_nat n \<Longrightarrow> n < 2 ^ 52 \<Longrightarrow> page_addr a + push_bit PAGE_SHIFT (b_cpages b) = page_addr (a + n)"
  by (simp add: push_bit_page page_addr_add unsigned_of_nat take_bit_nat_eq_self)

lemma read_loop_quiet:
  assumes "hrf_ok hrf" and "a + N < 2 ^ 52"
    and "read_loop hrf xa (page_addr a) (page_addr (a + N)) rs (page_addr (a + n)) m b f = Some (r, m', b', f')"
    and "list_all quiet_round rs" and "read_inv a N n m b"
  shows "calm m m' \<and> (\<exists>n'. read_inv a N n' m' b' \<and> (r = 0 \<longrightarrow> n' = N))"
  using assms(3-5)
proof (induction rs arbitrary: n m b f)
  case Nil
  obtain r1 b1 where rd: "dmirror_do_read (page_addr (a + n)) (page_addr (a + N)) m b = (r1, b1)" by fastforce
  with Nil have same: "r1 = r" "b1 = b'" "m' = m" by (auto split: if_splits)
  from rd Nil(3) assms(2) obtain n1 where n1: "read_inv a N n1 m b1"
    "if n1 = N then r1 = 0 else r1 = - ENOENT \<and> pt m (a + n1) = None" by (rule do_read_inv)
  then have "coherent m" by (simp add: read_inv_def)
  with n1 same calm_refl show ?case by (auto split: if_splits)
next
  case (Cons rd rs)
  obtain r1 b1 where dr: "dmirror_do_read (page_addr (a + n)) (page_addr (a + N)) m b = (r1, b1)" by fastforce
  then obtain n1 where n1: "n \<le> n1" "read_inv a N n1 m b1" "if n1 = N then r1 = 0 else r1 = - ENOENT \<and> pt m (a + n1) = None"
    using Cons.prems(3) assms(2) by (rule do_read_inv)
  have coh: "coherent m" using n1(2) by (simp add: read_inv_def)
  show ?case
  proof (cases "r1 = - ENOENT")
    case False
    with Cons.prems dr have "r = r1" "m' = m" "b' = b1" by auto
    with n1 False calm_refl [OF coh] show ?thesis by (auto split: if_splits)
  next
    case True
    have start: "page_addr a + push_bit PAGE_SHIFT (b_cpages b1) = page_addr (a + n1)"
      using n1(2) assms(2) by (intro push_cpages) (simp_all add: read_inv_def)
    obtain r2 m2 where flt: "dmirror_fault hrf xa (rd_alive rd) (rd_pieces rd) (page_addr (a + n1)) (page_addr (a + N)) False m = Some (r2, m2)"
      using Cons.prems(1) dr True start by (auto simp: Let_def split: option.splits)
    have q: "quiet_round rd" "list_all quiet_round rs" using Cons.prems(2) by simp_all
    have c2: "calm m m2" by (rule calm_fault [OF assms(1) coh q(1) flt])
    show ?thesis
    proof (cases "r2 = 0")
      case False
      with Cons.prems(1) dr True start flt have "r = r2" "m' = m2" "b' = b1" by (auto simp: Let_def)
      with False c2 read_inv_calm [OF n1(2) c2] show ?thesis by blast
    next
      case ok: True
      let ?m3 = "fold cpu_step (rd_after rd) m2"
      have c3: "calm m ?m3"
        using c2 calm_steps [of "rd_after rd" m2] q(1) calm_trans by (auto simp: calm_def quiet_round_def)
      have "read_loop hrf xa (page_addr a) (page_addr (a + N)) rs (page_addr (a + n1)) ?m3 b1 (f + 1) = Some (r, m', b', f')"
        using Cons.prems(1) dr True start flt ok by (simp add: Let_def)
      from Cons.IH [OF this q(2) read_inv_calm [OF n1(2) c3]] c3 calm_trans show ?thesis by blast
    qed
  qed
qed

lemma read_inv_all:
  assumes "read_inv a N N m b"
  shows "b_ptr b = map (\<lambda>pfn. page_data m (fst (the (cpu m pfn)))) [a..<a + N]" and "\<forall>pfn\<in>{a..<a + N}. cpu m pfn \<noteq> None"
proof -
  have j: "\<forall>j<N. \<exists>p w. cpu m (a + j) = Some (p, w) \<and> b_ptr b ! j = page_data m p" "length (b_ptr b) = N"
    using assms by (simp_all add: read_inv_def)
  show "b_ptr b = map (\<lambda>pfn. page_data m (fst (the (cpu m pfn)))) [a..<a + N]"
    by (rule nth_equalityI) (use j in \<open>fastforce+\<close>)
  show "\<forall>pfn\<in>{a..<a + N}. cpu m pfn \<noteq> None"
  proof
    fix pfn assume "pfn \<in> {a..<a + N}"
    then obtain k where "pfn = a + k" "k < N" by (metis atLeastLessThan_iff le_Suc_ex nat_add_left_cancel_less)
    with j(1) show "cpu m pfn \<noteq> None" by auto
  qed
qed

text \<open>The range of a command with a page-aligned address inside the address space.\<close>

definition cmd_ok :: "hmm_dmirror_cmd \<Rightarrow> bool" where
  "cmd_ok cmd \<longleftrightarrow> c_addr cmd AND NOT PAGE_MASK = 0 \<and> unat (c_addr cmd) + 4096 * unat (c_npages cmd) < 2 ^ 64"

definition cmd_range :: "hmm_dmirror_cmd \<Rightarrow> nat list" where
  "cmd_range cmd = pfn_range (c_addr cmd) (c_addr cmd + push_bit PAGE_SHIFT (c_npages cmd))"

lemma cmd_okE:
  assumes "cmd_ok cmd"
  obtains a N where "c_addr cmd = page_addr a" "c_npages cmd = of_nat N" "a + N < 2 ^ 52" "unat (c_npages cmd) = N"
    "push_bit PAGE_SHIFT (c_npages cmd) = page_addr N" "cmd_range cmd = [a..<a + N]"
    "page_addr a \<le> page_addr (a + N)" "unat (drop_bit PAGE_SHIFT (page_addr N)) = N"
proof -
  define a N where "a = unat (c_addr cmd) div 4096" and "N = unat (c_npages cmd)"
  have addr: "c_addr cmd = page_addr a"
    unfolding a_def by (rule aligned_page_addr) (use assms in \<open>simp add: cmd_ok_def\<close>)
  have "4096 * a \<le> unat (c_addr cmd)" by (simp add: a_def)
  then have "4096 * (a + N) < 2 ^ 64" using assms by (simp add: cmd_ok_def N_def)
  then have lt: "a + N < 2 ^ 52" by simp
  have "c_npages cmd = of_nat N" by (simp add: N_def)
  moreover have "push_bit PAGE_SHIFT (c_npages cmd) = page_addr N" by (simp add: push_bit_page N_def)
  moreover have "unat (c_npages cmd) = N" by (simp add: N_def)
  moreover have "page_addr a \<le> page_addr (a + N)" using lt by (simp add: page_addr_le)
  moreover have "unat (drop_bit PAGE_SHIFT (page_addr N)) = N" using lt by simp
  moreover have "cmd_range cmd = [a..<a + N]"
    using lt by (simp add: cmd_range_def addr push_bit_page N_def [symmetric] page_addr_add pfn_range_page)
  ultimately show ?thesis using that addr lt by blast
qed

lemma read_memory:
  assumes "hrf_ok hrf" and "coherent m" and "list_all quiet_round (io_rounds e)" and "cmd_ok cmd"
    and "dmirror_read hrf xa e cmd m = Some (0, cmd', m', out)"
  shows "out = Some (map (\<lambda>pfn. page_data m (fst (the (cpu m' pfn)))) (cmd_range cmd))
    \<and> (\<forall>pfn\<in>set (cmd_range cmd). cpu m' pfn \<noteq> None) \<and> c_cpages cmd' = c_npages cmd \<and> page_data m' = page_data m"
proof -
  from assms(4) obtain a N where cmd: "c_addr cmd = page_addr a" "c_npages cmd = of_nat N" "a + N < 2 ^ 52"
    "push_bit PAGE_SHIFT (c_npages cmd) = page_addr N" "cmd_range cmd = [a..<a + N]"
    "page_addr a \<le> page_addr (a + N)" "unat (drop_bit PAGE_SHIFT (page_addr N)) = N"
    by (rule cmd_okE) blast
  obtain junk where junk: "io_vmalloc e = Some junk"
    using assms(5) by (cases "io_vmalloc e")
      (auto simp: dmirror_read_def dmirror_bounce_init_def cmd(1,4) page_addr_add Let_def split: if_splits)
  let ?b = "\<lparr>b_ptr = map junk [0..<N], b_size = page_addr N, b_addr = page_addr a, b_cpages = 0\<rparr>"
  obtain b' f' where run: "read_loop hrf xa (page_addr a) (page_addr (a + N)) (io_rounds e) (page_addr (a + 0)) m ?b (c_faults cmd) = Some (0, m', b', f')"
    and out: "out = Some (b_ptr b')" "c_cpages cmd' = b_cpages b'"
    using assms(5) cmd(6) by (auto simp: dmirror_read_def dmirror_bounce_init_def cmd(1,4,7) page_addr_add
        junk Let_def split: if_splits option.splits)
  have "read_inv a N 0 m ?b" using assms(2) by (simp add: read_inv_def)
  from read_loop_quiet [OF assms(1) cmd(3) run assms(3) this]
  have "calm m m'" "read_inv a N N m' b'" by auto
  with read_inv_all [of a N m' b'] out show ?thesis
    by (simp add: cmd(2,5) calm_def read_inv_def)
qed

text \<open>
  C9. A read that returns 0 has copied the process's memory: with a coherent mirror and
  nothing unmapped meanwhile, the caller gets, page by page, the contents of the pages the process has
  mapped in the range, however often the command had to fault and to retry; all pages are counted,
  and no page is changed.
\<close>

theorem dmirror_read_returns_memory:
  assumes "hrf_ok hrf" and "coherent m" and "list_all quiet_round (io_rounds e)" and "cmd_ok cmd"
    and "dmirror_read hrf xa e cmd m = Some (0, cmd', m', out)"
  shows "out = Some (map (\<lambda>pfn. page_data m (fst (the (cpu m' pfn)))) (cmd_range cmd))
    \<and> (\<forall>pfn\<in>set (cmd_range cmd). cpu m' pfn \<noteq> None) \<and> c_cpages cmd' = c_npages cmd \<and> page_data m' = page_data m"
  using assms by (rule read_memory)

section \<open>That a read comes to its end\<close>

text \<open>
  An \<open>hmm_range_fault\<close> that succeeds whenever the pages are there with the access asked for; \<open>cpu_walk\<close> is one.
\<close>

definition hrf_complete :: "range_walk \<Rightarrow> bool" where
  "hrf_complete hrf \<longleftrightarrow> (\<forall>c s e wr. (\<forall>pfn\<in>set (pfn_range s e). \<exists>p w. c pfn = Some (p, w) \<and> (wr \<longrightarrow> w))
     \<longrightarrow> fst (hrf c s e wr) = 0)"

lemma cpu_walk_complete: "hrf_complete cpu_walk"
  by (fastforce simp: hrf_complete_def cpu_walk_def list_all_iff split: option.split)

text \<open>An attempt in which nothing interferes.\<close>

definition still_attempt :: attempt where
  "still_attempt = \<lparr>at_expired = False, at_before = [], at_ret = 0, at_after = []\<rparr>"

definition still_pieces :: "nat \<Rightarrow> attempt list list" where
  "still_pieces n = replicate ((n + 63) div 64) [still_attempt]"

lemma still_do_fault:
  assumes "list_all2 (\<lambda>pfn h. wr \<longrightarrow> hp_write h) pfns hs"
  shows "\<exists>m'. do_fault_loop (\<lambda>_. 0) wr pfns hs m = (0, m')"
  using assms
  by (induction "\<lambda>_::nat. 0 :: int" wr pfns hs m rule: do_fault_loop.induct) (auto simp: xa_store_def Let_def)

lemma still_range_fault:
  assumes "hrf_ok hrf" and "hrf_complete hrf" and "\<forall>pfn\<in>set (pfn_range s e). \<exists>p w. cpu m pfn = Some (p, w) \<and> (wr \<longrightarrow> w)"
  shows "\<exists>m'. dmirror_range_fault hrf (\<lambda>_. 0) wr s e [still_attempt] m = Some (0, m') \<and> cpu m' = cpu m"
proof -
  obtain pfns where h: "hrf (cpu m) s e wr = (0, pfns)"
    using assms(2,3) unfolding hrf_complete_def by (metis prod.collapse)
  have "list_all2 (\<lambda>pfn h. \<exists>w. cpu m pfn = Some (hp_page h, w) \<and> hp_write h = w \<and> (wr \<longrightarrow> w)) (pfn_range s e) pfns"
    using assms(1) h by (simp add: hrf_ok_def)
  then have "list_all2 (\<lambda>pfn h. wr \<longrightarrow> hp_write h) (pfn_range s e) pfns"
    by (rule list_all2_mono) auto
  then obtain m' where m': "do_fault_loop (\<lambda>_. 0) wr (pfn_range s e) pfns m = (0, m')"
    using still_do_fault by blast
  with h do_fault_loop_cpu [OF m'] show ?thesis
    by (simp add: still_attempt_def dmirror_do_fault_def)
qed

text \<open>On a range whose pages are all there, \<open>(n + 63) div 64\<close> pieces mirror \<open>n\<close> pages.\<close>

lemma still_fault:
  assumes "hrf_ok hrf" and "hrf_complete hrf" and "coherent m" and "b + 64 \<le> 2 ^ 52" and "a \<le> b"
    and "\<forall>pfn\<in>{a..<b}. \<exists>p w. cpu m pfn = Some (p, w) \<and> (wr \<longrightarrow> w)" and "b - a \<le> n"
  obtains m' where "fault_loop hrf (\<lambda>_. 0) wr (page_addr b) (still_pieces n) (page_addr a) m = Some (0, m')"
    "\<forall>pfn\<in>{a..<b}. mirrored wr pfn m'" "coherent m'" "cpu m' = cpu m"
proof -
  let ?es = "still_pieces n"
  have len: "b - a \<le> 64 * length ?es" using assms(7) by (simp add: still_pieces_def)
  have ok: "list_all (\<lambda>e. e = [still_attempt]) ?es" by (simp add: still_pieces_def list_all_iff)
  let ?P = "\<lambda>m'. coherent m' \<and> cpu m' = cpu m"
  have "\<exists>m'. fault_loop hrf (\<lambda>_. 0) wr (page_addr b) ?es (page_addr a) m = Some (0, m') \<and> ?P m'"
  proof (rule fault_pieces.returns [OF _ assms(4,5) len ok])
    show "?P m" using assms(3) by simp
  next
    fix e x y s
    assume e: "e = [still_attempt]" and s: "coherent s \<and> cpu s = cpu m" and xy: "a \<le> x" "x < y" "y \<le> b"
    have "pfn_range (page_addr x) (page_addr y) = [x..<y]" using xy assms(4) by (intro pfn_range_page) simp_all
    then have "\<forall>pfn\<in>set (pfn_range (page_addr x) (page_addr y)). \<exists>p w. cpu s pfn = Some (p, w) \<and> (wr \<longrightarrow> w)"
      using xy s assms(6) by simp
    from still_range_fault [OF assms(1,2) this] obtain s' where
      "dmirror_range_fault hrf (\<lambda>_. 0) wr (page_addr x) (page_addr y) [still_attempt] s = Some (0, s')" "cpu s' = cpu s"
      by blast
    with range_fault_coh [OF assms(1) _ this(1)] s e
    show "\<exists>s'. dmirror_range_fault hrf (\<lambda>_. 0) wr (page_addr x) (page_addr y) e s = Some (0, s') \<and> coherent s' \<and> cpu s' = cpu m"
      by auto
  qed
  then obtain m' where m': "fault_loop hrf (\<lambda>_. 0) wr (page_addr b) ?es (page_addr a) m = Some (0, m')" "?P m'" by blast
  have "coherent m' \<and> (\<forall>n. a \<le> n \<and> n < b \<longrightarrow> mirrored wr n m')"
  proof (rule fault_pieces.covers [where P = coherent and R = "mirrored wr" and ok = "\<lambda>e. e = [still_attempt]",
      OF m'(1) assms(3-5) ok])
    fix e x y s s'
    assume e: "e = [still_attempt]" and c: "coherent s" and xy: "a \<le> x" "x < y" "y \<le> b"
      and f: "dmirror_range_fault hrf (\<lambda>_. 0) wr (page_addr x) (page_addr y) e s = Some (0, s')"
    have "list_all quiet_attempt e" by (simp add: e quiet_attempt_def still_attempt_def)
    from calm_range_fault [OF assms(1) c this f] have
      "calm s s'" "\<forall>pfn\<in>set (pfn_range (page_addr x) (page_addr y)). mirrored wr pfn s'" by simp_all
    moreover have "pfn_range (page_addr x) (page_addr y) = [x..<y]" using xy assms(4) by (intro pfn_range_page) simp_all
    ultimately show "coherent s' \<and> (\<forall>n. x \<le> n \<and> n < y \<longrightarrow> mirrored wr n s') \<and> (\<forall>n. mirrored wr n s \<longrightarrow> mirrored wr n s')"
      by (simp add: calm_def)
  qed
  with m' that show ?thesis by auto
qed

text \<open>An environment in which a command may fault once, undisturbed, and its copies succeed.\<close>

definition still_io :: "nat \<Rightarrow> io_env" where
  "still_io n = \<lparr>io_vmalloc = Some (\<lambda>_. []), io_rounds = [\<lparr>rd_alive = True, rd_pieces = still_pieces n, rd_after = []\<rparr>],
     io_copy = True\<rparr>"

lemma read_completes:
  assumes "hrf_ok hrf" and "hrf_complete hrf" and "coherent m" and "cmd_ok cmd"
    and "unat (c_addr cmd) + 4096 * (unat (c_npages cmd) + 64) \<le> 2 ^ 64"
    and "\<forall>pfn\<in>set (cmd_range cmd). cpu m pfn \<noteq> None"
  shows "\<exists>cmd' m' out. dmirror_read hrf (\<lambda>_. 0) (still_io (unat (c_npages cmd))) cmd m = Some (0, cmd', m', Some out)
    \<and> out = map (\<lambda>pfn. page_data m (fst (the (cpu m pfn)))) (cmd_range cmd)"
proof -
  from assms(4) obtain a N where cmd: "c_addr cmd = page_addr a" "c_npages cmd = of_nat N" "a + N < 2 ^ 52"
    "unat (c_npages cmd) = N"
    "push_bit PAGE_SHIFT (c_npages cmd) = page_addr N" "cmd_range cmd = [a..<a + N]"
    "page_addr a \<le> page_addr (a + N)" "unat (drop_bit PAGE_SHIFT (page_addr N)) = N"
    by (rule cmd_okE)
  have room: "a + N + 64 \<le> 2 ^ 52" using assms(5) cmd(1,3,4) unat_page_addr [of a] by simp
  let ?b = "\<lparr>b_ptr = map (\<lambda>_. []) [0..<N], b_size = page_addr N, b_addr = page_addr a, b_cpages = 0\<rparr>"
  let ?rd = "\<lparr>rd_alive = True, rd_pieces = still_pieces N, rd_after = []\<rparr>"
  obtain r1 b1 where dr: "dmirror_do_read (page_addr (a + 0)) (page_addr (a + N)) m ?b = (r1, b1)" by fastforce
  moreover have "read_inv a N 0 m ?b" using assms(3) by (simp add: read_inv_def)
  ultimately obtain n1 where n1: "read_inv a N n1 m b1" "if n1 = N then r1 = 0 else r1 = - ENOENT \<and> pt m (a + n1) = None"
    using cmd(3) by (rule do_read_inv)
  have le: "n1 \<le> N" using n1(1) by (simp add: read_inv_def)
  have mapped: "\<forall>pfn\<in>{a + n1..<a + N}. \<exists>p w. cpu m pfn = Some (p, w) \<and> (False \<longrightarrow> w)"
    using assms(6) cmd(6) by auto
  obtain m2 where m2: "fault_loop hrf (\<lambda>_. 0) False (page_addr (a + N)) (still_pieces N) (page_addr (a + n1)) m = Some (0, m2)"
    "\<forall>pfn\<in>{a + n1..<a + N}. mirrored False pfn m2" "coherent m2" "cpu m2 = cpu m"
    by (rule still_fault [OF assms(1-3) room _ mapped, of N]) (use le in auto)
  have start: "page_addr a + push_bit PAGE_SHIFT (b_cpages b1) = page_addr (a + n1)"
    using n1(1) cmd(3) by (intro push_cpages) (simp_all add: read_inv_def)
  have "\<exists>m' b' f'. read_loop hrf (\<lambda>_. 0) (page_addr a) (page_addr (a + N)) [?rd] (page_addr (a + 0)) m ?b (c_faults cmd)
      = Some (0, m', b', f') \<and> cpu m' = cpu m"
  proof (cases "n1 = N")
    case True
    with n1(2) dr show ?thesis by simp
  next
    case False
    obtain r3 b3 where dr3: "dmirror_do_read (page_addr (a + n1)) (page_addr (a + N)) m2 b1 = (r3, b3)" by fastforce
    have "calm m m2"
      using calm_fault_loop [OF assms(1,3) _ m2(1)]
      by (simp add: still_pieces_def list_all_iff quiet_attempt_def still_attempt_def)
    from dr3 read_inv_calm [OF n1(1) this] cmd(3) obtain n3 where n3: "n1 \<le> n3" "read_inv a N n3 m2 b3"
      "if n3 = N then r3 = 0 else r3 = - ENOENT \<and> pt m2 (a + n3) = None"
      by (rule do_read_inv)
    have "n3 = N"
    proof (rule ccontr)
      assume "n3 \<noteq> N"
      with n3(1,2) have "a + n3 \<in> {a + n1..<a + N}" by (simp add: read_inv_def)
      with m2(2) have "mirrored False (a + n3) m2" by blast
      with n3(3) \<open>n3 \<noteq> N\<close> show False by (simp add: mirrored_def)
    qed
    with n3(3) dr3 dr n1(2) False start m2(1,4) show ?thesis
      by (simp add: dmirror_fault_def Let_def)
  qed
  then obtain m' b' f' where run: "read_loop hrf (\<lambda>_. 0) (page_addr a) (page_addr (a + N)) [?rd] (page_addr (a + 0)) m ?b (c_faults cmd)
      = Some (0, m', b', f')" "cpu m' = cpu m" by blast
  have "list_all quiet_round [?rd]"
    by (simp add: quiet_round_def still_pieces_def list_all_iff quiet_attempt_def still_attempt_def)
  from read_loop_quiet [OF assms(1) cmd(3) run(1) this] assms(3)
  have "calm m m'" "read_inv a N N m' b'" by (auto simp: read_inv_def)
  then have "b_ptr b' = map (\<lambda>pfn. page_data m (fst (the (cpu m pfn)))) [a..<a + N]"
    using read_inv_all(1) [of a N m' b'] run(2) by (simp add: calm_def)
  with run(1) cmd(7) show ?thesis
    by (simp add: dmirror_read_def dmirror_bounce_init_def still_io_def cmd(1,4,5,6,8) page_addr_add Let_def)
qed

text \<open>
  A read of pages that are all there needs at most one fault: whatever part of the range is
  mirrored already, the command returns 0, with the process's memory in the caller's buffer.
\<close>

theorem dmirror_read_completes:
  assumes "hrf_ok hrf" and "hrf_complete hrf" and "coherent m" and "cmd_ok cmd"
    and "unat (c_addr cmd) + 4096 * (unat (c_npages cmd) + 64) \<le> 2 ^ 64"
    and "\<forall>pfn\<in>set (cmd_range cmd). cpu m pfn \<noteq> None"
  shows "\<exists>cmd' m' out. dmirror_read hrf (\<lambda>_. 0) (still_io (unat (c_npages cmd))) cmd m = Some (0, cmd', m', Some out)
    \<and> out = map (\<lambda>pfn. page_data m (fst (the (cpu m pfn)))) (cmd_range cmd)"
  using assms by (rule read_completes)

text \<open>A mirror of a process with two pages, the second not yet mirrored.\<close>

definition small_mirror :: mirror where
  "small_mirror = kernel.extend two_chunks
     \<lparr>mdevice = 0, pt = [16 \<mapsto> (100, 3)], inv_seq = 0, cpu = [16 \<mapsto> (100, True), 17 \<mapsto> (101, True)]\<rparr>"

lemma small_mirror_simps [simp]:
  "pt small_mirror = [16 \<mapsto> (100, 3)]" "cpu small_mirror = [16 \<mapsto> (100, True), 17 \<mapsto> (101, True)]"
  "page_data small_mirror = (\<lambda>_. [])" "mdevice small_mirror = 0" "inv_seq small_mirror = 0"
  by (simp_all add: small_mirror_def kernel.extend_def two_chunks_def)

lemma small_mirror_coherent: "coherent small_mirror"
  by (auto simp: coherent_def DPT_XA_TAG_WRITE_def)

definition small_cmd :: hmm_dmirror_cmd where
  "small_cmd = \<lparr>c_addr = 0x10000, c_ptr = 0, c_npages = 2, c_cpages = 0, c_faults = 0\<rparr>"

lemma small_cmd_ok: "cmd_ok small_cmd"
  by (simp add: cmd_ok_def small_cmd_def PAGE_MASK_def)

lemma small_cmd_range: "cmd_range small_cmd = [16, 17]"
proof -
  have "c_addr small_cmd = page_addr 16" "c_addr small_cmd + push_bit PAGE_SHIFT (c_npages small_cmd) = page_addr 18"
    by (simp_all add: small_cmd_def page_addr_def push_bit_eq_mult)
  then have "cmd_range small_cmd = [16..<18]" by (simp only: cmd_range_def) (simp add: pfn_range_page)
  then show ?thesis by (simp add: upt_rec)
qed

theorem dmirror_read_completes_witness:
  "\<exists>cmd' m' out. dmirror_read cpu_walk (\<lambda>_. 0) (still_io 2) small_cmd small_mirror = Some (0, cmd', m', Some out)
    \<and> out = [[], []]"
  using dmirror_read_completes [OF cpu_walk_ok cpu_walk_complete small_mirror_coherent small_cmd_ok]
  by (simp add: small_cmd_range) (auto simp: small_cmd_def)

section \<open>When a read never ends\<close>

lemma cpu_step_pt_None: "pt m pfn = None \<Longrightarrow> pt (cpu_step e m) pfn = None"
  using only_drops_step [of "{}" m e] unfolding only_drops_def by (metis empty_iff)

lemma cpu_steps_pt_None: "pt m pfn = None \<Longrightarrow> pt (fold cpu_step es m) pfn = None"
  by (induction es arbitrary: m) (simp_all add: cpu_step_pt_None)

lemma read_loop_stuck:
  assumes "a + N < 2 ^ 52" and "0 < N" and "list_all (\<lambda>r. \<not> rd_alive r) rs" and "pt m a = None"
    and "b_cpages b = 0"
  shows "read_loop hrf xa (page_addr a) (page_addr (a + N)) rs (page_addr a) m b f = None"
  using assms(3-5)
proof (induction rs arbitrary: m f)
  case Nil
  have "pfn_range (page_addr a) (page_addr (a + N)) = a # [Suc a..<a + N]"
    using assms(1,2) by (simp add: pfn_range_page upt_conv_Cons)
  with Nil show ?case by (simp add: dmirror_do_read_def)
next
  case (Cons r rs)
  have "pfn_range (page_addr a) (page_addr (a + N)) = a # [Suc a..<a + N]"
    using assms(1,2) by (simp add: pfn_range_page upt_conv_Cons)
  with Cons show ?case
    by (simp add: dmirror_do_read_def dmirror_fault_def cpu_steps_pt_None Let_def)
qed

text \<open>
  C40. When the process's memory is gone, a read of a page that is not mirrored never returns:
  \<open>dmirror_fault\<close> reports success without having faulted anything in, and the command tries again for
  ever, however long one waits and whatever happens meanwhile.
\<close>

theorem dmirror_read_dead_mm:
  assumes "cmd_ok cmd" and "0 < c_npages cmd" and "pt m (hd (cmd_range cmd)) = None"
    and "list_all (\<lambda>r. \<not> rd_alive r) (io_rounds e)" and "io_vmalloc e \<noteq> None"
  shows "dmirror_read hrf xa e cmd m = None"
proof -
  from assms(1) obtain a N where cmd: "c_addr cmd = page_addr a" "a + N < 2 ^ 52" "unat (c_npages cmd) = N"
    "push_bit PAGE_SHIFT (c_npages cmd) = page_addr N" "cmd_range cmd = [a..<a + N]"
    "page_addr a \<le> page_addr (a + N)"
    by (rule cmd_okE)
  have "0 < N" using assms(2) cmd(3) by (simp add: word_less_nat_alt)
  moreover have "pt m a = None" using assms(3) cmd(5) \<open>0 < N\<close> by simp
  ultimately show ?thesis
    using read_loop_stuck [OF cmd(2) _ assms(4)] assms(5) cmd(6)
    by (auto simp: dmirror_read_def dmirror_bounce_init_def cmd(1,4) page_addr_add Let_def)
qed

theorem dmirror_read_dead_mm_witness:
  "dmirror_read cpu_walk (\<lambda>_. 0) \<lparr>io_vmalloc = Some (\<lambda>_. []), io_rounds = replicate 1000 \<lparr>rd_alive = False, rd_pieces = [], rd_after = []\<rparr>,
     io_copy = True\<rparr> small_cmd (small_mirror\<lparr>pt := Map.empty\<rparr>) = None"
  by (rule dmirror_read_dead_mm [OF small_cmd_ok]) (simp_all add: small_cmd_def list_all_iff)

end
