(* ===== verification/Dmirror_Write.thy ===== *)
theory Dmirror_Write
  imports Dmirror_IO
begin

text \<open>
  Writing through the mirror (\<open>dmirror_write\<close>): what a command that returns 0 leaves in the process's
  memory, that no page is ever changed that the process may not write, and that what is written is
  what a later read returns.
\<close>

unbundle bit_operations_syntax

section \<open>Writing page by page\<close>

lemma do_write_loop_prefix:
  assumes "do_write_loop [a + n..<a + N] n m b = (r, m', b')" and "n \<le> N" and "b_cpages b = of_nat n"
  shows "\<exists>n'. n \<le> n' \<and> n' \<le> N \<and> b_cpages b' = of_nat n' \<and> b_ptr b' = b_ptr b \<and> b_addr b' = b_addr b
    \<and> pt m' = pt m \<and> cpu m' = cpu m
    \<and> (\<forall>j. n \<le> j \<and> j < n' \<longrightarrow> (\<exists>p. pt m (a + j) = Some (p, DPT_XA_TAG_WRITE)))
    \<and> (\<forall>q. page_data m' q \<noteq> page_data m q \<longrightarrow> (\<exists>j. n \<le> j \<and> j < n' \<and> map_option fst (pt m (a + j)) = Some q))
    \<and> (inj_on (\<lambda>j. map_option fst (pt m (a + j))) {n..<n'}
        \<longrightarrow> (\<forall>j p. n \<le> j \<and> j < n' \<and> map_option fst (pt m (a + j)) = Some p \<longrightarrow> page_data m' p = b_ptr b ! j))
    \<and> r = (if n' = N then 0 else - ENOENT) \<and> (n' = N \<or> \<not> mirrored True (a + n') m)"
  using assms
proof (induction "N - n" arbitrary: n m b)
  case 0
  then have "n = N" by simp
  with 0(2) have "r = 0" "b' = b" "m' = m" by simp_all
  with 0 \<open>n = N\<close> show ?case by (intro exI [of _ N]) auto
next
  case (Suc d)
  then have lt: "n < N" by simp
  then have cons: "[a + n..<a + N] = (a + n) # [a + Suc n..<a + N]" by (simp add: upt_conv_Cons)
  show ?case
  proof (cases "\<exists>p. pt m (a + n) = Some (p, DPT_XA_TAG_WRITE)")
    case False
    then have "r = - ENOENT" "b' = b" "m' = m"
      using Suc.prems(1) by (auto simp: cons split: option.splits if_splits)
    with lt Suc.prems False show ?thesis by (intro exI [of _ n]) (auto simp: mirrored_def)
  next
    case True
    then obtain p where p: "pt m (a + n) = Some (p, DPT_XA_TAG_WRITE)" by blast
    let ?m = "m\<lparr>page_data := (page_data m)(p := b_ptr b ! n)\<rparr>"
    let ?b = "b\<lparr>b_cpages := b_cpages b + 1\<rparr>"
    have run: "do_write_loop [a + Suc n..<a + N] (Suc n) ?m ?b = (r, m', b')"
      using Suc.prems(1) p by (simp add: cons)
    have "\<exists>n'. Suc n \<le> n' \<and> n' \<le> N \<and> b_cpages b' = of_nat n' \<and> b_ptr b' = b_ptr ?b \<and> b_addr b' = b_addr ?b
      \<and> pt m' = pt ?m \<and> cpu m' = cpu ?m
      \<and> (\<forall>j. Suc n \<le> j \<and> j < n' \<longrightarrow> (\<exists>p. pt ?m (a + j) = Some (p, DPT_XA_TAG_WRITE)))
      \<and> (\<forall>q. page_data m' q \<noteq> page_data ?m q \<longrightarrow> (\<exists>j. Suc n \<le> j \<and> j < n' \<and> map_option fst (pt ?m (a + j)) = Some q))
      \<and> (inj_on (\<lambda>j. map_option fst (pt ?m (a + j))) {Suc n..<n'}
          \<longrightarrow> (\<forall>j p. Suc n \<le> j \<and> j < n' \<and> map_option fst (pt ?m (a + j)) = Some p \<longrightarrow> page_data m' p = b_ptr ?b ! j))
      \<and> r = (if n' = N then 0 else - ENOENT) \<and> (n' = N \<or> \<not> mirrored True (a + n') ?m)"
      by (rule Suc.hyps(1) [OF _ run]) (use Suc.hyps(2) Suc.prems lt in simp_all)
    then obtain n' where n': "Suc n \<le> n'" "n' \<le> N" "b_cpages b' = of_nat n'" "b_ptr b' = b_ptr b" "b_addr b' = b_addr b"
      "pt m' = pt m" "cpu m' = cpu m"
      "\<And>j. Suc n \<le> j \<Longrightarrow> j < n' \<Longrightarrow> \<exists>p. pt m (a + j) = Some (p, DPT_XA_TAG_WRITE)"
      "\<And>q. page_data m' q \<noteq> page_data ?m q \<Longrightarrow> \<exists>j. Suc n \<le> j \<and> j < n' \<and> map_option fst (pt m (a + j)) = Some q"
      "\<And>j p. inj_on (\<lambda>j. map_option fst (pt m (a + j))) {Suc n..<n'} \<Longrightarrow> Suc n \<le> j \<Longrightarrow> j < n'
        \<Longrightarrow> map_option fst (pt m (a + j)) = Some p \<Longrightarrow> page_data m' p = b_ptr b ! j"
      "r = (if n' = N then 0 else - ENOENT)" "n' = N \<or> \<not> mirrored True (a + n') m"
      by (auto simp: mirrored_def)
    have changed: "\<exists>j. n \<le> j \<and> j < n' \<and> map_option fst (pt m (a + j)) = Some q"
      if "page_data m' q \<noteq> page_data m q" for q
    proof (cases "q = p")
      case True
      then show ?thesis using p n'(1) by (intro exI [of _ n]) simp
    next
      case False
      then have "page_data m' q \<noteq> page_data ?m q" using that by simp
      from n'(9) [OF this] show ?thesis by (meson Suc_leD)
    qed
    have content: "page_data m' q = b_ptr b ! j"
      if inj: "inj_on (\<lambda>j. map_option fst (pt m (a + j))) {n..<n'}" and j: "n \<le> j" "j < n'"
        and q: "map_option fst (pt m (a + j)) = Some q" for j q
    proof (cases "j = n")
      case False
      have "inj_on (\<lambda>j. map_option fst (pt m (a + j))) {Suc n..<n'}" using inj by (rule inj_on_subset) auto
      with False j q show ?thesis by (intro n'(10)) simp_all
    next
      case True
      with p q have "q = p" by simp
      have "page_data m' p = page_data ?m p"
      proof (rule ccontr)
        assume "page_data m' p \<noteq> page_data ?m p"
        from n'(9) [OF this] obtain i where "Suc n \<le> i" "i < n'" "map_option fst (pt m (a + i)) = Some p" by blast
        with inj p n'(1) have "i = n" by (intro inj_onD [OF inj]) auto
        with \<open>Suc n \<le> i\<close> show False by simp
      qed
      with True \<open>q = p\<close> show ?thesis by simp
    qed
    have wr: "\<exists>p. pt m (a + j) = Some (p, DPT_XA_TAG_WRITE)" if "n \<le> j" "j < n'" for j
      using that p n'(8) [of j] by (cases "j = n") auto
    have le: "n \<le> n'" using n'(1) by simp
    show ?thesis
      by (rule exI [of _ n'], intro conjI le n'(2-7,11,12)) (use changed content wr in blast)+
  qed
qed

section \<open>The loop of a write\<close>

text \<open>
  What a quiet write may do: the mirror stays coherent, frames stay mapped, and only pages the process
  may write are changed.
\<close>

definition write_calm :: "nat set \<Rightarrow> mirror \<Rightarrow> mirror \<Rightarrow> bool" where
  "write_calm R m m' \<longleftrightarrow> coherent m' \<and> kept_mapped m m'
     \<and> (\<forall>q. page_data m' q \<noteq> page_data m q \<longrightarrow> (\<exists>pfn\<in>R. cpu m' pfn = Some (q, True)))"

lemma write_calm_refl: "coherent m \<Longrightarrow> write_calm R m m"
  by (simp add: write_calm_def)

lemma kept_mappedD: "kept_mapped m m' \<Longrightarrow> cpu m pfn = Some (p, w) \<Longrightarrow> \<exists>w'. cpu m' pfn = Some (p, w') \<and> (w \<longrightarrow> w')"
  unfolding kept_mapped_def by blast

lemma write_calm_trans:
  assumes "write_calm R a b" and "write_calm R b c"
  shows "write_calm R a c"
proof -
  have "\<exists>pfn\<in>R. cpu c pfn = Some (q, True)" if "page_data c q \<noteq> page_data a q" for q
  proof (cases "page_data c q = page_data b q")
    case False
    with assms(2) show ?thesis by (simp add: write_calm_def)
  next
    case True
    with that assms(1) obtain pfn where "pfn \<in> R" "cpu b pfn = Some (q, True)"
      by (auto simp: write_calm_def)
    with assms(2) kept_mappedD [of b c pfn q True] show ?thesis by (auto simp: write_calm_def)
  qed
  with assms kept_mapped_trans show ?thesis by (auto simp: write_calm_def)
qed

lemma calm_write_calm: "calm a b \<Longrightarrow> write_calm R a b"
  by (simp add: calm_def write_calm_def)

text \<open>The first \<open>n\<close> pages of the input have been written.\<close>

definition written :: "nat \<Rightarrow> nat \<Rightarrow> u8 list list \<Rightarrow> mirror \<Rightarrow> bool" where
  "written a n inp m \<longleftrightarrow> (\<forall>j<n. \<exists>p. cpu m (a + j) = Some (p, True) \<and> page_data m p = inp ! j)"

definition distinct_pages :: "nat \<Rightarrow> nat \<Rightarrow> mirror \<Rightarrow> bool" where
  "distinct_pages a N m \<longleftrightarrow> inj_on (\<lambda>j. fst (the (cpu m (a + j)))) {0..<N}"

lemma do_write_calm:
  assumes "dmirror_do_write (page_addr (a + n)) (page_addr (a + N)) m b = (r, m', b')" and "coherent m"
    and "n \<le> N" and "b_cpages b = of_nat n" and "b_addr b = page_addr a" and "a + N < 2 ^ 52"
  obtains n' where "n \<le> n'" "n' \<le> N" "b_cpages b' = of_nat n'" "b_addr b' = page_addr a" "b_ptr b' = b_ptr b"
    "write_calm {a..<a + N} m m'" "cpu m' = cpu m" "r = (if n' = N then 0 else - ENOENT)"
    "n' = N \<or> \<not> mirrored True (a + n') m"
    "kept_mapped m mf \<Longrightarrow> distinct_pages a N mf \<Longrightarrow> written a n (b_ptr b) m \<Longrightarrow> written a n' (b_ptr b) m'"
proof -
  have "pfn_range (page_addr (a + n)) (page_addr (a + N)) = [a + n..<a + N]" "bounce_index (page_addr (a + n)) b = n"
    using assms(3,5,6) by (simp_all add: pfn_range_page bounce_index_page)
  then have "do_write_loop [a + n..<a + N] n m b = (r, m', b')"
    using assms(1) by (simp add: dmirror_do_write_def)
  from do_write_loop_prefix [OF this assms(3,4)] obtain n' where
    n': "n \<le> n'" "n' \<le> N" "b_cpages b' = of_nat n'" "b_ptr b' = b_ptr b" "b_addr b' = b_addr b"
    "pt m' = pt m" "cpu m' = cpu m"
    and wr: "\<And>j. n \<le> j \<Longrightarrow> j < n' \<Longrightarrow> \<exists>p. pt m (a + j) = Some (p, DPT_XA_TAG_WRITE)"
    and changed: "\<And>q. page_data m' q \<noteq> page_data m q \<Longrightarrow> \<exists>j. n \<le> j \<and> j < n' \<and> map_option fst (pt m (a + j)) = Some q"
    and content: "inj_on (\<lambda>j. map_option fst (pt m (a + j))) {n..<n'} \<Longrightarrow>
      (\<forall>j p. n \<le> j \<and> j < n' \<and> map_option fst (pt m (a + j)) = Some p \<longrightarrow> page_data m' p = b_ptr b ! j)"
    and r: "r = (if n' = N then 0 else - ENOENT)" "n' = N \<or> \<not> mirrored True (a + n') m" by blast
  have entry: "\<exists>p. pt m (a + j) = Some (p, DPT_XA_TAG_WRITE) \<and> cpu m (a + j) = Some (p, True)" if "n \<le> j" "j < n'" for j
  proof -
    from wr [OF that] obtain p where p: "pt m (a + j) = Some (p, DPT_XA_TAG_WRITE)" by blast
    with coherentD [OF assms(2) p] show ?thesis by auto
  qed
  have changed': "\<exists>j. n \<le> j \<and> j < n' \<and> cpu m (a + j) = Some (q, True)" if "page_data m' q \<noteq> page_data m q" for q
  proof -
    from changed [OF that] obtain j where j: "n \<le> j" "j < n'" "map_option fst (pt m (a + j)) = Some q" by blast
    with entry [OF j(1,2)] show ?thesis by auto
  qed
  have "coherent m'" using assms(2) by (simp add: coherent_def n'(6,7))
  moreover have "kept_mapped m m'" by (simp add: kept_mapped_def n'(7))
  moreover have "\<exists>pfn\<in>{a..<a + N}. cpu m' pfn = Some (q, True)" if "page_data m' q \<noteq> page_data m q" for q
  proof -
    from changed' [OF that] obtain j where "n \<le> j" "j < n'" "cpu m (a + j) = Some (q, True)" by blast
    with n'(2,7) show ?thesis by (intro bexI [of _ "a + j"]) auto
  qed
  ultimately have calm: "write_calm {a..<a + N} m m'" by (simp add: write_calm_def)
  have "written a n' (b_ptr b) m'"
    if kept: "kept_mapped m mf" and dist: "distinct_pages a N mf" and w: "written a n (b_ptr b) m"
  proof -
    have final: "fst (the (cpu mf (a + j))) = p" if "cpu m (a + j) = Some (p, v)" for j p v
      using kept_mappedD [OF kept that] by auto
    have same: "i = j" if "cpu m (a + i) = Some (p, v)" "cpu m (a + j) = Some (p, u)" "i < N" "j < N" for i j p u v
      using dist final [OF that(1)] final [OF that(2)] that(3,4) by (auto simp: distinct_pages_def inj_on_def)
    have "inj_on (\<lambda>j. map_option fst (pt m (a + j))) {n..<n'}"
    proof (rule inj_onI)
      fix i j assume i: "i \<in> {n..<n'}" and j: "j \<in> {n..<n'}"
        and eq: "map_option fst (pt m (a + i)) = map_option fst (pt m (a + j))"
      with entry [of i] entry [of j] same [of i _ _ j] n'(2) show "i = j" by fastforce
    qed
    note content = content [OF this]
    show ?thesis unfolding written_def
    proof (intro allI impI)
      fix j assume "j < n'"
      show "\<exists>p. cpu m' (a + j) = Some (p, True) \<and> page_data m' p = b_ptr b ! j"
      proof (cases "j < n")
        case True
        with w obtain p where p: "cpu m (a + j) = Some (p, True)" "page_data m p = b_ptr b ! j"
          by (auto simp: written_def)
        have "page_data m' p = page_data m p"
        proof (rule ccontr)
          assume "page_data m' p \<noteq> page_data m p"
          from changed' [OF this] obtain i where "n \<le> i" "i < n'" "cpu m (a + i) = Some (p, True)" by blast
          with same [OF p(1)] True n'(1,2) have "j = i" by auto
          with True \<open>n \<le> i\<close> show False by simp
        qed
        with p n'(7) show ?thesis by auto
      next
        case False
        with entry [of j] \<open>j < n'\<close> content n'(7) show ?thesis by auto
      qed
    qed
  qed
  with that n' assms(5) calm r show ?thesis by simp
qed

lemma written_calm: "written a n inp m \<Longrightarrow> calm m m' \<Longrightarrow> written a n inp m'"
  unfolding written_def calm_def using kept_mappedD by metis

lemma write_loop_quiet:
  assumes "hrf_ok hrf" and "a + N < 2 ^ 52"
    and "write_loop hrf xa (page_addr a) (page_addr (a + N)) rs (page_addr (a + n)) m b f = Some (r, m', b', f')"
    and "list_all quiet_round rs" and "coherent m" and "n \<le> N" and "b_cpages b = of_nat n" and "b_addr b = page_addr a"
  shows "write_calm {a..<a + N} m m'
    \<and> (r = 0 \<longrightarrow> b_cpages b' = of_nat N \<and> (distinct_pages a N m' \<and> written a n (b_ptr b) m \<longrightarrow> written a N (b_ptr b) m'))"
  using assms(3-8)
proof (induction rs arbitrary: n m b f)
  case Nil
  obtain r1 m1 b1 where dw: "dmirror_do_write (page_addr (a + n)) (page_addr (a + N)) m b = (r1, m1, b1)" by (metis prod_cases3)
  with Nil.prems(1) have same: "r1 = r" "m1 = m'" "b1 = b'" by (auto split: if_splits)
  from dw Nil.prems(3-6) assms(2) obtain n1 where n1: "n1 \<le> N" "b_cpages b1 = of_nat n1"
    "write_calm {a..<a + N} m m1" "r1 = (if n1 = N then 0 else - ENOENT)"
    "kept_mapped m m' \<Longrightarrow> distinct_pages a N m' \<Longrightarrow> written a n (b_ptr b) m \<Longrightarrow> written a n1 (b_ptr b) m1"
    by (rule do_write_calm [of a n N m b r1 m1 b1 m']) blast
  with same show ?case by (auto simp: write_calm_def split: if_splits)
next
  case (Cons rd rs)
  obtain r1 m1 b1 where dw: "dmirror_do_write (page_addr (a + n)) (page_addr (a + N)) m b = (r1, m1, b1)" by (metis prod_cases3)
  from dw Cons.prems(3-6) assms(2) obtain n1 where n1: "n1 \<le> N" "b_cpages b1 = of_nat n1" "b_addr b1 = page_addr a"
    "b_ptr b1 = b_ptr b" "write_calm {a..<a + N} m m1" "r1 = (if n1 = N then 0 else - ENOENT)"
    "kept_mapped m m' \<Longrightarrow> distinct_pages a N m' \<Longrightarrow> written a n (b_ptr b) m \<Longrightarrow> written a n1 (b_ptr b) m1"
    by (rule do_write_calm [of a n N m b r1 m1 b1 m']) blast
  have coh: "coherent m1" using n1(5) by (simp add: write_calm_def)
  show ?case
  proof (cases "n1 = N")
    case True
    with Cons.prems(1) dw n1(6) have "r = r1" "m' = m1" "b' = b1" by auto
    with True n1 show ?thesis by (auto simp: write_calm_def)
  next
    case False
    have start: "page_addr a + push_bit PAGE_SHIFT (b_cpages b1) = page_addr (a + n1)"
      using n1(1,2) assms(2) by (intro push_cpages) simp_all
    obtain r2 m2 where flt: "dmirror_fault hrf xa (rd_alive rd) (rd_pieces rd) (page_addr (a + n1)) (page_addr (a + N)) True m1 = Some (r2, m2)"
      using Cons.prems(1) dw n1(6) False start by (auto simp: Let_def split: option.splits)
    have q: "quiet_round rd" "list_all quiet_round rs" using Cons.prems(2) by simp_all
    have c2: "calm m1 m2" by (rule calm_fault [OF assms(1) coh q(1) flt])
    show ?thesis
    proof (cases "r2 = 0")
      case ret: False
      with Cons.prems(1) dw n1(6) False start flt have "r = r2" "m' = m2" by (auto simp: Let_def)
      with ret write_calm_trans [OF n1(5) calm_write_calm [OF c2]] show ?thesis by simp
    next
      case True
      let ?m3 = "fold cpu_step (rd_after rd) m2"
      have c3: "calm m1 ?m3"
        using c2 calm_steps [of "rd_after rd" m2] q(1) calm_trans by (auto simp: calm_def quiet_round_def)
      have run: "write_loop hrf xa (page_addr a) (page_addr (a + N)) rs (page_addr (a + n1)) ?m3 b1 (f + 1) = Some (r, m', b', f')"
        using Cons.prems(1) dw n1(6) False start flt True by (simp add: Let_def)
      have "coherent ?m3" using c3 by (simp add: calm_def)
      from Cons.IH [OF run q(2) this n1(1-3)] have ih: "write_calm {a..<a + N} ?m3 m'"
        "r = 0 \<longrightarrow> b_cpages b' = of_nat N \<and> (distinct_pages a N m' \<and> written a n1 (b_ptr b) ?m3 \<longrightarrow> written a N (b_ptr b) m')"
        by (simp_all add: n1(4))
      have all: "write_calm {a..<a + N} m m'"
        using write_calm_trans [OF n1(5) write_calm_trans [OF calm_write_calm [OF c3] ih(1)]] .
      then have "kept_mapped m m'" by (simp add: write_calm_def)
      with n1(7) have "distinct_pages a N m' \<Longrightarrow> written a n (b_ptr b) m \<Longrightarrow> written a n1 (b_ptr b) ?m3"
        using written_calm [OF _ c3] by blast
      with all ih(2) show ?thesis by blast
    qed
  qed
qed

lemma write_memory:
  assumes "hrf_ok hrf" and "coherent m" and "list_all quiet_round (io_rounds e)" and "cmd_ok cmd"
    and "dmirror_write hrf xa e (Some inp) cmd m = Some (r, cmd', m')" and "length inp = unat (c_npages cmd)"
  shows "coherent m' \<and> (\<forall>q. page_data m' q \<noteq> page_data m q \<longrightarrow> (\<exists>pfn\<in>set (cmd_range cmd). cpu m' pfn = Some (q, True)))
    \<and> (if r = 0 \<and> distinct (map (\<lambda>pfn. fst (the (cpu m' pfn))) (cmd_range cmd))
       then list_all2 (\<lambda>pfn d. \<exists>p. cpu m' pfn = Some (p, True) \<and> page_data m' p = d) (cmd_range cmd) inp
         \<and> c_cpages cmd' = c_npages cmd
       else True)"
proof -
  from assms(4) obtain a N where cmd: "c_addr cmd = page_addr a" "c_npages cmd = of_nat N" "a + N < 2 ^ 52"
    "unat (c_npages cmd) = N"
    "push_bit PAGE_SHIFT (c_npages cmd) = page_addr N" "cmd_range cmd = [a..<a + N]"
    "page_addr a \<le> page_addr (a + N)" "unat (drop_bit PAGE_SHIFT (page_addr N)) = N"
    by (rule cmd_okE)
  show ?thesis
  proof (cases "io_vmalloc e")
    case None
    have "\<not> page_addr (a + N) < page_addr a" using cmd(7) by simp
    with None assms(2,5) show ?thesis
      by (auto simp: dmirror_write_def dmirror_bounce_init_def cmd(1,5) page_addr_add Let_def)
  next
    case (Some junk)
    let ?b = "\<lparr>b_ptr = inp, b_size = page_addr N, b_addr = page_addr a, b_cpages = 0\<rparr>"
    obtain b' f' where run: "write_loop hrf xa (page_addr a) (page_addr (a + N)) (io_rounds e) (page_addr (a + 0)) m ?b (c_faults cmd) = Some (r, m', b', f')"
      and out: "c_cpages cmd' = b_cpages b'"
      using assms(5) cmd(7) by (auto simp: dmirror_write_def dmirror_bounce_init_def cmd(1,5) page_addr_add
          Some Let_def split: if_splits option.splits)
    have res: "write_calm {a..<a + N} m m'
      \<and> (r = 0 \<longrightarrow> b_cpages b' = of_nat N \<and> (distinct_pages a N m' \<and> written a 0 (b_ptr ?b) m \<longrightarrow> written a N (b_ptr ?b) m'))"
      by (rule write_loop_quiet [OF assms(1) cmd(3) run assms(3,2)]) simp_all
    have "list_all2 (\<lambda>pfn d. \<exists>p. cpu m' pfn = Some (p, True) \<and> page_data m' p = d) [a..<a + N] inp"
      if d: "distinct (map (\<lambda>pfn. fst (the (cpu m' pfn))) [a..<a + N])" and r: "r = 0"
    proof -
      have "inj_on (\<lambda>j. fst (the (cpu m' (a + j)))) {0..<N}"
      proof (rule inj_onI)
        fix i j assume "i \<in> {0..<N}" "j \<in> {0..<N}" "fst (the (cpu m' (a + i))) = fst (the (cpu m' (a + j)))"
        with d show "i = j" by (auto simp: distinct_conv_nth)
      qed
      then have "written a N inp m'" using res r by (simp add: distinct_pages_def written_def)
      then show ?thesis
        using assms(6) cmd(4) by (auto simp: written_def list_all2_conv_all_nth)
    qed
    with res out show ?thesis unfolding cmd(6) by (simp add: write_calm_def cmd(2))
  qed
qed


text \<open>
  C8. A write that returns 0 has put the caller's data into the process's memory: with a
  coherent mirror, nothing unmapped meanwhile and distinct pages in the range, every page of the range
  holds the data written to it, however often the command had to fault; all pages are counted. And
  whatever the result, no page changes but those the process may write in the range.
\<close>

theorem dmirror_write_reaches_memory:
  assumes "hrf_ok hrf" and "coherent m" and "list_all quiet_round (io_rounds e)" and "cmd_ok cmd"
    and "dmirror_write hrf xa e (Some inp) cmd m = Some (r, cmd', m')" and "length inp = unat (c_npages cmd)"
  shows "coherent m' \<and> (\<forall>q. page_data m' q \<noteq> page_data m q \<longrightarrow> (\<exists>pfn\<in>set (cmd_range cmd). cpu m' pfn = Some (q, True)))
    \<and> (if r = 0 \<and> distinct (map (\<lambda>pfn. fst (the (cpu m' pfn))) (cmd_range cmd))
       then list_all2 (\<lambda>pfn d. \<exists>p. cpu m' pfn = Some (p, True) \<and> page_data m' p = d) (cmd_range cmd) inp
         \<and> c_cpages cmd' = c_npages cmd
       else True)"
  using assms by (rule write_memory)

section \<open>Write, then read\<close>

lemma write_completes:
  assumes "hrf_ok hrf" and "hrf_complete hrf" and "coherent m" and "cmd_ok cmd"
    and "unat (c_addr cmd) + 4096 * (unat (c_npages cmd) + 64) \<le> 2 ^ 64"
    and "\<forall>pfn\<in>set (cmd_range cmd). \<exists>p. cpu m pfn = Some (p, True)"
  shows "\<exists>cmd' m'. dmirror_write hrf (\<lambda>_. 0) (still_io (unat (c_npages cmd))) (Some inp) cmd m = Some (0, cmd', m')
    \<and> cpu m' = cpu m"
proof -
  from assms(4) obtain a N where cmd: "c_addr cmd = page_addr a" "c_npages cmd = of_nat N" "a + N < 2 ^ 52"
    "unat (c_npages cmd) = N"
    "push_bit PAGE_SHIFT (c_npages cmd) = page_addr N" "cmd_range cmd = [a..<a + N]"
    "page_addr a \<le> page_addr (a + N)" "unat (drop_bit PAGE_SHIFT (page_addr N)) = N"
    by (rule cmd_okE)
  have room: "a + N + 64 \<le> 2 ^ 52" using assms(5) cmd(1,3,4) unat_page_addr [of a] by simp
  let ?b = "\<lparr>b_ptr = inp, b_size = page_addr N, b_addr = page_addr a, b_cpages = 0\<rparr>"
  let ?rd = "\<lparr>rd_alive = True, rd_pieces = still_pieces N, rd_after = []\<rparr>"
  obtain r1 m1 b1 where dw: "dmirror_do_write (page_addr (a + 0)) (page_addr (a + N)) m ?b = (r1, m1, b1)" by (metis prod_cases3)
  obtain n1 where n1: "n1 \<le> N" "b_cpages b1 = of_nat n1" "b_addr b1 = page_addr a"
    "write_calm {a..<a + N} m m1" "cpu m1 = cpu m" "r1 = (if n1 = N then 0 else - ENOENT)"
    by (rule do_write_calm [OF dw assms(3) _ _ _ cmd(3)]) simp_all
  have coh: "coherent m1" using n1(4) by (simp add: write_calm_def)
  have mapped: "\<forall>pfn\<in>{a + n1..<a + N}. \<exists>p w. cpu m1 pfn = Some (p, w) \<and> (True \<longrightarrow> w)"
    using assms(6) cmd(6) n1(5) by fastforce
  obtain m2 where m2: "fault_loop hrf (\<lambda>_. 0) True (page_addr (a + N)) (still_pieces N) (page_addr (a + n1)) m1 = Some (0, m2)"
    "\<forall>pfn\<in>{a + n1..<a + N}. mirrored True pfn m2" "coherent m2" "cpu m2 = cpu m1"
    by (rule still_fault [OF assms(1,2) coh room _ mapped, of N]) (use n1(1) in auto)
  have start: "page_addr a + push_bit PAGE_SHIFT (b_cpages b1) = page_addr (a + n1)"
    using n1(1,2) cmd(3) by (intro push_cpages) simp_all
  have "\<exists>m' b' f'. write_loop hrf (\<lambda>_. 0) (page_addr a) (page_addr (a + N)) [?rd] (page_addr (a + 0)) m ?b (c_faults cmd)
      = Some (0, m', b', f') \<and> cpu m' = cpu m"
  proof (cases "n1 = N")
    case True
    with n1(5,6) dw show ?thesis by simp
  next
    case False
    obtain r3 m3 b3 where dw3: "dmirror_do_write (page_addr (a + n1)) (page_addr (a + N)) m2 b1 = (r3, m3, b3)" by (metis prod_cases3)
    obtain n3 where n3: "n1 \<le> n3" "n3 \<le> N" "cpu m3 = cpu m2" "r3 = (if n3 = N then 0 else - ENOENT)"
      "n3 = N \<or> \<not> mirrored True (a + n3) m2"
      by (rule do_write_calm [OF dw3 m2(3) n1(1,2,3) cmd(3)])
    have "n3 = N" using n3(1,2,5) m2(2) by (metis add_le_cancel_left atLeastLessThan_iff le_neq_implies_less nat_add_left_cancel_less)
    with n3 dw3 dw n1(5,6) False start m2(1,4) show ?thesis
      by (simp add: dmirror_fault_def Let_def)
  qed
  with cmd(7) show ?thesis
    by (auto simp: dmirror_write_def dmirror_bounce_init_def still_io_def cmd(1,4,5,6,8) page_addr_add Let_def)
qed

text \<open>
  C5. What is written through the mirror is read back: on a range of distinct pages the process
  may write, a write of any data returns 0, and a following read returns 0 and exactly these data.
\<close>

theorem dmirror_write_then_read:
  assumes "hrf_ok hrf" and "hrf_complete hrf" and "coherent m" and "cmd_ok cmd"
    and "unat (c_addr cmd) + 4096 * (unat (c_npages cmd) + 64) \<le> 2 ^ 64"
    and "\<forall>pfn\<in>set (cmd_range cmd). \<exists>p. cpu m pfn = Some (p, True)"
    and "distinct (map (\<lambda>pfn. fst (the (cpu m pfn))) (cmd_range cmd))" and "length inp = unat (c_npages cmd)"
  shows "\<exists>cmd' m' cmd'' m''. dmirror_write hrf (\<lambda>_. 0) (still_io (unat (c_npages cmd))) (Some inp) cmd m = Some (0, cmd', m')
    \<and> dmirror_read hrf (\<lambda>_. 0) (still_io (unat (c_npages cmd))) cmd m' = Some (0, cmd'', m'', Some inp)"
proof -
  obtain cmd' m' where w: "dmirror_write hrf (\<lambda>_. 0) (still_io (unat (c_npages cmd))) (Some inp) cmd m = Some (0, cmd', m')"
    "cpu m' = cpu m"
    using write_completes [OF assms(1-6)] by blast
  have q: "list_all quiet_round (io_rounds (still_io n))" for n
    by (simp add: still_io_def quiet_round_def still_pieces_def list_all_iff quiet_attempt_def still_attempt_def)
  have wm: "coherent m'" "list_all2 (\<lambda>pfn d. \<exists>p. cpu m' pfn = Some (p, True) \<and> page_data m' p = d) (cmd_range cmd) inp"
    using write_memory [OF assms(1,3) q assms(4) w(1) assms(8)] assms(7) w(2) by auto
  have mapped: "\<forall>pfn\<in>set (cmd_range cmd). cpu m' pfn \<noteq> None" using assms(6) w(2) by fastforce
  obtain cmd'' m'' out where r: "dmirror_read hrf (\<lambda>_. 0) (still_io (unat (c_npages cmd))) cmd m' = Some (0, cmd'', m'', Some out)"
    "out = map (\<lambda>pfn. page_data m' (fst (the (cpu m' pfn)))) (cmd_range cmd)"
    using read_completes [OF assms(1,2) wm(1) assms(4,5) mapped] by blast
  have "out = inp"
    unfolding r(2) using wm(2) by (auto simp: list_all2_conv_all_nth intro!: nth_equalityI)
  with w(1) r(1) show ?thesis by blast
qed

theorem dmirror_write_then_read_witness:
  "\<exists>cmd' m' cmd'' m''. dmirror_write cpu_walk (\<lambda>_. 0) (still_io 2) (Some [[1], [2]]) small_cmd small_mirror = Some (0, cmd', m')
    \<and> dmirror_read cpu_walk (\<lambda>_. 0) (still_io 2) small_cmd m' = Some (0, cmd'', m'', Some [[1], [2]])"
proof -
  have n: "unat (c_npages small_cmd) = 2" "unat (c_addr small_cmd) = 65536" by (simp_all add: small_cmd_def)
  show ?thesis
    using dmirror_write_then_read [OF cpu_walk_ok cpu_walk_complete small_mirror_coherent small_cmd_ok, of "[[1], [2]]"]
    unfolding n small_cmd_range by simp
qed

text \<open>The witnesses of the properties over a single run.\<close>

theorem dmirror_write_reaches_memory_witness:
  "\<exists>cmd' m'. dmirror_write cpu_walk (\<lambda>_. 0) (still_io 2) (Some [[1], [2]]) small_cmd small_mirror = Some (0, cmd', m') \<and> coherent m'"
proof -
  have n: "unat (c_npages small_cmd) = 2" "unat (c_addr small_cmd) = 65536" by (simp_all add: small_cmd_def)
  have q: "list_all quiet_round (io_rounds (still_io 2))"
    by (simp add: still_io_def quiet_round_def still_pieces_def list_all_iff quiet_attempt_def still_attempt_def)
  obtain cmd' m' where "dmirror_write cpu_walk (\<lambda>_. 0) (still_io 2) (Some [[1], [2]]) small_cmd small_mirror = Some (0, cmd', m')"
    using write_completes [OF cpu_walk_ok cpu_walk_complete small_mirror_coherent small_cmd_ok, of "[[1], [2]]"]
    unfolding n small_cmd_range by auto
  with dmirror_write_reaches_memory [OF cpu_walk_ok small_mirror_coherent q small_cmd_ok this] n show ?thesis by simp
qed

theorem dmirror_read_returns_memory_witness:
  "\<exists>cmd' m'. dmirror_read cpu_walk (\<lambda>_. 0) (still_io 2) small_cmd small_mirror = Some (0, cmd', m', Some [[], []])
    \<and> c_cpages cmd' = 2"
proof -
  have n: "unat (c_npages small_cmd) = 2" "unat (c_addr small_cmd) = 65536" by (simp_all add: small_cmd_def)
  have q: "list_all quiet_round (io_rounds (still_io 2))"
    by (simp add: still_io_def quiet_round_def still_pieces_def list_all_iff quiet_attempt_def still_attempt_def)
  obtain cmd' m' out where r: "dmirror_read cpu_walk (\<lambda>_. 0) (still_io 2) small_cmd small_mirror = Some (0, cmd', m', Some out)"
    using read_completes [OF cpu_walk_ok cpu_walk_complete small_mirror_coherent small_cmd_ok]
    unfolding n small_cmd_range by auto
  from dmirror_read_returns_memory [OF cpu_walk_ok small_mirror_coherent q small_cmd_ok r] r show ?thesis
    by (auto simp: small_cmd_range) (simp add: small_cmd_def)
qed

theorem dmirror_range_fault_coherent_witness:
  "\<exists>m'. dmirror_range_fault cpu_walk (\<lambda>_. 0) True 0x10000 0x12000
      [still_attempt\<lparr>at_after := [Cpu_unmap 0x10000 0x11000, Cpu_map 16 102 True]\<rparr>, still_attempt] small_mirror = Some (0, m')
    \<and> coherent m' \<and> mirrored True 16 m'"
proof -
  have r: "pfn_range 0x10000 0x12000 = [16, 17]" "pfn_range 0x10000 0x11000 = [16]"
    by (simp_all add: pfn_range_def drop_bit_eq_div upt_rec)
  let ?run = "dmirror_range_fault cpu_walk (\<lambda>_. 0) True 0x10000 0x12000
      [still_attempt\<lparr>at_after := [Cpu_unmap 0x10000 0x11000, Cpu_map 16 102 True]\<rparr>, still_attempt] small_mirror"
  obtain m' where run: "?run = Some (0, m')"
    by (simp add: still_attempt_def r cpu_walk_def dmirror_interval_invalidate_def dmirror_do_update_def
        unmapping_def dmirror_do_fault_def xa_store_def Let_def)
  show ?thesis using dmirror_range_fault_coherent [OF cpu_walk_ok small_mirror_coherent run] run by (simp add: r)
qed

end
