(* ===== verification/Dmirror_Access.thy ===== *)
theory Dmirror_Access
  imports Dmirror_IO
begin

text \<open>
  Exclusive access (\<open>dmirror_exclusive\<close>, \<open>dmirror_atomic_map\<close>, \<open>dmirror_check_atomic\<close>) and snapshots
  (\<open>dmirror_mkentry\<close>, \<open>dmirror_range_snapshot\<close>, \<open>dmirror_snapshot\<close>) of the mirror.
\<close>

unbundle bit_operations_syntax

section \<open>Snapshots\<close>

definition HMM_DMIRROR_PROT_ERROR :: u8 where "HMM_DMIRROR_PROT_ERROR = 0xFF"
definition HMM_DMIRROR_PROT_NONE :: u8 where "HMM_DMIRROR_PROT_NONE = 0x00"
definition HMM_DMIRROR_PROT_READ :: u8 where "HMM_DMIRROR_PROT_READ = 0x01"
definition HMM_DMIRROR_PROT_WRITE :: u8 where "HMM_DMIRROR_PROT_WRITE = 0x02"
definition HMM_DMIRROR_PROT_PMD :: u8 where "HMM_DMIRROR_PROT_PMD = 0x04"
definition HMM_DMIRROR_PROT_PUD :: u8 where "HMM_DMIRROR_PROT_PUD = 0x08"
definition HMM_DMIRROR_PROT_ZERO :: u8 where "HMM_DMIRROR_PROT_ZERO = 0x10"
definition HMM_DMIRROR_PROT_DEV_PRIVATE_LOCAL :: u8 where "HMM_DMIRROR_PROT_DEV_PRIVATE_LOCAL = 0x20"
definition HMM_DMIRROR_PROT_DEV_PRIVATE_REMOTE :: u8 where "HMM_DMIRROR_PROT_DEV_PRIVATE_REMOTE = 0x30"
definition HMM_DMIRROR_PROT_DEV_COHERENT_LOCAL :: u8 where "HMM_DMIRROR_PROT_DEV_COHERENT_LOCAL = 0x40"
definition HMM_DMIRROR_PROT_DEV_COHERENT_REMOTE :: u8 where "HMM_DMIRROR_PROT_DEV_COHERENT_REMOTE = 0x50"

lemmas prot_defs = HMM_DMIRROR_PROT_ERROR_def HMM_DMIRROR_PROT_NONE_def HMM_DMIRROR_PROT_READ_def
  HMM_DMIRROR_PROT_WRITE_def HMM_DMIRROR_PROT_PMD_def HMM_DMIRROR_PROT_PUD_def HMM_DMIRROR_PROT_ZERO_def
  HMM_DMIRROR_PROT_DEV_PRIVATE_LOCAL_def HMM_DMIRROR_PROT_DEV_PRIVATE_REMOTE_def
  HMM_DMIRROR_PROT_DEV_COHERENT_LOCAL_def HMM_DMIRROR_PROT_DEV_COHERENT_REMOTE_def

text \<open>
  \<open>zero\<close> is \<open>is_zero_pfn\<close>. \<open>PMD_SHIFT\<close> and \<open>PUD_SHIFT\<close> are those of x86-64. The tests assign or add bits
  in the order of the code.
\<close>

abbreviation PMD_SHIFT :: nat where "PMD_SHIFT \<equiv> 21"
abbreviation PUD_SHIFT :: nat where "PUD_SHIFT \<equiv> 30"

definition dmirror_mkentry :: "(page \<Rightarrow> bool) \<Rightarrow> mirror \<Rightarrow> hmm_pfn \<Rightarrow> u8" where
  "dmirror_mkentry zero m entry =
    (if hp_error entry then HMM_DMIRROR_PROT_ERROR
     else if \<not> hp_valid entry then HMM_DMIRROR_PROT_NONE
     else let page = hp_page entry;
              local = (dmirror_page_to_device m page = Some (mdevice m));
              perm = (if is_device_page MEMORY_DEVICE_PRIVATE m page
                      then (if local then HMM_DMIRROR_PROT_DEV_PRIVATE_LOCAL else HMM_DMIRROR_PROT_DEV_PRIVATE_REMOTE)
                      else if is_device_page MEMORY_DEVICE_COHERENT m page
                      then (if local then HMM_DMIRROR_PROT_DEV_COHERENT_LOCAL else HMM_DMIRROR_PROT_DEV_COHERENT_REMOTE)
                      else if zero page then HMM_DMIRROR_PROT_ZERO
                      else HMM_DMIRROR_PROT_NONE);
              perm = perm OR (if hp_write entry then HMM_DMIRROR_PROT_WRITE else HMM_DMIRROR_PROT_READ)
          in if hp_order entry + PAGE_SHIFT = PMD_SHIFT then perm OR HMM_DMIRROR_PROT_PMD
             else if hp_order entry + PAGE_SHIFT = PUD_SHIFT then perm OR HMM_DMIRROR_PROT_PUD
             else perm)"

text \<open>A snapshot notifier only sets the sequence number.\<close>

definition dmirror_snapshot_invalidate :: "invalidation \<Rightarrow> mirror \<Rightarrow> bool \<times> mirror" where
  "dmirror_snapshot_invalidate r m =
    (if \<not> inv_blockable r \<and> \<not> inv_trylock r then (False, m) else (True, m\<lparr>inv_seq := inv_cur_seq r\<rparr>))"

text \<open>
  The environment of one piece: the result of \<open>mmu_interval_notifier_insert\<close>, the attempts, and whether
  \<open>copy_to_user\<close> succeeds. \<open>hmm_range_fault\<close> is asked for what is there (\<open>default_flags\<close> 0): \<open>hrf\<close> with
  no request for write access. The sequence number is that of the piece's own notifier; an
  invalidation of the range changes it together with the mirror's.
\<close>

record snapshot_env =
  sn_insert :: int
  sn_attempts :: "attempt list"
  sn_copy :: bool

fun snapshot_attempts ::
  "((nat \<rightharpoonup> page \<times> bool) \<Rightarrow> u64 \<Rightarrow> u64 \<Rightarrow> int \<times> hmm_pfn list) \<Rightarrow> (page \<Rightarrow> bool) \<Rightarrow> u64 \<Rightarrow> u64 \<Rightarrow> attempt list \<Rightarrow> mirror \<Rightarrow> (int \<times> u8 list \<times> mirror) option"
where
  "snapshot_attempts hrf zero start fin [] m = None"
| "snapshot_attempts hrf zero start fin (a # ats) m =
    (if at_expired a then Some (- EBUSY, [], m)
     else let notifier_seq = inv_seq m;
              m = fold cpu_step (at_before a) m;
              (ret, pfns) = (if at_ret a \<noteq> 0 then (at_ret a, []) else hrf (cpu m) start fin);
              m = fold cpu_step (at_after a) m
     in if ret \<noteq> 0
        then (if ret = - EBUSY then snapshot_attempts hrf zero start fin ats m else Some (ret, [], m))
        else if inv_seq m \<noteq> notifier_seq then snapshot_attempts hrf zero start fin ats m
        else Some (0, map (dmirror_mkentry zero m) (take (unat (drop_bit PAGE_SHIFT (fin - start))) pfns), m))"

definition dmirror_range_snapshot ::
  "((nat \<rightharpoonup> page \<times> bool) \<Rightarrow> u64 \<Rightarrow> u64 \<Rightarrow> int \<times> hmm_pfn list) \<Rightarrow> (page \<Rightarrow> bool) \<Rightarrow> snapshot_env \<Rightarrow> u64 \<Rightarrow> u64 \<Rightarrow> mirror \<Rightarrow> (int \<times> u8 list \<times> mirror) option"
where
  "dmirror_range_snapshot hrf zero e start fin m =
    (if sn_insert e \<noteq> 0 then Some (sn_insert e, [], m)
     else snapshot_attempts hrf zero start fin (sn_attempts e) m)"

text \<open>The bytes written to the user's buffer so far are kept with the mirror and the count \<open>cpages\<close>.\<close>

definition snapshot_step ::
  "((nat \<rightharpoonup> page \<times> bool) \<Rightarrow> u64 \<Rightarrow> u64 \<Rightarrow> int \<times> hmm_pfn list) \<Rightarrow> (page \<Rightarrow> bool) \<Rightarrow> snapshot_env \<Rightarrow> u64 \<Rightarrow> u64
    \<Rightarrow> u8 list \<times> u64 \<times> mirror \<Rightarrow> (int \<times> u8 list \<times> u64 \<times> mirror) option"
where
  "snapshot_step hrf zero e addr nxt = (\<lambda>(out, cpages, m).
    (case dmirror_range_snapshot hrf zero e addr nxt m of
       None \<Rightarrow> None
     | Some (ret, perm, m) \<Rightarrow>
         if ret \<noteq> 0 then Some (ret, out, cpages, m)
         else if \<not> sn_copy e then Some (- EFAULT, out, cpages, m)
         else Some (0, out @ perm, cpages + drop_bit PAGE_SHIFT (nxt - addr), m)))"

fun snapshot_loop ::
  "((nat \<rightharpoonup> page \<times> bool) \<Rightarrow> u64 \<Rightarrow> u64 \<Rightarrow> int \<times> hmm_pfn list) \<Rightarrow> (page \<Rightarrow> bool) \<Rightarrow> u64 \<Rightarrow> snapshot_env list \<Rightarrow> u64
    \<Rightarrow> u8 list \<times> u64 \<times> mirror \<Rightarrow> (int \<times> u8 list \<times> u64 \<times> mirror) option"
where
  "snapshot_loop hrf zero fin [] addr s = (if addr < fin then None else Some (0, s))"
| "snapshot_loop hrf zero fin (e # es) addr s =
    (if addr < fin
     then (case snapshot_step hrf zero e addr (next_piece addr fin) s of
             None \<Rightarrow> None
           | Some (r, s) \<Rightarrow> if r \<noteq> 0 then Some (r, s) else snapshot_loop hrf zero fin es (next_piece addr fin) s)
     else Some (0, s))"

definition dmirror_snapshot ::
  "((nat \<rightharpoonup> page \<times> bool) \<Rightarrow> u64 \<Rightarrow> u64 \<Rightarrow> int \<times> hmm_pfn list) \<Rightarrow> (page \<Rightarrow> bool) \<Rightarrow> bool \<Rightarrow> snapshot_env list \<Rightarrow> hmm_dmirror_cmd \<Rightarrow> mirror
    \<Rightarrow> (int \<times> hmm_dmirror_cmd \<times> mirror \<times> u8 list) option"
where
  "dmirror_snapshot hrf zero mmget_not_zero es cmd m =
    (let nbytes = push_bit PAGE_SHIFT (c_npages cmd);
         start = c_addr cmd;
         fin = start + nbytes
     in if fin < start then Some (- EINVAL, cmd, m, [])
     else if \<not> mmget_not_zero then Some (- EINVAL, cmd, m, [])
     else case snapshot_loop hrf zero fin es start ([], c_cpages cmd, m) of
       None \<Rightarrow> None
     | Some (ret, out, cpages, m) \<Rightarrow> Some (ret, cmd\<lparr>c_cpages := cpages\<rparr>, m, out))"

interpretation snapshot_pieces: piecewise "snapshot_step hrf zero" "snapshot_loop hrf zero" for hrf zero
  by unfold_locales simp_all

section \<open>The permission byte\<close>



section \<open>What a snapshot reports\<close>

text \<open>A piece in which nothing interferes and nothing fails.\<close>

definition still_snapshot :: snapshot_env where
  "still_snapshot = \<lparr>sn_insert = 0, sn_attempts = [still_attempt], sn_copy = True\<rparr>"

lemma snapshot_loop_still:
  assumes "\<And>c s e. hrf c s e = (0, map (describe c) (pfn_range s e))" and "b + 64 \<le> 2 ^ 52" and "a \<le> b" and "b - a \<le> 64 * n"
  shows "snapshot_loop hrf zero (page_addr b) (replicate n still_snapshot) (page_addr a) (out, k, m)
    = Some (0, out @ map (\<lambda>pfn. dmirror_mkentry zero m (describe (cpu m) pfn)) [a..<b], k + of_nat (b - a), m)"
  using assms(3,4)
proof (induction n arbitrary: a out k)
  case (Suc n)
  show ?case
  proof (cases "a < b")
    case True
    let ?c = "min (a + 64) b"
    have nxt: "next_piece (page_addr a) (page_addr b) = page_addr ?c"
      using True assms(2) by (rule next_piece_page)
    have range: "pfn_range (page_addr a) (page_addr ?c) = [a..<?c]"
      using True assms(2) by (intro pfn_range_page) simp_all
    have "page_addr ?c - page_addr a = page_addr (?c - a)"
      using page_addr_diff [of a "?c - a"] True by simp
    then have len: "unat (drop_bit PAGE_SHIFT (page_addr ?c - page_addr a)) = ?c - a"
      using True assms(2) by simp
    then have cnt: "drop_bit PAGE_SHIFT (page_addr ?c - page_addr a) = of_nat (?c - a)"
      unfolding len [symmetric] by simp
    have step: "snapshot_step hrf zero still_snapshot (page_addr a) (page_addr ?c) (out, k, m)
      = Some (0, out @ map (\<lambda>pfn. dmirror_mkentry zero m (describe (cpu m) pfn)) [a..<?c], k + of_nat (?c - a), m)"
      using len cnt by (simp add: snapshot_step_def dmirror_range_snapshot_def still_snapshot_def still_attempt_def
          assms(1) range)
    have "[a..<b] = [a..<?c] @ [?c..<b]" using upt_add_eq_append [of a ?c "b - ?c"] True by simp
    moreover have "(of_nat (?c - a) :: u64) + of_nat (b - ?c) = of_nat (b - a)"
      using True by (simp flip: of_nat_add)
    ultimately show ?thesis
      using True assms(2) Suc.IH [of ?c "out @ map (\<lambda>pfn. dmirror_mkentry zero m (describe (cpu m) pfn)) [a..<?c]" "k + of_nat (?c - a)"] Suc.prems
      by (simp add: page_addr_less nxt step add.assoc del: upt_conv_Nil)
  next
    case False
    with Suc.prems show ?thesis by simp
  qed
qed simp



section \<open>Exclusive access\<close>

definition exclusive_step ::
  "(nat \<Rightarrow> int) \<Rightarrow> int \<times> page option list \<Rightarrow> u64 \<Rightarrow> u64 \<Rightarrow> mirror \<Rightarrow> (int \<times> mirror) option" where
  "exclusive_step xa e addr nxt m =
    (let (mapped, m) = (if word_of_int (fst e) = drop_bit PAGE_SHIFT (nxt - addr)
                        then dmirror_atomic_map xa addr nxt (snd e) m else (0, m))
     in if addr + push_bit PAGE_SHIFT (word_of_int mapped) < nxt then Some (- EBUSY, m) else Some (0, m))"

lemma next_piece_if: "(if fin < addr + push_bit PAGE_SHIFT 64 then fin else addr + push_bit PAGE_SHIFT 64) = next_piece addr fin"
  by (auto simp: next_piece_def min_def)

interpretation exclusive_pieces: piecewise "exclusive_step xa" "\<lambda>fin es addr. exclusive_loop xa fin es addr" for xa
proof unfold_locales
  fix fin addr s and es :: "(int \<times> page option list) list" and e :: "int \<times> page option list"
  obtain ret pages where e: "e = (ret, pages)" by (cases e)
  show "exclusive_loop xa fin (e # es) addr s =
      (if addr < fin
       then (case exclusive_step xa e addr (next_piece addr fin) s of
               None \<Rightarrow> None
             | Some (r, s) \<Rightarrow> if r \<noteq> 0 then Some (r, s) else exclusive_loop xa fin es (next_piece addr fin) s)
       else Some (0, s))"
    unfolding e exclusive_loop.simps next_piece_if exclusive_step_def
    by (auto simp: Let_def split: prod.splits)
qed simp

text \<open>\<open>atomic m pfn\<close>: the mirror's entry for the frame is an exclusive one.\<close>

definition exclusive_entry :: "nat \<Rightarrow> mirror \<Rightarrow> bool" where
  "exclusive_entry pfn m \<longleftrightarrow> map_option snd (pt m pfn) = Some DPT_XA_TAG_ATOMIC"

lemma atomic_map_loop_ok:
  assumes "atomic_map_loop xa pfns ps k m = (r, m')" and "distinct pfns"
  shows "((\<exists>pfn\<in>set pfns. r = xa pfn \<and> r \<noteq> 0) \<or>
      (k \<le> r \<and> r \<le> k + int (length pfns) \<and> (r = k + int (length pfns) \<longrightarrow> (\<forall>pfn\<in>set pfns. exclusive_entry pfn m'))))
    \<and> (\<forall>pfn. exclusive_entry pfn m \<longrightarrow> exclusive_entry pfn m')"
  using assms
proof (induction xa pfns ps k m rule: atomic_map_loop.induct)
  case (1 xa pfn pfns p ps k m)
  show ?case
  proof (cases p)
    case None
    with 1 have "atomic_map_loop xa pfns ps k m = (r, m')" "distinct pfns" by simp_all
    with 1(1) [OF None] show ?thesis by auto
  next
    case (Some page)
    show ?thesis
    proof (cases "xa pfn = 0")
      case False
      with Some 1(3) show ?thesis by (auto simp: xa_store_def)
    next
      case True
      let ?m = "m\<lparr>pt := (pt m)(pfn \<mapsto> (page, DPT_XA_TAG_ATOMIC))\<rparr>"
      have run: "atomic_map_loop xa pfns ps (k + 1) ?m = (r, m')"
        using Some True 1(3) by (simp add: xa_store_def)
      have ih: "((\<exists>pfn\<in>set pfns. r = xa pfn \<and> r \<noteq> 0) \<or>
          (k + 1 \<le> r \<and> r \<le> k + 1 + int (length pfns) \<and> (r = k + 1 + int (length pfns) \<longrightarrow> (\<forall>pfn\<in>set pfns. exclusive_entry pfn m'))))
        \<and> (\<forall>pfn. exclusive_entry pfn ?m \<longrightarrow> exclusive_entry pfn m')"
        by (rule 1(2) [OF Some, of 0 ?m]) (use run True 1(4) in \<open>simp_all add: xa_store_def\<close>)
      have "exclusive_entry pfn ?m" "exclusive_entry q m \<Longrightarrow> exclusive_entry q ?m" for q
        by (simp_all add: exclusive_entry_def)
      with ih show ?thesis by auto
    qed
  qed
qed simp_all

lemma exclusive_step_ok:
  assumes "exclusive_step xa e addr nxt m = Some (0, m')" and "addr = page_addr a" and "nxt = page_addr b"
    and "a \<le> b" and "b < 2 ^ 52" and "12 \<le> a" and "\<forall>n. xa n = 0 \<or> xa n = - ENOMEM"
  shows "(\<forall>pfn\<in>set (pfn_range addr nxt). exclusive_entry pfn m') \<and> (\<forall>pfn. exclusive_entry pfn m \<longrightarrow> exclusive_entry pfn m')"
proof -
  have range: "pfn_range addr nxt = [a..<b]" using assms(2-5) by (simp add: pfn_range_page)
  have diff: "unat (drop_bit PAGE_SHIFT (nxt - addr)) = b - a"
    using page_addr_diff [of a "b - a"] assms(2-5) by simp
  obtain r m1 where r: "(if word_of_int (fst e) = drop_bit PAGE_SHIFT (nxt - addr)
      then dmirror_atomic_map xa addr nxt (snd e) m else (0, m)) = (r, m1)" by fastforce
  define P where "P \<longleftrightarrow> addr + push_bit PAGE_SHIFT (word_of_int r) < nxt"
  have run: "(if P then Some (- EBUSY, m1) else Some (0, m1)) = Some (0, m')"
    using assms(1) unfolding exclusive_step_def Let_def r prod.case P_def .
  then have m1: "m1 = m'" and "\<not> P"
    by (simp_all split: if_splits)
  from \<open>\<not> P\<close> have ge: "\<not> addr + push_bit PAGE_SHIFT (word_of_int r) < nxt" unfolding P_def .
  consider (all) "dmirror_atomic_map xa addr nxt (snd e) m = (r, m')" | (none) "r = 0" "m' = m"
    using r unfolding m1 by (metis prod.inject)
  then show ?thesis
  proof cases
    case none
    then have "\<not> a < b" using ge assms(2-5) by (simp add: page_addr_less)
    with none range show ?thesis by simp
  next
    case all
    then have run: "atomic_map_loop xa [a..<b] (snd e) 0 m = (r, m')"
      by (simp add: dmirror_atomic_map_def range)
    note res = atomic_map_loop_ok [OF run distinct_upt]
    have "r \<noteq> - ENOMEM"
    proof
      assume "r = - ENOMEM"
      then have "push_bit PAGE_SHIFT (word_of_int r :: u64) = - page_addr 12"
        by (simp add: page_addr_def push_bit_eq_mult)
      then have "addr + push_bit PAGE_SHIFT (word_of_int r) = page_addr (a - 12)"
        using page_addr_diff [of 12 "a - 12"] page_addr_add [of 12 "a - 12"] assms(2,6) by simp
      with ge have "b \<le> a - 12" using assms(3-6) by (simp add: page_addr_less)
      with assms(4,6) show False by simp
    qed
    then have "\<not> (\<exists>pfn\<in>set [a..<b]. r = xa pfn \<and> r \<noteq> 0)" using assms(7) by auto
    with res have "0 \<le> r \<and> r \<le> 0 + int (length [a..<b])
        \<and> (r = 0 + int (length [a..<b]) \<longrightarrow> (\<forall>pfn\<in>set [a..<b]. exclusive_entry pfn m'))" by blast
    then have k: "0 \<le> r" "r \<le> int (b - a)" "r = int (b - a) \<longrightarrow> (\<forall>pfn\<in>set [a..<b]. exclusive_entry pfn m')"
      by simp_all
    obtain n where n: "r = int n" "n \<le> b - a" using k(1,2) by (metis nonneg_int_cases of_nat_le_iff)
    have "push_bit PAGE_SHIFT (word_of_int r :: u64) = page_addr n"
      using n assms(4,5) by (simp add: push_bit_page unsigned_of_nat take_bit_nat_eq_self)
    then have "\<not> page_addr (a + n) < page_addr b" using ge assms(2,3) by (simp add: page_addr_add)
    then have "b \<le> a + n" using n(2) assms(4,5) by (simp add: page_addr_less)
    then have "r = int (b - a)" using n by simp
    with k(3) res range show ?thesis by simp
  qed
qed



end
