(* ===== verification/Dmirror_Migrate.thy ===== *)
theory Dmirror_Migrate
  imports Dmirror_Access
begin

text \<open>
  Migration between system and device memory in \<open>hmm.c\<close>: the copy loops
  \<open>dmirror_migrate_alloc_and_copy\<close>, \<open>dmirror_migrate_finalize_and_map\<close> and
  \<open>dmirror_devmem_fault_alloc_and_copy\<close>, the two commands and the CPU fault on a device page. What the
  \<open>migrate_vma\<close> functions of the kernel do to the array \<open>src\<close> is an argument.
\<close>

unbundle bit_operations_syntax

section \<open>From system to device memory\<close>

definition is_zone_device_page :: "'s kernel_scheme \<Rightarrow> page \<Rightarrow> bool" where
  "is_zone_device_page k p = (pgmap k p \<noteq> None)"

definition clear_highpage :: "page \<Rightarrow> 's kernel_scheme \<Rightarrow> 's kernel_scheme" where
  "clear_highpage p k = k\<lparr>page_data := (page_data k)(p := replicate 4096 0)\<rparr>"

text \<open>
  One entry of the loop: \<open>self\<close> is the number of the \<open>struct dmirror\<close>, \<open>vm_write\<close> whether the area is
  writable; the entry \<open>dst\<close> keeps its value where the code continues.
\<close>

definition alloc_and_copy_one ::
  "nat \<Rightarrow> bool \<Rightarrow> mpfn \<Rightarrow> mpfn \<Rightarrow> page_env \<Rightarrow> mirror \<Rightarrow> (mpfn \<times> mirror) option"
where
  "alloc_and_copy_one self vm_write src dst e m =
    (let spage = migrate_pfn_to_page src
     in if \<not> mp_migrate src then Some (dst, m)
     else if (case spage of None \<Rightarrow> False | Some p \<Rightarrow> is_zone_device_page m p) then Some (dst, m)
     else case dmirror_devmem_alloc_page e (mdevice m) m of
       None \<Rightarrow> None
     | Some (None, m) \<Rightarrow> Some (dst, m)
     | Some (Some dpage, m) \<Rightarrow>
         (case BACKING_PAGE m dpage of
            PageP rpage \<Rightarrow>
              let m = (case spage of None \<Rightarrow> clear_highpage rpage m | Some p \<Rightarrow> copy_highpage rpage p m);
                  m = m\<lparr>zone_device_data := (zone_device_data m)(rpage := MirrorP self)\<rparr>
              in Some ((migrate_pfn dpage)\<lparr>mp_write := mp_write src \<or> (spage = None \<and> vm_write)\<rparr>, m)
          | _ \<Rightarrow> None))"

fun dmirror_migrate_alloc_and_copy ::
  "nat \<Rightarrow> bool \<Rightarrow> mpfn list \<Rightarrow> mpfn list \<Rightarrow> page_env list \<Rightarrow> mirror \<Rightarrow> (mpfn list \<times> mirror) option"
where
  "dmirror_migrate_alloc_and_copy self vm_write (s # ss) (d # ds) (e # es) m =
    (case alloc_and_copy_one self vm_write s d e m of
       None \<Rightarrow> None
     | Some (d', m) \<Rightarrow> map_option (\<lambda>(ds', m). (d' # ds', m)) (dmirror_migrate_alloc_and_copy self vm_write ss ds es m))"
| "dmirror_migrate_alloc_and_copy self vm_write _ ds _ m = Some (ds, m)"

text \<open>The assignment that the source leaves without a target is taken to be to \<open>dpage\<close>, which it declares.\<close>

fun finalize_loop :: "(nat \<Rightarrow> int) \<Rightarrow> nat list \<Rightarrow> mpfn list \<Rightarrow> mpfn list \<Rightarrow> mirror \<Rightarrow> (int \<times> mirror) option" where
  "finalize_loop xa (pfn # pfns) (s # ss) (d # ds) m =
    (if \<not> mp_migrate s then finalize_loop xa pfns ss ds m
     else case migrate_pfn_to_page d of
       None \<Rightarrow> finalize_loop xa pfns ss ds m
     | Some dpage \<Rightarrow>
         (case BACKING_PAGE m dpage of
            PageP rpage \<Rightarrow>
              (case xa_store xa pfn (rpage, if mp_write d then DPT_XA_TAG_WRITE else 0) m of (r, m) \<Rightarrow>
                 if r \<noteq> 0 then Some (r, m) else finalize_loop xa pfns ss ds m)
          | _ \<Rightarrow> None))"
| "finalize_loop xa _ _ _ m = Some (0, m)"

definition dmirror_migrate_finalize_and_map ::
  "(nat \<Rightarrow> int) \<Rightarrow> u64 \<Rightarrow> u64 \<Rightarrow> mpfn list \<Rightarrow> mpfn list \<Rightarrow> mirror \<Rightarrow> (int \<times> mirror) option" where
  "dmirror_migrate_finalize_and_map xa start fin src dst m = finalize_loop xa (pfn_range start fin) src dst m"

section \<open>From device to system memory\<close>

text \<open>\<open>news\<close> are the results of \<open>alloc_page_vma\<close>; the entries belong to consecutive frames from \<open>pfn\<close>.\<close>

fun dmirror_devmem_fault_alloc_and_copy ::
  "nat \<Rightarrow> mpfn list \<Rightarrow> mpfn list \<Rightarrow> page option list \<Rightarrow> mirror \<Rightarrow> (mpfn list \<times> mirror) option"
where
  "dmirror_devmem_fault_alloc_and_copy pfn (s # ss) (d # ds) (new # news) m =
    (case (case (if \<not> mp_migrate s then None else migrate_pfn_to_page s) of
             None \<Rightarrow> Some (d, m)
           | Some spage \<Rightarrow>
               if \<not> is_device_page MEMORY_DEVICE_PRIVATE m spage \<and> \<not> is_device_page MEMORY_DEVICE_COHERENT m spage
               then Some (d, m)
               else (case new of
                   None \<Rightarrow> Some (d, m)
                 | Some dpage \<Rightarrow>
                     (case BACKING_PAGE m spage of
                        PageP from \<Rightarrow>
                          let m = m\<lparr>pt := (pt m)(pfn := None), sys_pages := insert dpage (sys_pages m)\<rparr>
                          in Some ((migrate_pfn dpage)\<lparr>mp_write := mp_write s\<rparr>, copy_highpage dpage from m)
                      | _ \<Rightarrow> None))) of
       None \<Rightarrow> None
     | Some (d', m) \<Rightarrow>
         map_option (\<lambda>(ds', m). (d' # ds', m)) (dmirror_devmem_fault_alloc_and_copy (pfn + 1) ss ds news m))"
| "dmirror_devmem_fault_alloc_and_copy pfn _ ds _ m = Some (ds, m)"

definition dmirror_successful_migrated_pages :: "mpfn list \<Rightarrow> u64" where
  "dmirror_successful_migrated_pages src = of_nat (length (filter (\<lambda>s. mp_valid s \<and> mp_migrate s) src))"

section \<open>The commands\<close>

record vm_area =
  vm_end :: u64
  vm_read :: bool
  vm_writable :: bool

text \<open>
  One piece: the area \<open>vma_lookup\<close> finds, the result of \<open>migrate_vma_setup\<close> and the array \<open>src\<close> it fills
  in, what the page allocators return, \<open>src\<close> after \<open>migrate_vma_pages\<close>, and the device pages
  \<open>migrate_vma_finalize\<close> frees.
\<close>

record migrate_env =
  mg_vma :: "vm_area option"
  mg_setup :: int
  mg_src :: "mpfn list"
  mg_alloc :: "page_env list"
  mg_news :: "page option list"
  mg_after :: "mpfn list"
  mg_freed :: "page list"

definition next_in_vma :: "u64 \<Rightarrow> u64 \<Rightarrow> vm_area \<Rightarrow> u64" where
  "next_in_vma addr fin vma =
    (let nxt = min fin (addr + push_bit PAGE_SHIFT 64) in if nxt > vm_end vma then vm_end vma else nxt)"

text \<open>The array \<open>dst\<close> is the same for all pieces and is not cleared in between.\<close>

fun to_system_loop :: "u64 \<Rightarrow> migrate_env list \<Rightarrow> u64 \<Rightarrow> mpfn list \<Rightarrow> u64 \<Rightarrow> mirror \<Rightarrow> (int \<times> u64 \<times> mirror) option" where
  "to_system_loop fin [] addr dst cpages m = (if addr < fin then None else Some (0, cpages, m))"
| "to_system_loop fin (e # es) addr dst cpages m =
    (if addr < fin
     then (case mg_vma e of
             None \<Rightarrow> Some (- EINVAL, cpages, m)
           | Some vma \<Rightarrow>
           if \<not> vm_read vma then Some (- EINVAL, cpages, m)
           else if mg_setup e \<noteq> 0 then Some (mg_setup e, cpages, m)
           else let nxt = next_in_vma addr fin vma;
                    n = length (pfn_range addr nxt)
           in case dmirror_devmem_fault_alloc_and_copy (unat (drop_bit PAGE_SHIFT addr)) (take n (mg_src e)) dst (mg_news e) m of
                None \<Rightarrow> None
              | Some (dst, m) \<Rightarrow>
              let cpages = cpages + dmirror_successful_migrated_pages (take n (mg_after e))
              in case free_all (mg_freed e) m of
                None \<Rightarrow> None
              | Some m \<Rightarrow> to_system_loop fin es nxt dst cpages m)
     else Some (0, cpages, m))"

definition dmirror_migrate_to_system ::
  "bool \<Rightarrow> migrate_env list \<Rightarrow> hmm_dmirror_cmd \<Rightarrow> mirror \<Rightarrow> (int \<times> hmm_dmirror_cmd \<times> mirror) option" where
  "dmirror_migrate_to_system mmget_not_zero es cmd m =
    (let nbytes = push_bit PAGE_SHIFT (c_npages cmd); start = c_addr cmd; fin = start + nbytes
     in if fin < start then Some (- EINVAL, cmd, m)
     else if \<not> mmget_not_zero then Some (- EINVAL, cmd, m)
     else case to_system_loop fin es start (replicate 64 no_pfn) 0 m of
       None \<Rightarrow> None
     | Some (ret, cpages, m) \<Rightarrow> Some (ret, cmd\<lparr>c_cpages := cpages\<rparr>, m))"

fun to_device_loop ::
  "(nat \<Rightarrow> int) \<Rightarrow> nat \<Rightarrow> u64 \<Rightarrow> migrate_env list \<Rightarrow> u64 \<Rightarrow> mpfn list \<Rightarrow> mirror \<Rightarrow> (int \<times> mirror) option" where
  "to_device_loop xa self fin [] addr dst m = (if addr < fin then None else Some (0, m))"
| "to_device_loop xa self fin (e # es) addr dst m =
    (if addr < fin
     then (case mg_vma e of
             None \<Rightarrow> Some (- EINVAL, m)
           | Some vma \<Rightarrow>
           if \<not> vm_read vma then Some (- EINVAL, m)
           else if mg_setup e \<noteq> 0 then Some (mg_setup e, m)
           else let nxt = next_in_vma addr fin vma;
                    n = length (pfn_range addr nxt)
           in case dmirror_migrate_alloc_and_copy self (vm_writable vma) (take n (mg_src e)) dst (mg_alloc e) m of
                None \<Rightarrow> None
              | Some (dst, m) \<Rightarrow>
              (case dmirror_migrate_finalize_and_map xa addr nxt (mg_after e) dst m of
                None \<Rightarrow> None
              | Some (_, m) \<Rightarrow>
              (case free_all (mg_freed e) m of
                None \<Rightarrow> None
              | Some m \<Rightarrow> to_device_loop xa self fin es nxt dst m)))
     else Some (0, m))"

definition dmirror_migrate_to_device ::
  "(nat \<Rightarrow> int) \<Rightarrow> nat \<Rightarrow> bool \<Rightarrow> migrate_env list \<Rightarrow> (nat \<Rightarrow> u8 list) option \<Rightarrow> bool \<Rightarrow> hmm_dmirror_cmd \<Rightarrow> mirror
    \<Rightarrow> (int \<times> hmm_dmirror_cmd \<times> mirror \<times> u8 list list option) option" where
  "dmirror_migrate_to_device xa self mmget_not_zero es vmalloc copy cmd m =
    (let nbytes = push_bit PAGE_SHIFT (c_npages cmd); start = c_addr cmd; fin = start + nbytes
     in if fin < start then Some (- EINVAL, cmd, m, None)
     else if \<not> mmget_not_zero then Some (- EINVAL, cmd, m, None)
     else case to_device_loop xa self fin es start (replicate 64 no_pfn) m of
       None \<Rightarrow> None
     | Some (ret, m) \<Rightarrow>
         if ret \<noteq> 0 then Some (ret, cmd, m, None)
         else Some (read_back vmalloc copy start nbytes fin cmd m))"

text \<open>
  The CPU touches a device page: \<open>setup_fails\<close> is the result of \<open>migrate_vma_setup\<close>. The mirror is found
  through the backing page; the result is \<open>VM_FAULT_SIGBUS\<close> (\<open>False\<close>) or 0 (\<open>True\<close>).
\<close>

definition dmirror_devmem_fault ::
  "bool \<Rightarrow> mpfn \<Rightarrow> page option \<Rightarrow> page list \<Rightarrow> page \<Rightarrow> u64 \<Rightarrow> mirror \<Rightarrow> (bool \<times> mpfn \<times> mirror) option" where
  "dmirror_devmem_fault setup_fails src new freed vmf_page address m =
    (case zone_device_data m vmf_page of
       PageP rpage \<Rightarrow>
         (case zone_device_data m rpage of
            MirrorP self \<Rightarrow>
              if setup_fails then Some (False, no_pfn, m)
              else (case dmirror_devmem_fault_alloc_and_copy (unat (drop_bit PAGE_SHIFT address)) [src] [no_pfn] [new] m of
                  None \<Rightarrow> None
                | Some (dst, m) \<Rightarrow>
                    (case free_all freed m of None \<Rightarrow> None | Some m \<Rightarrow> Some (True, hd dst, m)))
          | _ \<Rightarrow> None)
     | _ \<Rightarrow> None)"

section \<open>What the copy loops achieve\<close>

lemma alloc_one_ok:
  assumes "device_ok (mdevice m) m (p # qs)" and "mp_migrate s" and "mp_valid s" and "pgmap m (mp_page s) = None"
    and "e_alloc_page e = Some r" and "pgmap m r = None" and "list_all (\<lambda>q. pgmap m q \<noteq> None) (p # qs)"
  obtains m' where "alloc_and_copy_one self vmw s d e m = Some (\<lparr>mp_valid = True, mp_migrate = False, mp_write = mp_write s, mp_page = p\<rparr>, m')"
    "device_ok (mdevice m') m' qs" "mdevice m' = mdevice m" "chunks m' = chunks m" "pgmap m' = pgmap m"
    "page_data m' = (page_data m)(r := page_data m (mp_page s))"
    "zone_device_data m' = (zone_device_data m)(p := PageP r, r := MirrorP self)" "pt m' = pt m" "cpu m' = cpu m"
proof -
  from assms(1,5) obtain k where
    k: "dmirror_devmem_alloc_page e (mdevice m) m = Some (Some p, k)" "device_ok (mdevice m) k qs" "lent (mdevice m) k p"
      "k = (set_dev (mdevice m) (\<lambda>dv. dv\<lparr>free_pages := zone_device_data m p, calloc := calloc dv + 1\<rparr>)
      (m\<lparr>sys_pages := insert r (sys_pages m)\<rparr>))\<lparr>zone_device_data := (zone_device_data m)(p := PageP r)\<rparr>"
    by (rule alloc_page_pool)
  have same: "chunks k = chunks m" "pgmap k = pgmap m" "page_data k = page_data m" "mdevice k = mdevice m"
    "zone_device_data k = (zone_device_data m)(p := PageP r)" "pt k = pt m" "cpu k = cpu m"
    unfolding k(4) by (simp_all add: set_dev_def)
  have backing: "BACKING_PAGE k p = PageP r"
  proof -
    have "is_device_page MEMORY_DEVICE_PRIVATE k p"
      using k(3) by (auto simp: lent_def owned_def is_device_page_def split: option.splits)
    then show ?thesis by (simp add: BACKING_PAGE_def same)
  qed
  let ?m1 = "copy_highpage r (mp_page s) k"
  let ?m2 = "?m1\<lparr>zone_device_data := (zone_device_data ?m1)(r := MirrorP self)\<rparr>"
  have "r \<noteq> p" and "r \<notin> set qs" using assms(6,7) by (auto simp: list_all_iff)
  show ?thesis
  proof (rule that [of ?m2])
    show "alloc_and_copy_one self vmw s d e m = Some (\<lparr>mp_valid = True, mp_migrate = False, mp_write = mp_write s, mp_page = p\<rparr>, ?m2)"
      using assms(2-4) k(1) backing
      by (simp add: alloc_and_copy_one_def migrate_pfn_to_page_def is_zone_device_page_def migrate_pfn_def Let_def)
    have "device_ok (mdevice m) ?m2 qs"
      by (rule device_ok_cong [OF k(2)]) (use \<open>r \<notin> set qs\<close> in \<open>auto simp: copy_highpage_def\<close>)
    then show "device_ok (mdevice ?m2) ?m2 qs" by (simp add: copy_highpage_def same)
  qed (simp_all add: copy_highpage_def same)
qed

text \<open>The sources, the backing pages and the destinations of a migration are different pages, as its hypotheses ask.\<close>

lemma alloc_and_copy_ok:
  assumes "device_ok (mdevice m) m (ps @ qs)" and "list_all (\<lambda>q. pgmap m q \<noteq> None) (ps @ qs)"
    and "list_all (\<lambda>s. mp_migrate s \<and> mp_valid s \<and> pgmap m (mp_page s) = None) ss"
    and "list_all2 (\<lambda>e r. e_alloc_page e = Some r) es rs" and "list_all (\<lambda>r. pgmap m r = None) rs"
    and "distinct rs" and "set rs \<inter> set (map mp_page ss) = {}"
    and "length ss = length ps" and "length ds = length ps" and "length rs = length ps"
  shows "\<exists>m'. dmirror_migrate_alloc_and_copy self vmw ss ds es m =
      Some (map2 (\<lambda>p s. \<lparr>mp_valid = True, mp_migrate = False, mp_write = mp_write s, mp_page = p\<rparr>) ps ss, m')
    \<and> device_ok (mdevice m') m' qs \<and> mdevice m' = mdevice m \<and> chunks m' = chunks m \<and> pgmap m' = pgmap m
    \<and> map (zone_device_data m') ps = map PageP rs \<and> map (page_data m') rs = map (page_data m \<circ> mp_page) ss
    \<and> (\<forall>q. q \<notin> set rs \<longrightarrow> page_data m' q = page_data m q)
    \<and> (\<forall>q. q \<notin> set ps \<union> set rs \<longrightarrow> zone_device_data m' q = zone_device_data m q) \<and> pt m' = pt m"
  using assms
proof (induction ps arbitrary: m ss ds es rs)
  case (Cons p ps)
  obtain s ss' where ss: "ss = s # ss'" using Cons.prems(8) by (cases ss) auto
  obtain d ds' where ds: "ds = d # ds'" using Cons.prems(9) by (cases ds) auto
  obtain r rs' where rs: "rs = r # rs'" using Cons.prems(10) by (cases rs) auto
  obtain e es' where es: "es = e # es'" using Cons.prems(4) rs by (cases es) auto
  obtain m1 where m1: "alloc_and_copy_one self vmw s d e m = Some (\<lparr>mp_valid = True, mp_migrate = False, mp_write = mp_write s, mp_page = p\<rparr>, m1)"
    "device_ok (mdevice m1) m1 (ps @ qs)" "mdevice m1 = mdevice m" "chunks m1 = chunks m" "pgmap m1 = pgmap m"
    "page_data m1 = (page_data m)(r := page_data m (mp_page s))"
    "zone_device_data m1 = (zone_device_data m)(p := PageP r, r := MirrorP self)" "pt m1 = pt m" "cpu m1 = cpu m"
    by (rule alloc_one_ok [of m p "ps @ qs" s e r self vmw d]) (use Cons.prems ss rs es in auto)
  obtain m' where m': "dmirror_migrate_alloc_and_copy self vmw ss' ds' es' m1 =
      Some (map2 (\<lambda>p s. \<lparr>mp_valid = True, mp_migrate = False, mp_write = mp_write s, mp_page = p\<rparr>) ps ss', m')"
    "device_ok (mdevice m') m' qs" "mdevice m' = mdevice m1" "chunks m' = chunks m1" "pgmap m' = pgmap m1"
    "map (zone_device_data m') ps = map PageP rs'" "map (page_data m') rs' = map (page_data m1 \<circ> mp_page) ss'"
    "\<forall>q. q \<notin> set rs' \<longrightarrow> page_data m' q = page_data m1 q"
    "\<forall>q. q \<notin> set ps \<union> set rs' \<longrightarrow> zone_device_data m' q = zone_device_data m1 q" "pt m' = pt m1"
    using Cons.IH [OF m1(2), of ss' es' rs' ds'] Cons.prems ss ds rs es m1(3,5) by auto
  have "r \<notin> set rs'" "r \<notin> set (map mp_page ss')" using Cons.prems(6,7) ss rs by auto
  moreover have "p \<notin> set ps" using Cons.prems(1) by (simp add: device_ok_def free_list_def)
  moreover have "pgmap m r = None" "\<forall>q \<in> set rs'. pgmap m q = None" "\<forall>q \<in> set (p # ps). pgmap m q \<noteq> None"
    using Cons.prems(2,5) rs by (auto simp: list_all_iff)
  then have "p \<notin> set rs'" "p \<noteq> r" "r \<notin> set ps" by force+
  ultimately have fresh: "r \<notin> set rs'" "p \<notin> set ps" "p \<notin> set rs'" "p \<noteq> r" "r \<notin> set (map mp_page ss')" "r \<notin> set ps"
    by simp_all
  have "map (zone_device_data m') (p # ps) = map PageP (r # rs')"
    using m'(6,9) m1(7) fresh by simp
  moreover have "map (page_data m1 \<circ> mp_page) ss' = map (page_data m \<circ> mp_page) ss'"
    using m1(6) fresh(5) by auto
  then have "map (page_data m') (r # rs') = map (page_data m \<circ> mp_page) (s # ss')"
    using m'(7,8) m1(6) fresh(1) by simp
  moreover have "\<forall>q. q \<notin> set (r # rs') \<longrightarrow> page_data m' q = page_data m q"
    using m'(8) m1(6) by simp
  moreover have "\<forall>q. q \<notin> set (p # ps) \<union> set (r # rs') \<longrightarrow> zone_device_data m' q = zone_device_data m q"
    using m'(9) m1(7) by simp
  ultimately show ?case using m1 m' by (simp add: ss ds rs es)
qed auto

lemma fault_alloc_and_copy_ok:
  assumes "list_all2 (\<lambda>s r. mp_migrate s \<and> mp_valid s \<and> is_device_page MEMORY_DEVICE_PRIVATE m (mp_page s)
      \<and> zone_device_data m (mp_page s) = PageP r) ss rs"
    and "distinct ns" and "set ns \<inter> set rs = {}" and "length ns = length ss" and "length ds = length ss"
  shows "\<exists>m'. dmirror_devmem_fault_alloc_and_copy pfn ss ds (map Some ns) m =
      Some (map2 (\<lambda>n s. \<lparr>mp_valid = True, mp_migrate = False, mp_write = mp_write s, mp_page = n\<rparr>) ns ss, m')
    \<and> map (page_data m') ns = map (page_data m) rs \<and> (\<forall>q. q \<notin> set ns \<longrightarrow> page_data m' q = page_data m q)
    \<and> pt m' = (\<lambda>q. if pfn \<le> q \<and> q < pfn + length ss then None else pt m q)
    \<and> chunks m' = chunks m \<and> pgmap m' = pgmap m \<and> zone_device_data m' = zone_device_data m
    \<and> devs m' = devs m \<and> mdevice m' = mdevice m"
  using assms
proof (induction ss arbitrary: m rs ns ds pfn)
  case Nil
  then show ?case by (auto simp: fun_eq_iff)
next
  case (Cons s ss)
  obtain r rs' where rs: "rs = r # rs'" using Cons.prems(1) by (cases rs) auto
  obtain n ns' where ns: "ns = n # ns'" using Cons.prems(4) by (cases ns) auto
  obtain d ds' where ds: "ds = d # ds'" using Cons.prems(5) by (cases ds) auto
  let ?m0 = "m\<lparr>pt := (pt m)(pfn := None), sys_pages := insert n (sys_pages m)\<rparr>"
  let ?m1 = "copy_highpage n r ?m0"
  have dev: "is_device_page t ?m1 q = is_device_page t m q" "zone_device_data ?m1 = zone_device_data m"
    "page_data ?m1 = (page_data m)(n := page_data m r)" "pt ?m1 = (pt m)(pfn := None)"
    "chunks ?m1 = chunks m" "pgmap ?m1 = pgmap m" "devs ?m1 = devs m" "mdevice ?m1 = mdevice m" for t q
    by (simp_all add: copy_highpage_def is_device_page_def dmirror_page_to_chunk_def split: option.split)
  have "list_all2 (\<lambda>s r. mp_migrate s \<and> mp_valid s \<and> is_device_page MEMORY_DEVICE_PRIVATE ?m1 (mp_page s)
      \<and> zone_device_data ?m1 (mp_page s) = PageP r) ss rs'"
    unfolding dev using Cons.prems(1) rs by simp
  from Cons.IH [OF this, of ns' ds' "pfn + 1"] Cons.prems ns ds rs obtain m' where
    m': "dmirror_devmem_fault_alloc_and_copy (pfn + 1) ss ds' (map Some ns') ?m1 =
      Some (map2 (\<lambda>n s. \<lparr>mp_valid = True, mp_migrate = False, mp_write = mp_write s, mp_page = n\<rparr>) ns' ss, m')"
    "map (page_data m') ns' = map (page_data ?m1) rs'" "\<forall>q. q \<notin> set ns' \<longrightarrow> page_data m' q = page_data ?m1 q"
    "pt m' = (\<lambda>q. if pfn + 1 \<le> q \<and> q < pfn + 1 + length ss then None else pt ?m1 q)"
    "chunks m' = chunks ?m1" "pgmap m' = pgmap ?m1" "zone_device_data m' = zone_device_data ?m1"
    "devs m' = devs ?m1" "mdevice m' = mdevice ?m1"
    by auto
  have "BACKING_PAGE m (mp_page s) = PageP r"
    using Cons.prems(1) rs by (simp add: BACKING_PAGE_def)
  then have step: "dmirror_devmem_fault_alloc_and_copy pfn (s # ss) ds (map Some ns) m =
      Some (map2 (\<lambda>n s. \<lparr>mp_valid = True, mp_migrate = False, mp_write = mp_write s, mp_page = n\<rparr>) ns (s # ss), m')"
    using Cons.prems(1) m'(1) by (simp add: ns ds rs migrate_pfn_to_page_def migrate_pfn_def Let_def)
  have "n \<notin> set rs'" "n \<notin> set ns'" "n \<noteq> r" using Cons.prems(2,3) ns rs by auto
  then have "map (page_data m') ns = map (page_data m) rs" "\<forall>q. q \<notin> set ns \<longrightarrow> page_data m' q = page_data m q"
    using m'(2,3) unfolding dev ns rs by auto
  moreover have "pt m' = (\<lambda>q. if pfn \<le> q \<and> q < pfn + length (s # ss) then None else pt m q)"
    unfolding m'(4) dev by auto
  ultimately show ?case using step m'(5-9) unfolding dev by blast
qed

section \<open>Properties\<close>

lemma free_all_put: "free_all = put_pages dmirror_devmem_free"
proof (intro ext)
  fix ps and k :: "'a kernel_scheme"
  show "free_all ps k = put_pages dmirror_devmem_free ps k" by (induction ps arbitrary: k) (auto split: option.split)
qed

lemma lent_device_page: "lent d k p \<Longrightarrow> is_device_page MEMORY_DEVICE_PRIVATE k p"
  by (auto simp: lent_def owned_def is_device_page_def split: option.splits)

text \<open>
  The memory of the system pages may change in between (\<open>mem\<close>), and so may the table of the mirror
  (\<open>table\<close>), as long as the backing pages are not written.
\<close>

text \<open>Device pages in use go back to the system pages \<open>ns\<close> and are freed.\<close>

abbreviation (input) copied_to :: "page list \<Rightarrow> mpfn list \<Rightarrow> mpfn list" where
  "copied_to ps ss \<equiv> map2 (\<lambda>p s. \<lparr>mp_valid = True, mp_migrate = False, mp_write = mp_write s, mp_page = p\<rparr>) ps ss"

lemma return_pages:
  fixes m :: mirror
  assumes "device_ok d m qs" and "list_all (lent d m) ps" and "list_all2 (\<lambda>p r. zone_device_data m p = PageP r) ps rs"
    and "distinct (ps @ qs)" and "length ss = length ps" and "length rs = length ps"
    and "distinct ns" and "set ns \<inter> set rs = {}" and "length ns = length ps" and "length ds = length ps"
  shows "\<exists>bk m2 m3. dmirror_devmem_fault_alloc_and_copy pfn (map (\<lambda>d. d\<lparr>mp_migrate := True\<rparr>) (copied_to ps ss)) ds (map Some ns) m
      = Some (bk, m2)
    \<and> map mp_page bk = ns \<and> map mp_write bk = map mp_write ss \<and> map (page_data m2) ns = map (page_data m) rs
    \<and> (\<forall>i < length ps. pt m2 (pfn + i) = None) \<and> free_all ps m2 = Some m3 \<and> device_ok d m3 (rev ps @ qs)"
proof -
  let ?src = "map (\<lambda>d. d\<lparr>mp_migrate := True\<rparr>) (copied_to ps ss)"
  have "list_all2 (\<lambda>s r. mp_migrate s \<and> mp_valid s \<and> is_device_page MEMORY_DEVICE_PRIVATE m (mp_page s)
      \<and> zone_device_data m (mp_page s) = PageP r) ?src rs"
    using assms(2,3,5) by (auto simp: list_all2_conv_all_nth list_all_length intro!: lent_device_page [of d])
  then obtain m2 where m2: "dmirror_devmem_fault_alloc_and_copy pfn ?src ds (map Some ns) m = Some (copied_to ns ?src, m2)"
    "map (page_data m2) ns = map (page_data m) rs"
    "pt m2 = (\<lambda>q. if pfn \<le> q \<and> q < pfn + length ps then None else pt m q)"
    "chunks m2 = chunks m" "pgmap m2 = pgmap m" "zone_device_data m2 = zone_device_data m"
    "devs m2 = devs m" "mdevice m2 = mdevice m"
    using fault_alloc_and_copy_ok [of m _ rs ns ds pfn] assms(5,7-10) by fastforce
  have "map mp_page (copied_to ns ?src) = ns" "map mp_write (copied_to ns ?src) = map mp_write ss"
    using assms(5,9) by (auto simp: list_eq_iff_nth_eq)
  moreover have "\<forall>i < length ps. pt m2 (pfn + i) = None" by (simp add: m2(3))
  moreover obtain m3 where "free_all ps m2 = Some m3" "device_ok d m3 (rev ps @ qs)"
  proof -
    have "device_ok d m2 qs" by (rule device_ok_cong [OF assms(1)]) (simp_all add: m2)
    moreover have "list_all (lent d m2) ps"
      using assms(2) by (simp add: list_all_iff lent_cong [OF m2(4,5)] m2(6))
    ultimately show ?thesis using devmem.put_all [of d m2 qs ps] assms(4) that unfolding free_all_put by blast
  qed
  ultimately show ?thesis using m2(1,2) by metis
qed

text \<open>
  C11. System pages copied to device memory by \<open>dmirror_migrate_alloc_and_copy\<close> get the
  first pages of the free list, with their write bits; a later CPU fault on them
  (\<open>dmirror_devmem_fault_alloc_and_copy\<close>) brings back into the new pages the contents the system
  pages had, whatever became of those meanwhile, keeps the write bits and drops the mirror's entries;
  and when the device pages are freed they are on the free list again, and the list behind them is as it was.
\<close>

theorem migrate_round_trip:
  assumes "device_ok (mdevice m) m (ps @ qs)" and "list_all (\<lambda>q. pgmap m q \<noteq> None) (ps @ qs)"
    and "list_all (\<lambda>s. mp_migrate s \<and> mp_valid s \<and> pgmap m (mp_page s) = None) ss"
    and "list_all2 (\<lambda>e r. e_alloc_page e = Some r) es rs" and "list_all (\<lambda>r. pgmap m r = None) rs"
    and "distinct rs" and "set rs \<inter> set (map mp_page ss) = {}"
    and "length ss = length ps" and "length ds = length ps" and "length rs = length ps"
    and "distinct ns" and "set ns \<inter> set rs = {}" and "length ns = length ps" and "length ds' = length ps"
  shows "\<exists>dst m1. dmirror_migrate_alloc_and_copy self vm_write ss ds es m = Some (dst, m1)
    \<and> map mp_page dst = ps \<and> map mp_write dst = map mp_write ss
    \<and> (\<forall>mem table. (\<forall>r\<in>set rs. mem r = page_data m1 r) \<longrightarrow>
        (\<exists>bk m2 m3. dmirror_devmem_fault_alloc_and_copy pfn (map (\<lambda>d. d\<lparr>mp_migrate := True\<rparr>) dst) ds' (map Some ns)
            (m1\<lparr>page_data := mem, pt := table\<rparr>) = Some (bk, m2)
          \<and> map mp_page bk = ns \<and> map mp_write bk = map mp_write ss
          \<and> map (page_data m2) ns = map (page_data m \<circ> mp_page) ss
          \<and> (\<forall>i < length ps. pt m2 (pfn + i) = None)
          \<and> free_all ps m2 = Some m3 \<and> device_ok (mdevice m) m3 (rev ps @ qs)))"
proof -
  let ?dst = "copied_to ps ss"
  obtain m1 where m1: "dmirror_migrate_alloc_and_copy self vm_write ss ds es m = Some (?dst, m1)"
    "device_ok (mdevice m1) m1 qs" "mdevice m1 = mdevice m" "chunks m1 = chunks m" "pgmap m1 = pgmap m"
    "map (zone_device_data m1) ps = map PageP rs" "map (page_data m1) rs = map (page_data m \<circ> mp_page) ss"
    using alloc_and_copy_ok [OF assms(1-10), of self vm_write] by blast
  have dst: "map mp_page ?dst = ps" "map mp_write ?dst = map mp_write ss"
    using assms(8) by (auto simp: list_eq_iff_nth_eq)
  have zone: "list_all2 (\<lambda>p r. zone_device_data m1 p = PageP r) ps rs"
    using m1(6) assms(10) by (simp add: list_all2_conv_all_nth list_eq_iff_nth_eq)
  have "list_all (owned (mdevice m) m1) ps"
    using assms(1) by (simp add: device_ok_def free_list_def owned_cong [OF m1(4,5)])
  with zone have lent: "list_all (lent (mdevice m) m1) ps"
    by (auto simp: lent_def list_all_length list_all2_conv_all_nth)
  have return: "\<exists>bk m2 m3. dmirror_devmem_fault_alloc_and_copy pfn (map (\<lambda>d. d\<lparr>mp_migrate := True\<rparr>) ?dst) ds' (map Some ns)
        (m1\<lparr>page_data := mem, pt := table\<rparr>) = Some (bk, m2)
      \<and> map mp_page bk = ns \<and> map mp_write bk = map mp_write ss
      \<and> map (page_data m2) ns = map (page_data m \<circ> mp_page) ss \<and> (\<forall>i < length ps. pt m2 (pfn + i) = None)
      \<and> free_all ps m2 = Some m3 \<and> device_ok (mdevice m) m3 (rev ps @ qs)"
    if mem: "\<forall>r\<in>set rs. mem r = page_data m1 r" for mem table
  proof -
    let ?m = "m1\<lparr>page_data := mem, pt := table\<rparr>"
    have "device_ok (mdevice m) ?m qs" by (rule device_ok_cong [OF m1(2) [unfolded m1(3)]]) simp_all
    moreover have "list_all (lent (mdevice m) ?m) ps"
      using lent lent_cong [of ?m m1] by (simp add: list_all_iff)
    moreover have "list_all2 (\<lambda>p r. zone_device_data ?m p = PageP r) ps rs" using zone by simp
    moreover have "distinct (ps @ qs)" using assms(1) by (simp add: device_ok_def free_list_def)
    moreover have "map (page_data ?m) rs = map (page_data m \<circ> mp_page) ss"
      unfolding m1(7) [symmetric] using mem by (intro map_cong) simp_all
    ultimately show ?thesis
      using return_pages [of "mdevice m" ?m qs ps rs ss ns ds' pfn] assms(8,10-14) by metis
  qed
  with m1(1) dst show ?thesis by blast
qed

lemma small_mirror_pool: "device_ok 0 small_mirror [20, 10]" "pgmap small_mirror = [10 \<mapsto> 0, 20 \<mapsto> 1]"
  by (simp_all add: device_ok_def free_list_def small_mirror_def kernel.extend_def two_chunks_def owned_def
      dmirror_page_to_chunk_def array_ok_def dmirror_is_private_zone_def HMM_DMIRROR_MEMORY_DEVICE_PRIVATE_def)

theorem migrate_round_trip_witness:
  "\<exists>dst m1 bk m2 m3. dmirror_migrate_alloc_and_copy 0 False
      [\<lparr>mp_valid = True, mp_migrate = True, mp_write = True, mp_page = 100\<rparr>] [no_pfn]
      [\<lparr>e_alloc_page = Some 200, e_chunk = granting\<rparr>] (small_mirror\<lparr>page_data := (\<lambda>p. [of_nat p])\<rparr>) = Some (dst, m1)
    \<and> dmirror_devmem_fault_alloc_and_copy 16 (map (\<lambda>d. d\<lparr>mp_migrate := True\<rparr>) dst) [no_pfn] [Some 300]
      (m1\<lparr>page_data := (page_data m1)(100 := []), pt := Map.empty\<rparr>) = Some (bk, m2)
    \<and> page_data m2 300 = [100] \<and> map mp_write bk = [True] \<and> free_all [20] m2 = Some m3"
proof -
  let ?m = "small_mirror\<lparr>page_data := (\<lambda>p. [of_nat p])\<rparr>"
  let ?s = "\<lparr>mp_valid = True, mp_migrate = True, mp_write = True, mp_page = 100\<rparr>"
  have "device_ok 0 ?m [20, 10]" by (rule device_ok_cong [OF small_mirror_pool(1)]) simp_all
  then have "\<exists>dst m1. dmirror_migrate_alloc_and_copy 0 False [?s] [no_pfn] [\<lparr>e_alloc_page = Some 200, e_chunk = granting\<rparr>] ?m = Some (dst, m1)
    \<and> map mp_page dst = [20] \<and> map mp_write dst = map mp_write [?s]
    \<and> (\<forall>mem table. (\<forall>r\<in>set [200]. mem r = page_data m1 r) \<longrightarrow>
        (\<exists>bk m2 m3. dmirror_devmem_fault_alloc_and_copy 16 (map (\<lambda>d. d\<lparr>mp_migrate := True\<rparr>) dst) [no_pfn] (map Some [300])
            (m1\<lparr>page_data := mem, pt := table\<rparr>) = Some (bk, m2)
          \<and> map mp_page bk = [300] \<and> map mp_write bk = map mp_write [?s]
          \<and> map (page_data m2) [300] = map (page_data ?m \<circ> mp_page) [?s]
          \<and> (\<forall>i < length [20::nat]. pt m2 (16 + i) = None)
          \<and> free_all [20] m2 = Some m3 \<and> device_ok (mdevice ?m) m3 (rev [20] @ [10])))"
    (is "\<exists>dst m1. ?A dst m1 \<and> ?B dst \<and> ?C dst \<and> ?D dst m1")
    by (intro migrate_round_trip) (simp_all add: small_mirror_pool(2))
  then obtain dst m1 where m1: "?A dst m1" and later: "?D dst m1" by blast
  let ?mem = "(page_data m1)(100 := [])"
  have "\<forall>r\<in>set [200]. ?mem r = page_data m1 r" by simp
  with later obtain bk m2 m3 where
    "dmirror_devmem_fault_alloc_and_copy 16 (map (\<lambda>d. d\<lparr>mp_migrate := True\<rparr>) dst) [no_pfn] (map Some [300])
      (m1\<lparr>page_data := ?mem, pt := Map.empty\<rparr>) = Some (bk, m2)"
    "map mp_write bk = map mp_write [?s]" "map (page_data m2) [300] = map (page_data ?m \<circ> mp_page) [?s]"
    "free_all [20] m2 = Some m3" by blast
  with m1 show ?thesis
    by (simp del: dmirror_devmem_fault_alloc_and_copy.simps dmirror_migrate_alloc_and_copy.simps free_all.simps)
qed

lemma BACKING_PAGE_pt [simp]: "BACKING_PAGE (m\<lparr>pt := table\<rparr>) p = BACKING_PAGE m p"
proof -
  have "is_device_page t (m\<lparr>pt := table\<rparr>) p = is_device_page t m p" for t
    by (simp add: is_device_page_def dmirror_page_to_chunk_def split: option.split)
  then show ?thesis by (simp add: BACKING_PAGE_def)
qed

lemma finalize_ok:
  assumes "list_all mp_migrate ss" and "list_all2 (\<lambda>d r. mp_valid d \<and> BACKING_PAGE m (mp_page d) = PageP r) ds rs"
    and "\<forall>n. xa n = 0" and "length ss = length ds"
  shows "finalize_loop xa [a..<a + length ds] ss ds m =
    Some (0, m\<lparr>pt := (\<lambda>q. if a \<le> q \<and> q < a + length ds
       then Some (rs ! (q - a), if mp_write (ds ! (q - a)) then DPT_XA_TAG_WRITE else 0) else pt m q)\<rparr>)"
  using assms
proof (induction ds arbitrary: a ss rs m)
  case Nil
  have "m\<lparr>pt := pt m\<rparr> = m" by simp
  then show ?case by (simp add: linorder_not_less [symmetric])
next
  case (Cons d ds)
  obtain s ss' where ss: "ss = s # ss'" using Cons.prems(4) by (cases ss) auto
  obtain r rs' where rs: "rs = r # rs'" using Cons.prems(2) by (cases rs) auto
  let ?m = "m\<lparr>pt := (pt m)(a \<mapsto> (r, if mp_write d then DPT_XA_TAG_WRITE else 0))\<rparr>"
  have upt: "[a..<a + length (d # ds)] = a # [Suc a..<Suc a + length ds]" by (simp add: upt_conv_Cons del: upt_Suc)
  have "list_all2 (\<lambda>d r. mp_valid d \<and> BACKING_PAGE ?m (mp_page d) = PageP r) ds rs'"
    using Cons.prems(2) rs by simp
  from Cons.IH [OF _ this Cons.prems(3), of ss' "Suc a"] Cons.prems(1,4) ss
  have ih: "finalize_loop xa [Suc a..<Suc a + length ds] ss' ds ?m =
    Some (0, ?m\<lparr>pt := (\<lambda>q. if Suc a \<le> q \<and> q < Suc a + length ds
       then Some (rs' ! (q - Suc a), if mp_write (ds ! (q - Suc a)) then DPT_XA_TAG_WRITE else 0) else pt ?m q)\<rparr>)"
    by simp
  have eq: "(\<lambda>q. if Suc a \<le> q \<and> q < Suc a + length ds
       then Some (rs' ! (q - Suc a), if mp_write (ds ! (q - Suc a)) then DPT_XA_TAG_WRITE else 0) else pt ?m q)
    = (\<lambda>q. if a \<le> q \<and> q < a + length (d # ds)
       then Some (rs ! (q - a), if mp_write ((d # ds) ! (q - a)) then DPT_XA_TAG_WRITE else 0) else pt m q)"
    by (rule ext) (auto simp: rs nth_Cons' Suc_le_eq)
  have step: "finalize_loop xa (a # pfns) (s # ss') (d # ds) m = finalize_loop xa pfns ss' ds ?m" for pfns
    using Cons.prems(1-3) ss rs by (simp add: migrate_pfn_to_page_def xa_store_def)
  have same: "?m\<lparr>pt := table\<rparr> = m\<lparr>pt := table\<rparr>" for table by simp
  show ?case unfolding upt ss step ih eq same ..
qed

text \<open>
  C12. One piece of \<open>dmirror_migrate_to_device\<close>: if every page of the piece is migrated, the
  mirror afterwards maps each frame to the backing page of its device page, which holds what the system
  page held, writable exactly where the source entry was; no other frame changes, and the free list has
  lost exactly the pages used.
\<close>

theorem migrate_piece_maps:
  assumes "device_ok (mdevice m) m (ps @ qs)" and "list_all (\<lambda>q. pgmap m q \<noteq> None) (ps @ qs)"
    and "list_all (\<lambda>s. mp_migrate s \<and> mp_valid s \<and> pgmap m (mp_page s) = None) ss"
    and "list_all2 (\<lambda>e r. e_alloc_page e = Some r) es rs" and "list_all (\<lambda>r. pgmap m r = None) rs"
    and "distinct rs" and "set rs \<inter> set (map mp_page ss) = {}"
    and "length ss = length ps" and "length ds = length ps" and "length rs = length ps"
    and "\<forall>n. xa n = 0" and "a + length ps < 2 ^ 52"
  shows "\<exists>dst m1 m2. dmirror_migrate_alloc_and_copy self vm_write ss ds es m = Some (dst, m1)
    \<and> dmirror_migrate_finalize_and_map xa (page_addr a) (page_addr (a + length ps)) ss dst m1 = Some (0, m2)
    \<and> (\<forall>i < length ps. pt m2 (a + i) = Some (rs ! i, if mp_write (ss ! i) then DPT_XA_TAG_WRITE else 0)
        \<and> page_data m2 (rs ! i) = page_data m (mp_page (ss ! i)))
    \<and> (\<forall>q. q < a \<or> a + length ps \<le> q \<longrightarrow> pt m2 q = pt m q)
    \<and> device_ok (mdevice m) m2 qs"
proof -
  let ?dst = "map2 (\<lambda>p s. \<lparr>mp_valid = True, mp_migrate = False, mp_write = mp_write s, mp_page = p\<rparr>) ps ss"
  obtain m1 where m1: "dmirror_migrate_alloc_and_copy self vm_write ss ds es m = Some (?dst, m1)"
    "device_ok (mdevice m1) m1 qs" "mdevice m1 = mdevice m" "chunks m1 = chunks m" "pgmap m1 = pgmap m"
    "map (zone_device_data m1) ps = map PageP rs" "map (page_data m1) rs = map (page_data m \<circ> mp_page) ss" "pt m1 = pt m"
    using alloc_and_copy_ok [OF assms(1-10), of self vm_write] by blast
  have "list_all (owned (mdevice m) m1) ps"
    using assms(1) by (simp add: device_ok_def free_list_def owned_cong [OF m1(4,5)])
  then have "list_all (is_device_page MEMORY_DEVICE_PRIVATE m1) ps"
    by (auto simp: list_all_iff owned_def is_device_page_def split: option.splits)
  then have "list_all2 (\<lambda>d r. mp_valid d \<and> BACKING_PAGE m1 (mp_page d) = PageP r) ?dst rs"
    using m1(6) assms(8,10) by (auto simp: list_all2_conv_all_nth list_all_length BACKING_PAGE_def list_eq_iff_nth_eq)
  moreover have "list_all mp_migrate ss" using assms(3) by (simp add: list_all_iff)
  ultimately have fin: "finalize_loop xa [a..<a + length ?dst] ss ?dst m1 =
    Some (0, m1\<lparr>pt := (\<lambda>q. if a \<le> q \<and> q < a + length ?dst
       then Some (rs ! (q - a), if mp_write (?dst ! (q - a)) then DPT_XA_TAG_WRITE else 0) else pt m1 q)\<rparr>)"
    using assms(8,11) by (intro finalize_ok) simp_all
  have range: "pfn_range (page_addr a) (page_addr (a + length ps)) = [a..<a + length ps]"
    using assms(12) by (intro pfn_range_page) simp_all
  have len: "length ?dst = length ps" using assms(8) by simp
  have wr: "mp_write (?dst ! i) = mp_write (ss ! i)" if "i < length ps" for i using that assms(8) by simp
  let ?m2 = "m1\<lparr>pt := (\<lambda>q. if a \<le> q \<and> q < a + length ps
       then Some (rs ! (q - a), if mp_write (?dst ! (q - a)) then DPT_XA_TAG_WRITE else 0) else pt m1 q)\<rparr>"
  have "dmirror_migrate_finalize_and_map xa (page_addr a) (page_addr (a + length ps)) ss ?dst m1 = Some (0, ?m2)"
    unfolding dmirror_migrate_finalize_and_map_def range using fin unfolding len .
  moreover have "\<forall>i < length ps. pt ?m2 (a + i) = Some (rs ! i, if mp_write (ss ! i) then DPT_XA_TAG_WRITE else 0)
        \<and> page_data ?m2 (rs ! i) = page_data m (mp_page (ss ! i))"
    using m1(7) assms(8,10) wr by (auto simp: list_eq_iff_nth_eq)
  moreover have "device_ok (mdevice m) ?m2 qs"
    by (rule device_ok_cong [OF m1(2) [unfolded m1(3)]]) simp_all
  moreover have "\<forall>q. q < a \<or> a + length ps \<le> q \<longrightarrow> pt ?m2 q = pt m q" by (simp add: m1(8))
  ultimately show ?thesis using m1(1) by blast
qed

theorem migrate_piece_maps_witness:
  "\<exists>dst m1 m2. dmirror_migrate_alloc_and_copy 0 False
      [\<lparr>mp_valid = True, mp_migrate = True, mp_write = True, mp_page = 100\<rparr>] [no_pfn]
      [\<lparr>e_alloc_page = Some 200, e_chunk = granting\<rparr>] small_mirror = Some (dst, m1)
    \<and> dmirror_migrate_finalize_and_map (\<lambda>_. 0) (page_addr 16) (page_addr 17)
      [\<lparr>mp_valid = True, mp_migrate = True, mp_write = True, mp_page = 100\<rparr>] dst m1 = Some (0, m2)
    \<and> pt m2 16 = Some (200, DPT_XA_TAG_WRITE)"
proof -
  have "device_ok (mdevice small_mirror) small_mirror ([20] @ [10])" using small_mirror_pool(1) by simp
  from migrate_piece_maps [OF this, of "[\<lparr>mp_valid = True, mp_migrate = True, mp_write = True, mp_page = 100\<rparr>]"
      "[\<lparr>e_alloc_page = Some 200, e_chunk = granting\<rparr>]" "[200]" "[no_pfn]" "\<lambda>_. 0" 16 0 False]
  show ?thesis by (simp add: small_mirror_pool(2) del: dmirror_migrate_alloc_and_copy.simps) blast
qed

text \<open>A piece of one page, at the end of its area.\<close>

definition one_page :: "nat \<Rightarrow> mpfn \<Rightarrow> page_env \<Rightarrow> migrate_env" where
  "one_page b s e = \<lparr>mg_vma = Some \<lparr>vm_end = page_addr b, vm_read = True, vm_writable = True\<rparr>, mg_setup = 0,
     mg_src = [s], mg_alloc = [e], mg_news = [], mg_after = [s], mg_freed = []\<rparr>"

lemma next_one_page:
  assumes "a < b" and "b \<le> c" and "a + 64 < 2 ^ 52" and "c < 2 ^ 52" and "b \<le> a + 64"
  shows "next_in_vma (page_addr a) (page_addr c) \<lparr>vm_end = page_addr b, vm_read = r, vm_writable = w\<rparr> = page_addr b"
proof -
  have up: "page_addr a + push_bit PAGE_SHIFT 64 = page_addr (a + 64)"
    by (simp add: page_addr_def push_bit_eq_mult algebra_simps)
  have "page_addr b \<le> page_addr (a + 64)" "page_addr b \<le> page_addr c"
    using assms by (simp_all add: word_le_nat_alt unat_page_addr)
  then show ?thesis unfolding next_in_vma_def Let_def up by (auto simp: min_def)
qed

lemma to_device_one:
  assumes "addr < fin"
    and "next_in_vma addr fin \<lparr>vm_end = page_addr b, vm_read = True, vm_writable = True\<rparr> = page_addr b"
    and "pfn_range addr (page_addr b) = [x]" and "dmirror_migrate_alloc_and_copy self True [s] dst [e] m = Some (dst1, m1)"
    and "dmirror_migrate_finalize_and_map xa addr (page_addr b) [s] dst1 m1 = Some (r, m2)"
  shows "to_device_loop xa self fin (one_page b s e # es) addr dst m = to_device_loop xa self fin es (page_addr b) dst1 m2"
  using assms by (simp add: one_page_def Let_def)

text \<open>
  The array \<open>dst\<close> of \<open>dmirror_migrate_to_device\<close> is not cleared between pieces: when the
  first piece moves a page and no memory is left for the page of the second, the second still finds the
  device page of the first in its entry, and (if \<open>migrate_vma_pages\<close> leaves the source marked) the mirror
  maps the second frame to the first frame's copy, while the command goes on to return 0.
\<close>

theorem migrate_stale_destination:
  assumes "device_ok (mdevice m) m (p # qs)" and "list_all (\<lambda>q. pgmap m q \<noteq> None) (p # qs)"
    and "mp_migrate s1" and "mp_valid s1" and "pgmap m (mp_page s1) = None"
    and "mp_migrate s2" and "mp_valid s2" and "pgmap m (mp_page s2) = None"
    and "e_alloc_page e1 = Some r" and "pgmap m r = None" and "r \<noteq> mp_page s1" and "e_alloc_page e2 = None"
    and "\<forall>n. xa n = 0" and "a + 65 < 2 ^ 52"
  shows "\<exists>m'. to_device_loop xa self (page_addr (a + 2)) [one_page (a + 1) s1 e1, one_page (a + 2) s2 e2] (page_addr a)
      (replicate 64 no_pfn) m = Some (0, m')
    \<and> (\<exists>t. pt m' (a + 1) = Some (r, t)) \<and> page_data m' r = page_data m (mp_page s1)"
proof -
  let ?d = "\<lparr>mp_valid = True, mp_migrate = False, mp_write = mp_write s1, mp_page = p\<rparr>"
  obtain m1 where m1: "alloc_and_copy_one self True s1 no_pfn e1 m = Some (?d, m1)"
    "device_ok (mdevice m1) m1 qs" "mdevice m1 = mdevice m" "chunks m1 = chunks m" "pgmap m1 = pgmap m"
    "page_data m1 = (page_data m)(r := page_data m (mp_page s1))"
    "zone_device_data m1 = (zone_device_data m)(p := PageP r, r := MirrorP self)" "pt m1 = pt m" "cpu m1 = cpu m"
    by (rule alloc_one_ok [of m p qs s1 e1 r self True no_pfn]) (use assms in auto)
  have "p \<noteq> r" using assms(2,10) by auto
  have "owned (mdevice m) m1 p"
    using assms(1) by (simp add: device_ok_def free_list_def owned_cong [OF m1(4,5)])
  then have "is_device_page MEMORY_DEVICE_PRIVATE m1 p"
    by (auto simp: owned_def is_device_page_def split: option.splits)
  then have b1: "BACKING_PAGE m1 p = PageP r" using m1(7) \<open>p \<noteq> r\<close> by (simp add: BACKING_PAGE_def)
  let ?tag = "if mp_write s1 then DPT_XA_TAG_WRITE else 0"
  let ?m2 = "m1\<lparr>pt := (pt m1)(a \<mapsto> (r, ?tag))\<rparr>"
  let ?m3 = "?m2\<lparr>pt := (pt ?m2)(a + 1 \<mapsto> (r, ?tag))\<rparr>"
  have same: "pgmap ?m2 = pgmap m" "mdevice ?m2 = mdevice m" by (simp_all add: m1)
  have priv: "dmirror_is_private_zone (devs ?m2 (mdevice m))"
    using m1(2) by (simp add: device_ok_def m1(3))
  have one2: "alloc_and_copy_one self True s2 ?d e2 ?m2 = Some (?d, ?m2)"
    using assms(6-8,12) priv unfolding alloc_and_copy_one_def Let_def same
    by (simp add: migrate_pfn_to_page_def is_zone_device_page_def m1(5) dmirror_devmem_alloc_page_def)
  have ranges: "pfn_range (page_addr a) (page_addr (a + 1)) = [a]"
    "pfn_range (page_addr (a + 1)) (page_addr (a + 2)) = [a + 1]"
    using assms(14) by (simp_all add: pfn_range_page upt_rec)
  have less: "page_addr a < page_addr (a + 2)" "page_addr (a + 1) < page_addr (a + 2)"
    using assms(14) by (simp_all add: page_addr_less)
  have rep: "replicate 64 no_pfn = no_pfn # replicate 63 no_pfn" by (simp add: numeral_eq_Suc)
  have nx: "next_in_vma (page_addr a) (page_addr (a + 2)) \<lparr>vm_end = page_addr (a + 1), vm_read = True, vm_writable = True\<rparr> = page_addr (a + 1)"
    "next_in_vma (page_addr (a + 1)) (page_addr (a + 2)) \<lparr>vm_end = page_addr (a + 2), vm_read = True, vm_writable = True\<rparr> = page_addr (a + 2)"
    by (rule next_one_page; use assms(14) in simp)+
  have "finalize_loop xa [a] [s1] (?d # ds) m1 = Some (0, ?m2)" "finalize_loop xa [a + 1] [s2] (?d # ds) ?m2 = Some (0, ?m3)" for ds
    using assms(3,6,13) b1 by (simp_all add: migrate_pfn_to_page_def xa_store_def)
  note fin = this [unfolded ranges [symmetric] dmirror_migrate_finalize_and_map_def [symmetric]]
  have ac: "dmirror_migrate_alloc_and_copy self True [s1] (no_pfn # ds) [e1] m = Some (?d # ds, m1)"
    "dmirror_migrate_alloc_and_copy self True [s2] (?d # ds) [e2] ?m2 = Some (?d # ds, ?m2)" for ds
    using m1(1) one2 by simp_all
  have "to_device_loop xa self (page_addr (a + 2)) [one_page (a + 1) s1 e1, one_page (a + 2) s2 e2] (page_addr a)
      (replicate 64 no_pfn) m = to_device_loop xa self (page_addr (a + 2)) [] (page_addr (a + 2)) (?d # replicate 63 no_pfn) ?m3"
    unfolding rep to_device_one [OF less(1) nx(1) ranges(1) ac(1) fin(1)] to_device_one [OF less(2) nx(2) ranges(2) ac(2) fin(2)] ..
  then have "to_device_loop xa self (page_addr (a + 2)) [one_page (a + 1) s1 e1, one_page (a + 2) s2 e2] (page_addr a)
      (replicate 64 no_pfn) m = Some (0, ?m3)" by simp
  moreover have "pt ?m3 (a + 1) = Some (r, ?tag)" "page_data ?m3 r = page_data m (mp_page s1)" by (simp_all add: m1(6))
  ultimately show ?thesis by blast
qed

theorem migrate_stale_destination_witness:
  "\<exists>m' t. to_device_loop (\<lambda>_. 0) 0 (page_addr 18)
      [one_page 17 \<lparr>mp_valid = True, mp_migrate = True, mp_write = True, mp_page = 100\<rparr> \<lparr>e_alloc_page = Some 200, e_chunk = granting\<rparr>,
       one_page 18 \<lparr>mp_valid = True, mp_migrate = True, mp_write = True, mp_page = 101\<rparr> \<lparr>e_alloc_page = None, e_chunk = granting\<rparr>]
      (page_addr 16) (replicate 64 no_pfn) small_mirror = Some (0, m') \<and> pt m' 17 = Some (200, t)"
proof -
  have "device_ok (mdevice small_mirror) small_mirror (20 # [10])" using small_mirror_pool(1) by simp
  from migrate_stale_destination [OF this, of
      "\<lparr>mp_valid = True, mp_migrate = True, mp_write = True, mp_page = 100\<rparr>"
      "\<lparr>mp_valid = True, mp_migrate = True, mp_write = True, mp_page = 101\<rparr>"
      "\<lparr>e_alloc_page = Some 200, e_chunk = granting\<rparr>" 200 "\<lparr>e_alloc_page = None, e_chunk = granting\<rparr>" "\<lambda>_. 0" 16 0]
  show ?thesis by (simp add: small_mirror_pool(2) del: to_device_loop.simps) blast
qed

end
