(* ===== verification/Hmm_Module.thy ===== *)
theory Hmm_Module
  imports Dmirror_Migrate Dmirror_Write
begin

text \<open>
  The outside of \<open>hmm.c\<close>: opening and closing the device file, the dispatch of \<open>ioctl\<close> with its guards,
  and the set-up and tear-down of the devices and of the module.
\<close>

unbundle bit_operations_syntax

section \<open>The device file\<close>

text \<open>What \<open>kzalloc\<close> and \<open>mmu_interval_notifier_insert\<close> answer, and the memory of the current process.\<close>

record open_env =
  op_kzalloc :: bool
  op_insert :: int
  op_mm :: "nat \<rightharpoonup> page \<times> bool"

definition dmirror_fops_open :: "open_env \<Rightarrow> nat \<Rightarrow> kernel \<Rightarrow> int \<times> mirror option" where
  "dmirror_fops_open e d k =
    (if \<not> op_kzalloc e then (- ENOMEM, None)
     else if op_insert e \<noteq> 0 then (op_insert e, None)
     else (0, Some (kernel.extend k \<lparr>mdevice = d, pt = Map.empty, inv_seq = 0, cpu = op_mm e\<rparr>)))"

definition dmirror_fops_release :: "mirror \<Rightarrow> int \<times> kernel" where
  "dmirror_fops_release m = (0, kernel.truncate m)"

section \<open>The commands\<close>

text \<open>\<open>_IOWR('H', nr, struct hmm_dmirror_cmd)\<close>, for a structure of 40 bytes.\<close>

definition IOWR_H :: "u32 \<Rightarrow> u32" where
  "IOWR_H nr = push_bit 30 3 OR push_bit 16 40 OR push_bit 8 0x48 OR nr"

definition HMM_DMIRROR_READ :: u32 where "HMM_DMIRROR_READ = IOWR_H 0"
definition HMM_DMIRROR_WRITE :: u32 where "HMM_DMIRROR_WRITE = IOWR_H 1"
definition HMM_DMIRROR_MIGRATE_TO_DEV :: u32 where "HMM_DMIRROR_MIGRATE_TO_DEV = IOWR_H 2"
definition HMM_DMIRROR_MIGRATE_TO_SYS :: u32 where "HMM_DMIRROR_MIGRATE_TO_SYS = IOWR_H 3"
definition HMM_DMIRROR_SNAPSHOT :: u32 where "HMM_DMIRROR_SNAPSHOT = IOWR_H 4"
definition HMM_DMIRROR_EXCLUSIVE :: u32 where "HMM_DMIRROR_EXCLUSIVE = IOWR_H 5"
definition HMM_DMIRROR_CHECK_EXCLUSIVE :: u32 where "HMM_DMIRROR_CHECK_EXCLUSIVE = IOWR_H 6"
definition HMM_DMIRROR_RELEASE :: u32 where "HMM_DMIRROR_RELEASE = IOWR_H 7"

lemmas command_numbers = HMM_DMIRROR_READ_def HMM_DMIRROR_WRITE_def HMM_DMIRROR_MIGRATE_TO_DEV_def
  HMM_DMIRROR_MIGRATE_TO_SYS_def HMM_DMIRROR_SNAPSHOT_def HMM_DMIRROR_EXCLUSIVE_def
  HMM_DMIRROR_CHECK_EXCLUSIVE_def HMM_DMIRROR_RELEASE_def

text \<open>
  What the kernel and the process do during the call: the structure \<open>copy_from_user\<close> reads, whether
  \<open>copy_to_user\<close> writes it back, and the surroundings of the command that is run.
\<close>

record ioctl_env =
  ic_in :: "hmm_dmirror_cmd option"
  ic_out :: bool
  ic_hrf :: range_walk
  ic_xa :: "nat \<Rightarrow> int"
  ic_io :: io_env
  ic_input :: "u8 list list option"
  ic_self :: nat
  ic_alive :: bool
  ic_pieces :: "migrate_env list"
  ic_exclusive :: exclusive_env
  ic_walk :: "(nat \<rightharpoonup> page \<times> bool) \<Rightarrow> u64 \<Rightarrow> u64 \<Rightarrow> int \<times> hmm_pfn list"
  ic_zero :: "page \<Rightarrow> bool"
  ic_snaps :: "snapshot_env list"
  ic_evict :: "nat \<Rightarrow> evict_env"

text \<open>What a command has written to the buffer of the caller.\<close>

datatype ioctl_data = Nothing | Pages "u8 list list option" | Perms "u8 list"

definition ioctl_command ::
  "ioctl_env \<Rightarrow> u32 \<Rightarrow> hmm_dmirror_cmd \<Rightarrow> mirror \<Rightarrow> (int \<times> hmm_dmirror_cmd \<times> mirror \<times> ioctl_data) option" where
  "ioctl_command e command cmd m =
    (if command = HMM_DMIRROR_READ
     then map_option (\<lambda>(r, c, m, out). (r, c, m, Pages out)) (dmirror_read (ic_hrf e) (ic_xa e) (ic_io e) cmd m)
     else if command = HMM_DMIRROR_WRITE
     then map_option (\<lambda>(r, c, m). (r, c, m, Nothing)) (dmirror_write (ic_hrf e) (ic_xa e) (ic_io e) (ic_input e) cmd m)
     else if command = HMM_DMIRROR_MIGRATE_TO_DEV
     then map_option (\<lambda>(r, c, m, out). (r, c, m, Pages out))
       (dmirror_migrate_to_device (ic_xa e) (ic_self e) (ic_alive e) (ic_pieces e) (io_vmalloc (ic_io e)) (io_copy (ic_io e)) cmd m)
     else if command = HMM_DMIRROR_MIGRATE_TO_SYS
     then map_option (\<lambda>(r, c, m). (r, c, m, Nothing)) (dmirror_migrate_to_system (ic_alive e) (ic_pieces e) cmd m)
     else if command = HMM_DMIRROR_EXCLUSIVE
     then map_option (\<lambda>(r, c, m, out). (r, c, m, Pages out)) (dmirror_exclusive (ic_xa e) (ic_exclusive e) cmd m)
     else if command = HMM_DMIRROR_CHECK_EXCLUSIVE
     then Some (dmirror_check_atomic (c_addr cmd) (c_addr cmd + push_bit PAGE_SHIFT (c_npages cmd)) m, cmd, m, Nothing)
     else if command = HMM_DMIRROR_SNAPSHOT
     then map_option (\<lambda>(r, c, m, out). (r, c, m, Perms out)) (dmirror_snapshot (ic_walk e) (ic_zero e) (ic_alive e) (ic_snaps e) cmd m)
     else if command = HMM_DMIRROR_RELEASE
     then map_option (\<lambda>m. (0, cmd, m, Nothing)) (dmirror_device_remove_chunks (ic_evict e) (mdevice m) m)
     else Some (- EINVAL, cmd, m, Nothing))"

text \<open>\<open>file\<close> is \<open>filp->private_data\<close>; the second component of the result is what the caller's structure is set to.\<close>

definition dmirror_fops_unlocked_ioctl ::
  "ioctl_env \<Rightarrow> u32 \<Rightarrow> mirror option \<Rightarrow> (int \<times> hmm_dmirror_cmd option \<times> ioctl_data \<times> mirror option) option" where
  "dmirror_fops_unlocked_ioctl e command file =
    (case file of
       None \<Rightarrow> Some (- EINVAL, None, Nothing, file)
     | Some m \<Rightarrow>
     case ic_in e of
       None \<Rightarrow> Some (- EFAULT, None, Nothing, file)
     | Some cmd \<Rightarrow>
     if c_addr cmd AND NOT PAGE_MASK \<noteq> 0 then Some (- EINVAL, None, Nothing, file)
     else if c_addr cmd \<ge> c_addr cmd + push_bit PAGE_SHIFT (c_npages cmd) then Some (- EINVAL, None, Nothing, file)
     else case ioctl_command e command (cmd\<lparr>c_cpages := 0, c_faults := 0\<rparr>) m of
       None \<Rightarrow> None
     | Some (ret, cmd, m, out) \<Rightarrow>
         if ret \<noteq> 0 then Some (ret, None, out, Some m)
         else if ic_out e then Some (0, Some cmd, out, Some m)
         else Some (- EFAULT, None, out, Some m))"

section \<open>The devices\<close>

text \<open>The module's state beside the pages: the registered character devices and their region of numbers.\<close>

record module_state = kernel +
  cdevs :: "nat set"
  chrdev :: bool

text \<open>The results of \<open>dev_set_name\<close> and \<open>cdev_device_add\<close>, and what the allocation of the first chunk meets.\<close>

record init_env =
  ie_name :: int
  ie_add :: int
  ie_chunk :: chunk_env

definition dmirror_device_init :: "init_env \<Rightarrow> nat \<Rightarrow> module_state \<Rightarrow> (int \<times> module_state) option" where
  "dmirror_device_init e d k =
    (if ie_name e \<noteq> 0 then Some (ie_name e, k)
     else if ie_add e \<noteq> 0 then Some (ie_add e, k)
     else case dmirror_allocate_chunk (ie_chunk e) d False (k\<lparr>cdevs := insert d (cdevs k)\<rparr>) of
       None \<Rightarrow> None
     | Some (ret, _, k) \<Rightarrow> Some (ret, k))"

definition dmirror_device_remove :: "(nat \<Rightarrow> evict_env) \<Rightarrow> nat \<Rightarrow> module_state \<Rightarrow> module_state option" where
  "dmirror_device_remove ev d k =
    map_option (\<lambda>k. k\<lparr>cdevs := cdevs k - {d}\<rparr>) (dmirror_device_remove_chunks ev d k)"

section \<open>The module\<close>

definition DMIRROR_NDEVICES :: nat where "DMIRROR_NDEVICES = 4"

definition zero_device :: device where
  "zero_device = \<lparr>zone_device_type = 0, devmem_capacity = 0, devmem_count = 0, devmem_chunks = None,
     calloc = 0, cfree = 0, free_pages = NULL\<rparr>"

text \<open>\<open>while (--id >= 0) dmirror_device_remove(dmirror_devices + id)\<close>\<close>

fun undo_devices :: "(nat \<Rightarrow> evict_env) \<Rightarrow> nat \<Rightarrow> module_state \<Rightarrow> module_state option" where
  "undo_devices ev 0 k = Some k"
| "undo_devices ev (Suc n) k =
    (case dmirror_device_remove ev n k of None \<Rightarrow> None | Some k \<Rightarrow> undo_devices ev n k)"

fun init_devices :: "(nat \<Rightarrow> init_env) \<Rightarrow> (nat \<Rightarrow> evict_env) \<Rightarrow> nat list \<Rightarrow> module_state \<Rightarrow> (int \<times> module_state) option" where
  "init_devices env ev [] k = Some (0, k)"
| "init_devices env ev (n # ns) k =
    (case dmirror_device_init (env n) n k of
       None \<Rightarrow> None
     | Some (ret, k) \<Rightarrow>
         if ret \<noteq> 0 then map_option (\<lambda>k. (ret, k\<lparr>chrdev := False\<rparr>)) (undo_devices ev n k)
         else init_devices env ev ns k)"

definition clear_devices :: "module_state \<Rightarrow> module_state" where
  "clear_devices k = k\<lparr>devs := (\<lambda>d. if d < DMIRROR_NDEVICES then zero_device else devs k d)\<rparr>"

definition rshm_init ::
  "int \<Rightarrow> (nat \<Rightarrow> init_env) \<Rightarrow> (nat \<Rightarrow> evict_env) \<Rightarrow> module_state \<Rightarrow> (int \<times> module_state) option" where
  "rshm_init region env ev k =
    (if region \<noteq> 0 then Some (region, k)
     else let k = clear_devices (k\<lparr>chrdev := True\<rparr>);
              k = set_dev 0 (\<lambda>dv. dv\<lparr>zone_device_type := HMM_DMIRROR_MEMORY_DEVICE_PRIVATE\<rparr>) k;
              k = set_dev 1 (\<lambda>dv. dv\<lparr>zone_device_type := HMM_DMIRROR_MEMORY_DEVICE_PRIVATE\<rparr>) k
     in init_devices env ev [0, 1] k)"

fun exit_devices :: "(nat \<Rightarrow> evict_env) \<Rightarrow> nat list \<Rightarrow> module_state \<Rightarrow> module_state option" where
  "exit_devices ev [] k = Some k"
| "exit_devices ev (n # ns) k =
    (if zone_device_type (devs k n) \<noteq> 0
     then (case dmirror_device_remove ev n k of None \<Rightarrow> None | Some k \<Rightarrow> exit_devices ev ns k)
     else exit_devices ev ns k)"

definition rshm_exit :: "(nat \<Rightarrow> evict_env) \<Rightarrow> module_state \<Rightarrow> module_state option" where
  "rshm_exit ev k = map_option (\<lambda>k. k\<lparr>chrdev := False\<rparr>) (exit_devices ev [0..<DMIRROR_NDEVICES] k)"

section \<open>What the guards of \<open>ioctl\<close> let through\<close>

text \<open>A range of pages that is not empty and ends inside the address space; the upper 12 bits of \<open>npages\<close> are lost.\<close>

definition normal :: "hmm_dmirror_cmd \<Rightarrow> hmm_dmirror_cmd" where
  "normal cmd = cmd\<lparr>c_npages := take_bit 52 (c_npages cmd)\<rparr>"

definition request_ok :: "hmm_dmirror_cmd \<Rightarrow> bool" where
  "request_ok cmd \<longleftrightarrow> cmd_ok (normal cmd) \<and> 0 < c_npages (normal cmd)"

lemma normal_simps [simp]:
  "c_addr (normal cmd) = c_addr cmd" "c_faults (normal cmd) = c_faults cmd" "c_cpages (normal cmd) = c_cpages cmd"
  "c_npages (normal cmd) = take_bit 52 (c_npages cmd)"
  "normal cmd\<lparr>c_faults := f, c_cpages := n\<rparr> = normal (cmd\<lparr>c_faults := f, c_cpages := n\<rparr>)"
  "normal cmd\<lparr>c_cpages := n\<rparr> = normal (cmd\<lparr>c_cpages := n\<rparr>)"
  "normal cmd\<lparr>c_cpages := n, c_faults := f\<rparr> = normal (cmd\<lparr>c_cpages := n, c_faults := f\<rparr>)"
  by (simp_all add: normal_def)

lemma push_take [simp]: "push_bit PAGE_SHIFT (take_bit 52 (w :: u64)) = push_bit PAGE_SHIFT w"
  by (rule bit_word_eqI) (auto simp: bit_simps)

lemma guard_request:
  "c_addr cmd AND NOT PAGE_MASK = 0 \<and> \<not> c_addr cmd \<ge> c_addr cmd + push_bit PAGE_SHIFT (c_npages cmd) \<longleftrightarrow> request_ok cmd"
proof -
  define n where "n = unat (take_bit 52 (c_npages cmd))"
  have n: "n < 2 ^ 52" unfolding n_def unsigned_take_bit_eq by (rule take_bit_nat_less_exp)
  have push: "push_bit PAGE_SHIFT (c_npages cmd) = page_addr n"
    unfolding n_def push_take [symmetric, of "c_npages cmd"] by (rule push_bit_page)
  have u: "unat (page_addr n) = 4096 * n" using n by (rule unat_page_addr)
  have pos: "0 < take_bit 52 (c_npages cmd) \<longleftrightarrow> 0 < n" unfolding n_def by (simp add: word_less_nat_alt)
  have "(\<not> c_addr cmd \<ge> c_addr cmd + page_addr n) \<longleftrightarrow> 0 < n \<and> unat (c_addr cmd) + 4096 * n < 2 ^ 64"
  proof -
    have a: "unat (c_addr cmd) < 2 ^ 64" by (rule order_less_le_trans [OF unsigned_less]) simp
    have s: "unat (c_addr cmd + page_addr n) = (unat (c_addr cmd) + 4096 * n) mod 2 ^ 64"
      by (simp add: unat_word_ariths u)
    show ?thesis
    proof (cases "unat (c_addr cmd) + 4096 * n < 2 ^ 64")
      case True
      with s show ?thesis by (auto simp: word_le_nat_alt)
    next
      case False
      have "(unat (c_addr cmd) + 4096 * n) mod 2 ^ 64 = unat (c_addr cmd) + 4096 * n - 2 ^ 64"
        using False a n by (subst mod_if) simp
      with False s n show ?thesis by (simp add: word_le_nat_alt)
    qed
  qed
  then show ?thesis unfolding request_ok_def cmd_ok_def push normal_simps pos n_def [symmetric] by blast
qed

lemma normal_read: "dmirror_read hrf xa e (normal cmd) m =
    map_option (\<lambda>(r, c, m, out). (r, normal c, m, out)) (dmirror_read hrf xa e cmd m)"
  by (auto simp: dmirror_read_def Let_def split: prod.split option.split)

lemma normal_write: "dmirror_write hrf xa e i (normal cmd) m =
    map_option (\<lambda>(r, c, m). (r, normal c, m)) (dmirror_write hrf xa e i cmd m)"
  by (auto simp: dmirror_write_def Let_def split: prod.split option.split)

lemma normal_read_back: "read_back v cp s n f (normal cmd) m =
    (case read_back v cp s n f cmd m of (r, c, m, out) \<Rightarrow> (r, normal c, m, out))"
  by (auto simp: read_back_def Let_def split: prod.split)

lemma normal_to_device: "dmirror_migrate_to_device xa self al es v cp (normal cmd) m =
    map_option (\<lambda>(r, c, m, out). (r, normal c, m, out)) (dmirror_migrate_to_device xa self al es v cp cmd m)"
  by (auto simp: dmirror_migrate_to_device_def normal_read_back Let_def split: prod.split option.split)

lemma normal_to_system: "dmirror_migrate_to_system al es (normal cmd) m =
    map_option (\<lambda>(r, c, m). (r, normal c, m)) (dmirror_migrate_to_system al es cmd m)"
  by (auto simp: dmirror_migrate_to_system_def Let_def split: prod.split option.split)

lemma normal_exclusive: "dmirror_exclusive xa e (normal cmd) m =
    map_option (\<lambda>(r, c, m, out). (r, normal c, m, out)) (dmirror_exclusive xa e cmd m)"
  by (auto simp: dmirror_exclusive_def normal_read_back Let_def split: prod.split option.split)

lemma normal_snapshot: "dmirror_snapshot hrf z al es (normal cmd) m =
    map_option (\<lambda>(r, c, m, out). (r, normal c, m, out)) (dmirror_snapshot hrf z al es cmd m)"
  by (auto simp: dmirror_snapshot_def Let_def split: prod.split option.split)

lemma normal_command: "ioctl_command e command (normal cmd) m =
    map_option (\<lambda>(r, c, m, out). (r, normal c, m, out)) (ioctl_command e command cmd m)"
  unfolding ioctl_command_def normal_read normal_write normal_to_device normal_to_system normal_exclusive normal_snapshot
  by (simp add: option.map_comp comp_def split_def)

lemma ioctl_run:
  assumes "ic_in e = Some cmd"
  shows "dmirror_fops_unlocked_ioctl e command (Some m) =
    (if request_ok cmd
     then (case ioctl_command e command (cmd\<lparr>c_cpages := 0, c_faults := 0\<rparr>) m of
         None \<Rightarrow> None
       | Some (ret, cmd, m, out) \<Rightarrow>
           if ret \<noteq> 0 then Some (ret, None, out, Some m)
           else if ic_out e then Some (0, Some cmd, out, Some m)
           else Some (- EFAULT, None, out, Some m))
     else Some (- EINVAL, None, Nothing, Some m))"
  unfolding guard_request [symmetric] dmirror_fops_unlocked_ioctl_def assms option.case
  by (simp cong: option.case_cong)

lemma request_normal [simp]: "request_ok (normal cmd) = request_ok cmd"
  by (simp add: request_ok_def normal_def)

section \<open>Properties of the device file\<close>

text \<open>
  A call without an open mirror, with an unreadable structure, with an address inside a page, with
  a range that is empty or runs past the end of the address space, or with an unknown command is
  refused with -EINVAL or -EFAULT before anything changes, and nothing is written to the caller.
\<close>

theorem ioctl_refuses:
  assumes "file = None \<or> ic_in e = None \<or> (\<exists>cmd. ic_in e = Some cmd \<and> \<not> request_ok cmd)
    \<or> command \<notin> {0xC0284800, 0xC0284801, 0xC0284802, 0xC0284803, 0xC0284804, 0xC0284805, 0xC0284806, 0xC0284807}"
  shows "\<exists>r. dmirror_fops_unlocked_ioctl e command file = Some (r, None, Nothing, file) \<and> r \<in> {- EINVAL, - EFAULT}"
proof (cases "file")
  case None
  then show ?thesis by (simp add: dmirror_fops_unlocked_ioctl_def)
next
  case (Some m)
  show ?thesis
  proof (cases "ic_in e")
    case None
    with Some show ?thesis by (simp add: dmirror_fops_unlocked_ioctl_def)
  next
    case (Some cmd)
    have "ioctl_command e command c m = Some (- EINVAL, c, m, Nothing)"
      if "command \<notin> {0xC0284800, 0xC0284801, 0xC0284802, 0xC0284803, 0xC0284804, 0xC0284805, 0xC0284806, 0xC0284807}" for c
      using that by (simp add: ioctl_command_def command_numbers IOWR_H_def push_bit_eq_mult)
    with assms Some \<open>file = Some m\<close> show ?thesis by (auto simp: ioctl_run)
  qed
qed

theorem ioctl_refuses_witness:
  "\<forall>e. \<exists>r. dmirror_fops_unlocked_ioctl e 0xC0284808 (Some small_mirror) = Some (r, None, Nothing, Some small_mirror)
    \<and> r \<in> {- EINVAL, - EFAULT}"
  by (intro allI ioctl_refuses) simp



text \<open>
  C10. From the system call down: for every accepted range of a process whose pages are all there, and
  that leaves its memory alone meanwhile, \<open>HMM_DMIRROR_READ\<close> on a coherent mirror returns 0 after at
  most one fault, with the memory of the process in the caller's buffer and the structure written back.
\<close>

theorem ioctl_read_completes:
  assumes "hrf_ok hrf" and "hrf_complete hrf" and "coherent m" and "request_ok cmd" and "c_cpages cmd = 0" and "c_faults cmd = 0"
    and "unat (c_addr cmd) + 4096 * (unat (c_npages (normal cmd)) + 64) \<le> 2 ^ 64"
    and "\<forall>pfn\<in>set (cmd_range cmd). cpu m pfn \<noteq> None"
    and "ic_in e = Some cmd" and "ic_out e" and "ic_hrf e = hrf" and "ic_xa e = (\<lambda>_. 0)"
    and "ic_io e = still_io (unat (c_npages (normal cmd)))"
  shows "\<exists>cmd' m'. dmirror_fops_unlocked_ioctl e 0xC0284800 (Some m) =
    Some (0, Some cmd', Pages (Some (map (\<lambda>pfn. page_data m (fst (the (cpu m pfn)))) (cmd_range cmd))), Some m')"
proof -
  have nr: "0xC0284800 = HMM_DMIRROR_READ" by (simp add: command_numbers IOWR_H_def push_bit_eq_mult)
  have range: "cmd_range (normal cmd) = cmd_range cmd" by (simp add: cmd_range_def)
  have zero: "cmd\<lparr>c_cpages := 0, c_faults := 0\<rparr> = cmd" using assms(5,6) by simp
  have ok: "cmd_ok (normal cmd)" using assms(4) by (simp add: request_ok_def)
  obtain c m' where "dmirror_read hrf (\<lambda>_. 0) (still_io (unat (c_npages (normal cmd)))) (normal cmd) m =
      Some (0, c, m', Some (map (\<lambda>pfn. page_data m (fst (the (cpu m pfn)))) (cmd_range cmd)))"
    using read_completes [OF assms(1-3) ok] assms(7,8) unfolding range normal_simps(1) by blast
  then obtain c' where "dmirror_read hrf (\<lambda>_. 0) (still_io (unat (c_npages (normal cmd)))) cmd m =
      Some (0, c', m', Some (map (\<lambda>pfn. page_data m (fst (the (cpu m pfn)))) (cmd_range cmd)))"
    unfolding normal_read by (auto split: prod.splits)
  then show ?thesis
    unfolding ioctl_run [OF assms(9)] nr using assms(4,10-13) by (simp add: ioctl_command_def zero del: normal_simps)
qed

theorem ioctl_read_completes_witness:
  "\<forall>e. \<exists>cmd' m'. dmirror_fops_unlocked_ioctl
      (e\<lparr>ic_in := Some small_cmd, ic_out := True, ic_hrf := cpu_walk, ic_xa := (\<lambda>_. 0), ic_io := still_io 2\<rparr>) 0xC0284800 (Some small_mirror) =
    Some (0, Some cmd', Pages (Some [[], []]), Some m')"
proof
  fix e :: ioctl_env
  have n: "normal small_cmd = small_cmd" by (simp add: normal_def small_cmd_def take_bit_eq_mod)
  have sc: "c_addr small_cmd = 0x10000" "c_npages small_cmd = 2" "c_cpages small_cmd = 0" "c_faults small_cmd = 0"
    by (simp_all add: small_cmd_def)
  show "\<exists>cmd' m'. dmirror_fops_unlocked_ioctl
      (e\<lparr>ic_in := Some small_cmd, ic_out := True, ic_hrf := cpu_walk, ic_xa := (\<lambda>_. 0), ic_io := still_io 2\<rparr>) 0xC0284800 (Some small_mirror) =
    Some (0, Some cmd', Pages (Some [[], []]), Some m')"
    using ioctl_read_completes [OF cpu_walk_ok cpu_walk_complete small_mirror_coherent, of small_cmd
        "e\<lparr>ic_in := Some small_cmd, ic_out := True, ic_hrf := cpu_walk, ic_xa := (\<lambda>_. 0), ic_io := still_io 2\<rparr>"]
      small_cmd_ok by (auto simp add: small_cmd_range n request_ok_def sc)
qed

text \<open>
  A mirror that has just been opened on a device is empty, so coherent whatever the memory of the process;
  opening and closing it again leaves the kernel as it was; an open that fails leaves no mirror.
\<close>

theorem open_release:
  "case dmirror_fops_open e d k of
     (r, None) \<Rightarrow> r \<noteq> 0
   | (r, Some m) \<Rightarrow> r = 0 \<and> coherent m \<and> mdevice m = d \<and> cpu m = op_mm e \<and> dmirror_fops_release m = (0, k)"
  by (simp add: dmirror_fops_open_def dmirror_fops_release_def coherent_def kernel.defs)

end
