(* ===== verification/Hmm_Boot.thy ===== *)
theory Hmm_Boot
  imports Hmm_Module
begin

text \<open>
  Loading and unloading the module of \<open>hmm.c\<close>: what \<open>rshm_init\<close> builds, what \<open>rshm_exit\<close> takes down, and
  what a failed \<open>rshm_init\<close> leaves behind.
\<close>

section \<open>Frames of the chunk operations\<close>

lemma push_pages_module [simp]:
  "cdevs (push_pages d ps k) = cdevs k" "chrdev (push_pages d ps k) = chrdev k"
  by (induction ps arbitrary: k) (simp_all add: push_free_def set_dev_def)

lemma set_dev_module [simp]: "cdevs (set_dev d f k) = cdevs k" "chrdev (set_dev d f k) = chrdev k"
  by (simp_all add: set_dev_def)

lemma publish_module [simp]: "cdevs (publish_chunk c ch k) = cdevs k" "chrdev (publish_chunk c ch k) = chrdev k"
  by (simp_all add: publish_chunk_def)

lemma allocate_chunk_module:
  "dmirror_allocate_chunk e d False k = Some (r, p, k') \<Longrightarrow> cdevs k' = cdevs k \<and> chrdev k' = chrdev k"
  by (auto simp: dmirror_allocate_chunk_def Let_def split: option.splits remap_result.splits if_splits)

text \<open>Nothing of the device's memory is in use any more.\<close>

definition idle :: "nat \<Rightarrow> evict_env" where
  "idle c = \<lparr>ev_src = [], ev_new = [], ev_freed = []\<rparr>"

lemma idle_simps [simp]: "ev_src (idle c) = []" "ev_new (idle c) = []" "ev_freed (idle c) = []" "evict_ok (idle c) c' k"
  by (simp_all add: evict_ok_def idle_def)

lemma remove_walk_module:
  "remove_walk d c q (k :: module_state) = Some k' \<Longrightarrow> cdevs k' = cdevs k \<and> chrdev k' = chrdev k"
proof (rule remove_walk.raw_induct [of "\<lambda>d c q k k'. cdevs k' = cdevs k \<and> chrdev k' = chrdev k"])
  fix walk :: "nat \<Rightarrow> nat \<Rightarrow> ptr \<Rightarrow> module_state \<Rightarrow> module_state option" and d c q and k k' :: module_state
  assume ih: "\<And>d c q k k'. walk d c q k = Some k' \<Longrightarrow> cdevs k' = cdevs k \<and> chrdev k' = chrdev k"
    and run: "(case q of NULL \<Rightarrow> Some k | MirrorP _ \<Rightarrow> None
     | PageP p \<Rightarrow> (case pgmap k p of None \<Rightarrow> None
          | Some c' \<Rightarrow> let k' = (if c' = c then set_dev d (\<lambda>dv. dv\<lparr>free_pages := zone_device_data k p\<rparr>) k else k)
              in walk d c (zone_device_data k' p) k')) = Some k'"
  show "cdevs k' = cdevs k \<and> chrdev k' = chrdev k"
  proof (cases q)
    case (PageP p)
    with run obtain c' where "walk d c (zone_device_data (if c' = c then set_dev d (\<lambda>dv. dv\<lparr>free_pages := zone_device_data k p\<rparr>) k else k) p)
        (if c' = c then set_dev d (\<lambda>dv. dv\<lparr>free_pages := zone_device_data k p\<rparr>) k else k) = Some k'"
      by (auto simp: Let_def split: option.splits)
    from ih [OF this] show ?thesis by (simp split: if_splits)
  qed (use run in simp_all)
qed

lemma remove_each_module:
  "remove_each d idle cs (k :: module_state) = Some k' \<Longrightarrow> cdevs k' = cdevs k \<and> chrdev k' = chrdev k"
proof (induction cs arbitrary: k)
  case (Cons c cs)
  obtain ch k1 k2 where run: "chunks k c = Some ch"
    "dmirror_remove_free_pages c (k\<lparr>chunks := (chunks k)(c \<mapsto> ch\<lparr>remove := True\<rparr>)\<rparr>) = Some k1"
    "remove_each d idle cs k2 = Some k'" "cdevs k2 = cdevs k1" "chrdev k2 = chrdev k1"
    using Cons.prems
    by (auto simp: Let_def dmirror_device_evict_chunk_def split: option.splits if_splits)
  have "cdevs k1 = cdevs k \<and> chrdev k1 = chrdev k"
    using run(2) remove_walk_module [of _ c _ "k\<lparr>chunks := (chunks k)(c \<mapsto> ch\<lparr>remove := True\<rparr>)\<rparr>" k1]
    by (simp add: dmirror_remove_free_pages_def)
  with Cons.IH [OF run(3)] run(4,5) show ?case by simp
qed simp

lemma remove_chunks_module:
  assumes "dmirror_device_remove_chunks idle d (k :: module_state) = Some k'"
  shows "cdevs k' = cdevs k \<and> chrdev k' = chrdev k"
proof (cases "devmem_chunks (devs k d)")
  case (Some cs)
  with assms obtain k1 where "remove_each d idle (take (unat (devmem_count (devs k d))) cs) k = Some k1"
    "cdevs k' = cdevs k1" "chrdev k' = chrdev k1"
    by (auto simp: dmirror_device_remove_chunks_def split: option.splits)
  with remove_each_module [of d _ k k1] show ?thesis by simp
qed (use assms in \<open>simp add: dmirror_device_remove_chunks_def\<close>)

section \<open>Loading\<close>

text \<open>The state in which the devices are initialised: cleared, two of them of the private type.\<close>

definition boot_start :: "module_state \<Rightarrow> module_state" where
  "boot_start k = set_dev 1 (\<lambda>dv. dv\<lparr>zone_device_type := HMM_DMIRROR_MEMORY_DEVICE_PRIVATE\<rparr>)
     (set_dev 0 (\<lambda>dv. dv\<lparr>zone_device_type := HMM_DMIRROR_MEMORY_DEVICE_PRIVATE\<rparr>) (clear_devices (k\<lparr>chrdev := True\<rparr>)))"

text \<open>A kernel that grants the two devices different chunks with different regions, all unused.\<close>

definition boot_ok :: "(nat \<Rightarrow> init_env) \<Rightarrow> module_state \<Rightarrow> bool" where
  "boot_ok env k \<longleftrightarrow> chunks k = Map.empty
     \<and> list_all (\<lambda>d. ie_name (env d) = 0 \<and> ie_add (env d) = 0 \<and> fresh_chunk d (ie_chunk (env d)) (boot_start k)) [0, 1]
     \<and> e_kzalloc (ie_chunk (env 0)) \<noteq> e_kzalloc (ie_chunk (env 1)) \<and> e_region (ie_chunk (env 0)) \<noteq> e_region (ie_chunk (env 1))
     \<and> set (chunk_pages (ie_chunk (env 0))) \<inter> set (chunk_pages (ie_chunk (env 1))) = {}"

lemma boot_start_simps [simp]:
  "chunks (boot_start k) = chunks k" "pgmap (boot_start k) = pgmap k" "regions (boot_start k) = regions k"
  "cdevs (boot_start k) = cdevs k" "chrdev (boot_start k)" "zone_device_data (boot_start k) = zone_device_data k"
  "devs (boot_start k) 0 = zero_device\<lparr>zone_device_type := 1\<rparr>"
  "devs (boot_start k) (Suc 0) = zero_device\<lparr>zone_device_type := 1\<rparr>"
  "d = 2 \<or> d = 3 \<Longrightarrow> devs (boot_start k) d = zero_device"
  by (auto simp: boot_start_def set_dev_def clear_devices_def DMIRROR_NDEVICES_def HMM_DMIRROR_MEMORY_DEVICE_PRIVATE_def)

lemma boot_start_ok: "d = 0 \<or> d = 1 \<Longrightarrow> device_ok d (boot_start k) [] \<and> chunk_ids (devs (boot_start k) d) = []"
  by (auto simp: device_ok_def free_list_def array_ok_def zero_device_def dmirror_is_private_zone_def
      HMM_DMIRROR_MEMORY_DEVICE_PRIVATE_def chunk_ids_def)

lemma fresh_ids: "fresh_chunk d e k \<Longrightarrow> \<exists>c r. e_kzalloc e = Some c \<and> e_region e = Some r \<and> length (chunk_pages e) = 65536"
  by (auto simp: fresh_chunk_def chunk_pages_def split: option.splits)

lemma init_device_ok:
  assumes "ie_name e = 0" and "ie_add e = 0" and "fresh_chunk d (ie_chunk e) k" and "device_ok d k []" and "ranges_ok k"
    and "e_kzalloc (ie_chunk e) = Some c" and "e_region (ie_chunk e) = Some r"
  obtains k' where "dmirror_device_init e d k = Some (0, k')" "cdevs k' = insert d (cdevs k)" "chrdev k' = chrdev k"
    "device_ok d k' (rev (chunk_pages (ie_chunk e)))" "list_all (\<lambda>p. pgmap k' p \<noteq> None) (rev (chunk_pages (ie_chunk e)))"
    "\<And>d'. d' \<noteq> d \<Longrightarrow> devs k' d' = devs k d'" "ranges_ok k'" "regions k' = insert r (regions k)"
    "\<And>c'. c' \<noteq> c \<Longrightarrow> chunks k' c' = chunks k c'" "map_option chunk_dev (chunks k' c) = Some d"
    "chunk_ids (devs k' d) = chunk_ids (devs k d) @ [c]"
    "\<And>p. p \<notin> set (chunk_pages (ie_chunk e)) \<Longrightarrow> pgmap k' p = pgmap k p \<and> zone_device_data k' p = zone_device_data k p"
proof -
  let ?k = "k\<lparr>cdevs := insert d (cdevs k)\<rparr>"
  have ok: "device_ok d ?k []" by (rule device_ok_cong [OF assms(4)]) simp_all
  have fresh: "fresh_chunk d (ie_chunk e) ?k" using assms(3) by (auto simp: fresh_chunk_def split: option.splits prod.splits)
  have rk: "ranges_ok ?k" using assms(5) by (simp add: ranges_ok_def)
  have none: "list_all (\<lambda>p. pgmap ?k p \<noteq> None) []" by simp
  obtain k' where k': "\<And>want. dmirror_allocate_chunk (ie_chunk e) d want ?k =
      (if want then (case pop_free d k' of None \<Rightarrow> None | Some (p, k') \<Rightarrow> Some (0, Some p, k')) else Some (0, None, k'))"
    "device_ok d k' (rev (chunk_pages (ie_chunk e)) @ [])" "\<And>d'. d' \<noteq> d \<Longrightarrow> devs k' d' = devs ?k d'"
    "list_all (\<lambda>p. pgmap k' p \<noteq> None) (rev (chunk_pages (ie_chunk e)) @ [])"
    "\<And>p. p \<notin> set (chunk_pages (ie_chunk e)) \<Longrightarrow> zone_device_data k' p = zone_device_data ?k p"
    "\<And>p. p \<notin> set (chunk_pages (ie_chunk e)) \<Longrightarrow> pgmap k' p = pgmap ?k p" "ranges_ok ?k \<Longrightarrow> ranges_ok k'"
    "\<And>c. e_kzalloc (ie_chunk e) = Some c \<Longrightarrow> chunk_ids (devs k' d) = chunk_ids (devs ?k d) @ [c] \<and> map_option chunk_dev (chunks k' c) = Some d"
    "\<And>r. e_region (ie_chunk e) = Some r \<Longrightarrow> regions k' = insert r (regions ?k)"
    "\<And>c'. e_kzalloc (ie_chunk e) \<noteq> Some c' \<Longrightarrow> chunks k' c' = chunks ?k c'"
    using ok fresh none by (rule allocate_chunk_ok) blast
  show ?thesis
  proof (rule that)
    show "dmirror_device_init e d k = Some (0, k')" using assms(1,2) k'(1) [of False] by (simp add: dmirror_device_init_def)
    from allocate_chunk_module [of "ie_chunk e" d ?k 0 None k'] k'(1) [of False]
    show "cdevs k' = insert d (cdevs k)" "chrdev k' = chrdev k" by simp_all
  qed (use k' rk assms(6,7) in simp_all)
qed

text \<open>New chunks and pages do not touch the free list of a device.\<close>

lemma device_ok_later:
  assumes "device_ok d k ps" and "devs k' d = devs k d"
    and "\<And>p. p \<in> set ps \<Longrightarrow> pgmap k' p = pgmap k p \<and> zone_device_data k' p = zone_device_data k p"
    and "\<And>c. chunks k c \<noteq> None \<Longrightarrow> chunks k' c = chunks k c"
  shows "device_ok d k' ps"
proof -
  have ch: "(\<And>p. p \<in> set ps \<Longrightarrow> f p = g p) \<Longrightarrow> chain f q ps = chain g q ps" for f g q
    by (induction ps arbitrary: q) auto
  have "chain (zone_device_data k') (free_pages (devs k d)) ps"
    using assms(1) ch [of "zone_device_data k'" "zone_device_data k"] assms(3) by (simp add: device_ok_def free_list_def)
  moreover have "owned d k' p" if "p \<in> set ps" for p
  proof -
    have "owned d k p" using assms(1) that by (simp add: device_ok_def free_list_def list_all_iff)
    then show ?thesis using assms(3) [OF that] assms(4)
      by (fastforce simp: owned_def dmirror_page_to_chunk_def split: option.splits)
  qed
  ultimately show ?thesis using assms(1,2) by (simp add: device_ok_def free_list_def list_all_iff)
qed

lemma boot:
  assumes "boot_ok env k"
  obtains k' c0 c1 where "rshm_init 0 env ev k = Some (0, k')" "cdevs k' = cdevs k \<union> {0, 1}" "chrdev k'"
    "device_ok 0 k' (rev (chunk_pages (ie_chunk (env 0))))" "device_ok 1 k' (rev (chunk_pages (ie_chunk (env 1))))"
    "list_all (\<lambda>p. pgmap k' p \<noteq> None) (rev (chunk_pages (ie_chunk (env 0))))"
    "list_all (\<lambda>p. pgmap k' p \<noteq> None) (rev (chunk_pages (ie_chunk (env 1))))"
    "devs k' 2 = zero_device" "devs k' 3 = zero_device" "ranges_ok k'" "c0 \<noteq> c1"
    "chunk_ids (devs k' 0) = [c0]" "chunk_ids (devs k' 1) = [c1]"
    "map_option chunk_dev (chunks k' c0) = Some 0" "map_option chunk_dev (chunks k' c1) = Some 1"
    "\<And>c. c \<noteq> c0 \<Longrightarrow> c \<noteq> c1 \<Longrightarrow> chunks k' c = None"
proof -
  let ?e0 = "ie_chunk (env 0)" and ?e1 = "ie_chunk (env 1)"
  have env: "ie_name (env 0) = 0" "ie_add (env 0) = 0" "ie_name (env 1) = 0" "ie_add (env 1) = 0"
    "fresh_chunk 0 ?e0 (boot_start k)" "fresh_chunk 1 ?e1 (boot_start k)" "chunks k = Map.empty"
    "e_kzalloc ?e0 \<noteq> e_kzalloc ?e1" "e_region ?e0 \<noteq> e_region ?e1" "set (chunk_pages ?e0) \<inter> set (chunk_pages ?e1) = {}"
    using assms by (simp_all add: boot_ok_def)
  obtain c0 r0 where e0: "e_kzalloc ?e0 = Some c0" "e_region ?e0 = Some r0" using fresh_ids [OF env(5)] by blast
  obtain c1 r1 where e1: "e_kzalloc ?e1 = Some c1" "e_region ?e1 = Some r1" using fresh_ids [OF env(6)] by blast
  have ne: "c0 \<noteq> c1" "r0 \<noteq> r1" using env(8,9) e0 e1 by auto
  have "ranges_ok (boot_start k)" by (simp add: ranges_ok_def env(7))
  with env e0 boot_start_ok [of 0 k] obtain k1 where
    k1: "dmirror_device_init (env 0) 0 (boot_start k) = Some (0, k1)" "cdevs k1 = insert 0 (cdevs (boot_start k))"
    "chrdev k1 = chrdev (boot_start k)" "device_ok 0 k1 (rev (chunk_pages ?e0))" "list_all (\<lambda>p. pgmap k1 p \<noteq> None) (rev (chunk_pages ?e0))"
    "\<And>d'. d' \<noteq> 0 \<Longrightarrow> devs k1 d' = devs (boot_start k) d'" "ranges_ok k1" "regions k1 = insert r0 (regions (boot_start k))"
    "\<And>c'. c' \<noteq> c0 \<Longrightarrow> chunks k1 c' = chunks (boot_start k) c'" "map_option chunk_dev (chunks k1 c0) = Some 0"
    "chunk_ids (devs k1 0) = chunk_ids (devs (boot_start k) 0) @ [c0]"
    "\<And>p. p \<notin> set (chunk_pages ?e0) \<Longrightarrow> pgmap k1 p = pgmap (boot_start k) p \<and> zone_device_data k1 p = zone_device_data (boot_start k) p"
    by (elim init_device_ok [of "env 0" 0 "boot_start k" c0 r0]) auto
  have pages: "set (chunk_pages ?e1) = {unat (drop_bit PAGE_SHIFT (fst r1)) ..< unat (drop_bit PAGE_SHIFT (fst r1)) + 65536}"
    using e1(2) by (cases r1) (simp add: chunk_pages_def)
  have same: "pgmap k1 p = pgmap k p" if "p \<in> set (chunk_pages ?e1)" for p
    using k1(12) [of p] env(10) that by auto
  have fresh: "fresh_chunk 1 ?e1 k1"
    using env(6) e1 ne k1(6) [of 1] k1(8) k1(9) [of c1] same unfolding pages
    by (auto simp: fresh_chunk_def list_all_iff split: prod.splits)
  have "device_ok 1 k1 []" using boot_start_ok [of 1 k] k1(6) [of 1] by (simp add: device_ok_def free_list_def)
  with env e1 fresh k1(7) obtain k2 where
    k2: "dmirror_device_init (env 1) 1 k1 = Some (0, k2)" "cdevs k2 = insert 1 (cdevs k1)" "chrdev k2 = chrdev k1"
    "device_ok 1 k2 (rev (chunk_pages ?e1))" "list_all (\<lambda>p. pgmap k2 p \<noteq> None) (rev (chunk_pages ?e1))"
    "\<And>d'. d' \<noteq> 1 \<Longrightarrow> devs k2 d' = devs k1 d'" "ranges_ok k2"
    "\<And>c'. c' \<noteq> c1 \<Longrightarrow> chunks k2 c' = chunks k1 c'" "map_option chunk_dev (chunks k2 c1) = Some 1"
    "chunk_ids (devs k2 1) = chunk_ids (devs k1 1) @ [c1]"
    "\<And>p. p \<notin> set (chunk_pages ?e1) \<Longrightarrow> pgmap k2 p = pgmap k1 p \<and> zone_device_data k2 p = zone_device_data k1 p"
    by (elim init_device_ok [of "env 1" 1 k1 c1 r1]) auto
  have none1: "chunks k1 c1 = None" using k1(9) [of c1] ne env(7) by simp
  have later: "pgmap k2 p = pgmap k1 p \<and> zone_device_data k2 p = zone_device_data k1 p" if "p \<in> set (rev (chunk_pages ?e0))" for p
    using that env(10) by (intro k2(11)) auto
  show ?thesis
  proof (rule that)
    have "rshm_init 0 env ev k = init_devices env ev [0, 1] (boot_start k)"
      by (simp add: rshm_init_def boot_start_def Let_def)
    then show "rshm_init 0 env ev k = Some (0, k2)" using k1(1) k2(1) by simp
    show "device_ok 0 k2 (rev (chunk_pages ?e0))"
    proof (rule device_ok_later [OF k1(4)])
      show "chunks k2 c = chunks k1 c" if "chunks k1 c \<noteq> None" for c
        using that none1 by (intro k2(8)) auto
    qed (use k2(6) later in simp_all)
    show "list_all (\<lambda>p. pgmap k2 p \<noteq> None) (rev (chunk_pages ?e0))"
      using k1(5) later by (simp add: list_all_iff)
    show "chunk_ids (devs k2 0) = [c0]" "chunk_ids (devs k2 1) = [c1]"
      using k1(6,11) k2(6,10) boot_start_ok [of 0 k] boot_start_ok [of 1 k] by simp_all
  qed (use k1 k2 ne env(7) in auto)
qed

text \<open>
  When the kernel grants what is asked for, \<open>rshm_init\<close> returns 0 with both devices registered, each
  with a well-formed free list of the 65536 pages of its own chunk, the last page first.
\<close>

theorem rshm_init_ok:
  assumes "boot_ok env k"
  shows "\<exists>k'. rshm_init 0 env ev k = Some (0, k') \<and> cdevs k' = cdevs k \<union> {0, 1} \<and> chrdev k'
    \<and> device_ok 0 k' (rev (chunk_pages (ie_chunk (env 0)))) \<and> length (chunk_pages (ie_chunk (env 0))) = 65536
    \<and> device_ok 1 k' (rev (chunk_pages (ie_chunk (env 1)))) \<and> length (chunk_pages (ie_chunk (env 1))) = 65536"
proof -
  have "fresh_chunk 0 (ie_chunk (env 0)) (boot_start k)" "fresh_chunk 1 (ie_chunk (env 1)) (boot_start k)"
    using assms by (simp_all add: boot_ok_def)
  with fresh_ids have "length (chunk_pages (ie_chunk (env 0))) = 65536" "length (chunk_pages (ie_chunk (env 1))) = 65536"
    by blast+
  with assms show ?thesis by (elim boot [of env k ev]) blast
qed

definition blank_module :: module_state where
  "blank_module = \<lparr>devs = (\<lambda>_. zero_device), chunks = Map.empty, zone_device_data = (\<lambda>_. NULL), pgmap = Map.empty,
     page_data = (\<lambda>_. []), sys_pages = {}, regions = {}, cdevs = {}, chrdev = False\<rparr>"

definition generous :: "nat \<Rightarrow> init_env" where
  "generous d = \<lparr>ie_name = 0, ie_add = 0, ie_chunk = \<lparr>e_kzalloc = Some d,
     e_region = Some (if d = 0 then (0x100000000, 0x10FFFFFFF) else (0x110000000, 0x11FFFFFFF)), e_krealloc = True, e_memremap = Remapped\<rparr>\<rparr>"

lemma generous_ok: "boot_ok generous blank_module"
proof -
  have "chunks (boot_start blank_module) = Map.empty" "pgmap (boot_start blank_module) = Map.empty" "regions (boot_start blank_module) = {}"
    by (simp_all add: blank_module_def)
  moreover have "chunk_pages (ie_chunk (generous 0)) = [1048576..<1114112]" "chunk_pages (ie_chunk (generous 1)) = [1114112..<1179648]"
    by (simp_all add: generous_def chunk_pages_def drop_bit_eq_div del: upt_rec_numeral)
  then have "set (chunk_pages (ie_chunk (generous 0))) \<inter> set (chunk_pages (ie_chunk (generous 1))) = {}"
    by (simp only: set_upt) (auto simp del: upt_rec_numeral)
  ultimately show ?thesis
    unfolding boot_ok_def fresh_chunk_def
    by (simp add: list_all_iff generous_def blank_module_def zero_device_def del: upt_rec_numeral set_upt)
qed

theorem rshm_init_ok_witness:
  "\<exists>k'. rshm_init 0 generous idle blank_module = Some (0, k') \<and> cdevs k' = {0, 1} \<and> chrdev k'"
  using rshm_init_ok [OF generous_ok, of idle] by (auto simp: blank_module_def)

section \<open>Unloading\<close>

text \<open>Both devices give their chunks back, the second one after its character device has been deleted.\<close>

lemma remove_both:
  fixes k :: module_state
  assumes "device_ok 0 k ps" and "device_ok 1 k qs" and "list_all (\<lambda>p. pgmap k p \<noteq> None) ps"
    and "list_all (\<lambda>p. pgmap k p \<noteq> None) qs" and "ranges_ok k" and "c0 \<noteq> c1"
    and "chunk_ids (devs k 0) = [c0]" and "chunk_ids (devs k 1) = [c1]"
    and "map_option chunk_dev (chunks k c0) = Some 0" and "map_option chunk_dev (chunks k c1) = Some 1"
  obtains k2 k4 where "dmirror_device_remove_chunks idle 0 k = Some k2"
    "dmirror_device_remove_chunks idle 1 (k2\<lparr>cdevs := cdevs k2 - {0}\<rparr>) = Some k4"
    "\<And>c. chunks k4 c = (if c = c0 \<or> c = c1 then None else chunks k c)"
    "devs k2 1 = devs k 1" "\<And>d. d \<noteq> 0 \<Longrightarrow> d \<noteq> 1 \<Longrightarrow> devs k4 d = devs k d"
    "devmem_chunks (devs k4 0) = None" "devmem_chunks (devs k4 1) = None"
proof -
  have some: "devmem_chunks (devs k 0) \<noteq> None" "devmem_chunks (devs k 1) \<noteq> None"
    using assms(7,8) by (auto simp: chunk_ids_def split: option.splits)
  have c0: "\<forall>c\<in>set (chunk_ids (devs k 0)). \<exists>ch. chunks k c = Some ch \<and> chunk_dev ch = 0"
    using assms(7,9) by auto
  obtain k2 where k2: "dmirror_device_remove_chunks idle 0 k = Some k2" "device_ok 0 k2 []" "devmem_chunks (devs k2 0) = None"
    "\<forall>c. chunks k2 c = (if c \<in> set (chunk_ids (devs k 0)) then None else chunks k c)"
    "\<forall>d'. d' \<noteq> 0 \<longrightarrow> devs k2 d' = devs k d'" "ranges_ok k2" "zone_device_data k2 = zone_device_data k"
    "\<forall>p. pgmap k p \<notin> Some ` set (chunk_ids (devs k 0)) \<longrightarrow> pgmap k2 p = pgmap k p"
    by (rule remove_chunks_ok [of 0 k ps idle]) (use assms c0 some in simp_all)
  note other = device_ok_other [OF assms(2) _ k2(7,4,8) c0, of] assms(4)
  have ok1: "device_ok 1 k2 qs" "list_all (\<lambda>p. pgmap k2 p \<noteq> None) qs" using k2(5) other by simp_all
  let ?k3 = "k2\<lparr>cdevs := cdevs k2 - {0}\<rparr>"
  have "device_ok 1 ?k3 qs" by (rule device_ok_cong [OF ok1(1)]) simp_all
  moreover have "list_all (\<lambda>p. pgmap ?k3 p \<noteq> None) qs" using ok1(2) by simp
  moreover have "ranges_ok ?k3" using k2(6) by (simp add: ranges_ok_def)
  moreover have ids1: "chunk_ids (devs ?k3 1) = [c1]" using k2(5) assms(8) by simp
  moreover have "\<forall>c\<in>set (chunk_ids (devs ?k3 1)). \<exists>ch. chunks ?k3 c = Some ch \<and> chunk_dev ch = 1"
    unfolding ids1 using k2(4) assms(6,7,10) by auto
  ultimately obtain k4 where k4: "dmirror_device_remove_chunks idle 1 ?k3 = Some k4" "devmem_chunks (devs k4 1) = None"
    "\<forall>c. chunks k4 c = (if c \<in> set (chunk_ids (devs ?k3 1)) then None else chunks ?k3 c)"
    "\<forall>d'. d' \<noteq> 1 \<longrightarrow> devs k4 d' = devs ?k3 d'"
    by (elim remove_chunks_ok [of 1 ?k3 qs idle]) (use k2(5) some(2) in auto)
  show ?thesis
    by (rule that [OF k2(1) k4(1)]) (use k2(3-5) k4(2-4) ids1 assms(7) in auto)
qed



section \<open>A failed load\<close>

text \<open>
  When the first chunk of the first device cannot be allocated, \<open>rshm_init\<close> returns the error
  and gives the device numbers back, but leaves the character device of the failed device registered:
  the clean-up starts at the device before it, and \<open>dmirror_device_init\<close> does not clean up after itself.
\<close>

theorem rshm_init_leaves_cdev:
  assumes "ie_name (env 0) = 0" and "ie_add (env 0) = 0"
    and "dmirror_allocate_chunk (ie_chunk (env 0)) 0 False ((boot_start k)\<lparr>cdevs := insert 0 (cdevs k)\<rparr>) = Some (r, p, k1)" and "r \<noteq> 0"
  shows "\<exists>k'. rshm_init 0 env ev k = Some (r, k') \<and> 0 \<in> cdevs k' \<and> \<not> chrdev k'"
proof -
  have "rshm_init 0 env ev k = init_devices env ev [0, 1] (boot_start k)"
    by (simp add: rshm_init_def boot_start_def Let_def)
  also have "\<dots> = Some (r, k1\<lparr>chrdev := False\<rparr>)" using assms by (simp add: dmirror_device_init_def)
  finally show ?thesis using allocate_chunk_module [OF assms(3)] by simp
qed

theorem rshm_init_leaves_cdev_witness:
  "\<exists>k'. rshm_init 0 (\<lambda>d. generous d\<lparr>ie_chunk := (ie_chunk (generous d))\<lparr>e_kzalloc := None\<rparr>\<rparr>) idle blank_module = Some (- ENOMEM, k')
    \<and> 0 \<in> cdevs k'"
  using rshm_init_leaves_cdev [of "\<lambda>d. generous d\<lparr>ie_chunk := (ie_chunk (generous d))\<lparr>e_kzalloc := None\<rparr>\<rparr>" blank_module "- ENOMEM" None _ idle]
  by (auto simp: generous_def dmirror_allocate_chunk_def)

end
