(* ===== verification/Mem.thy ===== *)
theory Mem
  imports Devmem
begin

text \<open>
  The table of shared pages of \<open>mm/mem.c\<close> and \<open>mm/mem.h\<close>: \<open>memory_init\<close> and \<open>memory_destroy\<close>. The page
  contents and the pages taken from \<open>alloc_page\<close> are those of \<open>kernel\<close>; the global pointer \<open>memory\<close> is null, valid
  or left dangling. The result \<open>None\<close> is an invalid memory access.
\<close>

section \<open>The table\<close>

datatype state_t = INVALID | SHARED | MODIFIED | EXCLUSIVE

record page_t =
  pg_state :: state_t
  pg_page :: "page option"

record memory_t =
  m_pages :: "page_t list"
  m_size :: u64

datatype memory_ptr = Mem_null | Mem_at memory_t | Mem_freed

record mem_state = kernel +
  memory :: memory_ptr

definition BUF_LEN :: u64 where "BUF_LEN = 1024000"

definition DIV_ROUND_UP :: "u64 \<Rightarrow> u64 \<Rightarrow> u64" where
  "DIV_ROUND_UP n d = (n + d - 1) div d"

section \<open>Set-up and tear-down\<close>

text \<open>\<open>alloc i\<close> is what \<open>alloc_page\<close> returns for entry \<open>i\<close>; the loop does not test it.\<close>

fun init_pages :: "(nat \<Rightarrow> page option) \<Rightarrow> nat list \<Rightarrow> 's mem_state_scheme \<Rightarrow> page_t list \<times> 's mem_state_scheme" where
  "init_pages alloc [] k = ([], k)"
| "init_pages alloc (i # is) k =
    (let k' = (case alloc i of None \<Rightarrow> k | Some p \<Rightarrow> k\<lparr>sys_pages := insert p (sys_pages k)\<rparr>);
         (es, k'') = init_pages alloc is k'
     in (\<lparr>pg_state = INVALID, pg_page = alloc i\<rparr> # es, k''))"

text \<open>The two flags say whether the two calls of \<open>kmalloc\<close> succeed; their results are used without a test.\<close>

definition memory_init ::
  "bool \<Rightarrow> bool \<Rightarrow> (nat \<Rightarrow> page option) \<Rightarrow> 's mem_state_scheme \<Rightarrow> 's mem_state_scheme option" where
  "memory_init km_memory km_pages alloc k =
    (if \<not> km_memory \<or> \<not> km_pages then None
     else let n = DIV_ROUND_UP BUF_LEN PAGE_SIZE;
              (es, k) = init_pages alloc [0..<unat n] k
          in Some (k\<lparr>memory := Mem_at \<lparr>m_pages = es, m_size = n\<rparr>\<rparr>))"

text \<open>\<open>__free_page\<close> needs a page that is allocated; the null pointer is not one.\<close>

fun destroy_pages :: "page_t list \<Rightarrow> nat list \<Rightarrow> 's mem_state_scheme \<Rightarrow> 's mem_state_scheme option" where
  "destroy_pages ps [] k = Some k"
| "destroy_pages ps (i # is) k =
    (if i < length ps
     then (case pg_page (ps ! i) of
             None \<Rightarrow> None
           | Some p \<Rightarrow> if p \<in> sys_pages k then destroy_pages ps is (k\<lparr>sys_pages := sys_pages k - {p}\<rparr>) else None)
     else None)"

definition memory_destroy :: "'s mem_state_scheme \<Rightarrow> 's mem_state_scheme option" where
  "memory_destroy k =
    (case memory k of
       Mem_at m \<Rightarrow> map_option (\<lambda>k. k\<lparr>memory := Mem_freed\<rparr>) (destroy_pages (m_pages m) [0..<unat (m_size m)] k)
     | _ \<Rightarrow> None)"

section \<open>Effect of the loops\<close>

lemma table_size: "DIV_ROUND_UP BUF_LEN PAGE_SIZE = 250" "unat (DIV_ROUND_UP BUF_LEN PAGE_SIZE) = 250"
  by (simp_all add: DIV_ROUND_UP_def BUF_LEN_def)

lemma init_pages_eq:
  "init_pages alloc is k =
    (map (\<lambda>i. \<lparr>pg_state = INVALID, pg_page = alloc i\<rparr>) is,
     k\<lparr>sys_pages := sys_pages k \<union> {p. \<exists>i \<in> set is. alloc i = Some p}\<rparr>)"
proof (induction "is" arbitrary: k)
  case (Cons i "is")
  then show ?case
    by (cases "alloc i") (auto simp: Let_def intro!: arg_cong [where f = "\<lambda>s. k\<lparr>sys_pages := s\<rparr>"])
qed simp

lemma memory_init_eq:
  "memory_init True True alloc k =
    Some (k\<lparr>sys_pages := sys_pages k \<union> {p. \<exists>i < 250. alloc i = Some p},
       memory := Mem_at \<lparr>m_pages = map (\<lambda>i. \<lparr>pg_state = INVALID, pg_page = alloc i\<rparr>) [0..<250], m_size = 250\<rparr>\<rparr>)"
  by (simp add: memory_init_def init_pages_eq table_size Let_def Bex_def del: upt_rec_numeral)

lemma destroy_pages_ok:
  assumes "\<forall>i \<in> set is. i < length ps \<and> pg_page (ps ! i) = Some (f i) \<and> f i \<in> sys_pages k"
    and "inj_on f (set is)" and "distinct is"
  shows "destroy_pages ps is k = Some (k\<lparr>sys_pages := sys_pages k - f ` set is\<rparr>)"
  using assms
proof (induction "is" arbitrary: k)
  case (Cons i "is")
  let ?k = "k\<lparr>sys_pages := sys_pages k - {f i}\<rparr>"
  have ne: "f j \<noteq> f i" if "j \<in> set is" for j
    using Cons.prems(2,3) that by (force simp: image_iff)
  have "destroy_pages ps is ?k = Some (?k\<lparr>sys_pages := sys_pages ?k - f ` set is\<rparr>)"
    by (rule Cons.IH) (use Cons.prems ne in auto)
  moreover have "sys_pages k - {f i} - f ` set is = sys_pages k - insert (f i) (f ` set is)" by blast
  ultimately show ?case using Cons.prems(1) by simp
qed simp

lemma destroy_pages_null:
  assumes "i \<in> set is" and "pg_page (ps ! i) = None"
  shows "destroy_pages ps is k = None"
  using assms by (induction "is" arbitrary: k) (auto split: option.splits)

section \<open>Properties\<close>

definition table_of :: "(nat \<Rightarrow> page) \<Rightarrow> memory_t" where
  "table_of f = \<lparr>m_pages = map (\<lambda>i. \<lparr>pg_state = INVALID, pg_page = Some (f i)\<rparr>) [0..<250], m_size = 250\<rparr>"

text \<open>
  When every allocation succeeds, with pages that differ and were free, the table holds 250
  invalid entries with those pages, and destroying it gives exactly these pages back; a second call of
  \<open>memory_destroy\<close> uses freed memory, because the pointer is not reset.
\<close>

theorem memory_round_trip:
  fixes k :: mem_state
  assumes "inj_on f {..<250}" and "f ` {..<250} \<inter> sys_pages k = {}"
  shows "\<exists>k'. memory_init True True (Some \<circ> f) k = Some k' \<and> memory k' = Mem_at (table_of f)
    \<and> sys_pages k' = sys_pages k \<union> f ` {..<250}
    \<and> memory_destroy k' = Some (k\<lparr>memory := Mem_freed\<rparr>)
    \<and> Option.bind (memory_destroy k') memory_destroy = None"
proof -
  let ?k = "k\<lparr>sys_pages := sys_pages k \<union> f ` {..<250}, memory := Mem_at (table_of f)\<rparr>"
  have "{p. \<exists>i<250. (Some \<circ> f) i = Some p} = f ` {..<250}" by auto
  then have init: "memory_init True True (Some \<circ> f) k = Some ?k"
    by (simp add: memory_init_eq table_of_def)
  have "destroy_pages (m_pages (table_of f)) [0..<250] ?k = Some (?k\<lparr>sys_pages := sys_pages ?k - f ` set [0..<250]\<rparr>)"
    by (rule destroy_pages_ok) (use assms in \<open>auto simp: table_of_def atLeast0LessThan simp del: upt_rec_numeral\<close>)
  moreover have "sys_pages ?k - f ` {..<250} = sys_pages k" using assms(2) by auto
  ultimately have "memory_destroy ?k = Some (k\<lparr>memory := Mem_freed\<rparr>)"
    by (simp add: memory_destroy_def table_of_def atLeast0LessThan del: upt_rec_numeral)
  moreover have "memory_destroy (k\<lparr>memory := Mem_freed\<rparr>) = None" by (simp add: memory_destroy_def)
  ultimately show ?thesis using init by simp
qed

theorem memory_round_trip_witness:
  "\<forall>k :: mem_state. Option.bind (memory_init True True (Some \<circ> (\<lambda>i. i + 7)) (k\<lparr>sys_pages := {}\<rparr>)) memory_destroy
    = Some (k\<lparr>sys_pages := {}, memory := Mem_freed\<rparr>)"
proof
  fix k :: mem_state
  show "Option.bind (memory_init True True (Some \<circ> (\<lambda>i. i + 7)) (k\<lparr>sys_pages := {}\<rparr>)) memory_destroy
    = Some (k\<lparr>sys_pages := {}, memory := Mem_freed\<rparr>)"
    using memory_round_trip [of "\<lambda>i. i + 7" "k\<lparr>sys_pages := {}\<rparr>"] by (auto simp: inj_on_def)
qed

text \<open>
  When a page of the table cannot be allocated \<open>memory_init\<close> completes all the same, with a
  null pointer in that entry, and \<open>memory_destroy\<close> then passes it to \<open>__free_page\<close>. When one of the two
  blocks cannot be allocated \<open>memory_init\<close> itself dereferences a null pointer.
\<close>

theorem memory_init_unchecked:
  fixes k :: mem_state
  assumes "i < 250" and "alloc i = None"
  shows "(\<exists>k'. memory_init True True alloc k = Some k' \<and> memory_destroy k' = None)
    \<and> memory_init False b alloc k = None \<and> memory_init b False alloc k = None"
proof -
  have "destroy_pages (map (\<lambda>i. \<lparr>pg_state = INVALID, pg_page = alloc i\<rparr>) [0..<250]) [0..<250] k = None" for k :: mem_state
    by (rule destroy_pages_null [where i = i]) (use assms in \<open>simp_all del: upt_rec_numeral\<close>)
  then show ?thesis
    by (simp add: memory_init_eq memory_destroy_def memory_init_def [of False] memory_init_def [of _ False] del: upt_rec_numeral)
qed

theorem memory_init_unchecked_witness:
  "\<forall>k :: mem_state. \<exists>k'. memory_init True True (\<lambda>i. if i = 3 then None else Some i) k = Some k' \<and> memory_destroy k' = None"
  using memory_init_unchecked [of 3 "\<lambda>i. if i = 3 then None else Some i"] by simp

end
