(* ===== verification/Nmsg.thy ===== *)
theory Nmsg
  imports Mem
begin

text \<open>
  The UDP transport of \<open>mm/nmsg.c\<close>: the client that asks for pages and stores what it receives in the table of
  pages, and the server thread that copies each message into the first page of the table. What the kernel's
  sockets, allocators and threads answer is an argument. The result \<open>None\<close> is an invalid memory access, or a
  wait that does not end within the answers given.
\<close>

unbundle bit_operations_syntax

section \<open>State\<close>

record sockaddr_in =
  sin_family :: u16
  sin_port :: u16
  sin_addr :: u32

datatype thread_ptr = Thread_null | Thread nat | Thread_err int

text \<open>
  \<open>socks\<close>, \<open>bufs\<close> and \<open>threads\<close> are the objects of the kernel that exist (a buffer with its bytes), \<open>sent\<close> the
  datagrams handed to the network. The fields with prefix \<open>cl_\<close> are those of \<open>nmsg_client\<close>, where \<open>cl_vec\<close> is
  the string the vector describes; those with prefix \<open>sv_\<close> belong to \<open>nmsg_server\<close>.
\<close>

record udp_state = mem_state +
  socks :: "nat set"
  bufs :: "nat \<rightharpoonup> u8 list"
  threads :: "nat set"
  sent :: "(nat \<times> sockaddr_in \<times> u8 list) list"
  cl_sock :: "nat option"
  cl_dest :: sockaddr_in
  cl_vec :: "u8 list"
  sv_sock :: "nat option"
  sv_sin :: sockaddr_in
  sv_buf :: "nat option"
  sv_ip :: "u8 list"
  sv_port :: int
  sv_thread :: thread_ptr

definition AF_INET :: u16 where "AF_INET = 2"

text \<open>The \<open>int\<close> argument of \<open>htons\<close> is cut to 16 bits.\<close>

definition htons :: "int \<Rightarrow> u16" where
  "htons port = (let x = word_of_int port :: u16 in push_bit 8 x OR drop_bit 8 x)"

text \<open>The part of an array before its first zero byte, and the bytes of a literal.\<close>

definition cstr :: "u8 list \<Rightarrow> u8 list" where
  "cstr bs = takeWhile (\<lambda>b. b \<noteq> 0) bs"

definition literal :: "string \<Rightarrow> u8 list" where
  "literal s = map of_char s"

definition kfree :: "nat option \<Rightarrow> udp_state \<Rightarrow> udp_state option" where
  "kfree p k =
    (case p of
       None \<Rightarrow> Some k
     | Some b \<Rightarrow> if bufs k b = None then None else Some (k\<lparr>bufs := (bufs k)(b := None)\<rparr>))"

definition sock_release :: "nat option \<Rightarrow> udp_state \<Rightarrow> udp_state option" where
  "sock_release p k =
    (case p of
       None \<Rightarrow> None
     | Some s \<Rightarrow> if s \<in> socks k then Some (k\<lparr>socks := socks k - {s}\<rparr>) else None)"

section \<open>The client\<close>

text \<open>\<open>created\<close> is the result of \<open>sock_create\<close>, with the socket made when it is not negative.\<close>

definition nmsg_init_client ::
  "int \<times> nat \<Rightarrow> (u8 list \<Rightarrow> u32) \<Rightarrow> u8 list \<Rightarrow> int \<Rightarrow> udp_state \<Rightarrow> int \<times> udp_state" where
  "nmsg_init_client created in_aton ip_address port_number k =
    (let (err, s) = created
     in if err < 0 then (err, k)
        else (0, k\<lparr>socks := insert s (socks k), cl_sock := Some s,
          cl_dest := \<lparr>sin_family = AF_INET, sin_port = htons port_number, sin_addr = in_aton ip_address\<rparr>\<rparr>))"

definition nmsg_send_message :: "int \<Rightarrow> u8 list \<Rightarrow> udp_state \<Rightarrow> (int \<times> udp_state) option" where
  "nmsg_send_message sendmsg message k =
    (case cl_sock k of
       None \<Rightarrow> None
     | Some s \<Rightarrow>
         if s \<notin> socks k then None
         else let k = k\<lparr>cl_vec := cstr message\<rparr>
              in if sendmsg < 0 then Some (- 1, k)
                 else Some (0, k\<lparr>sent := sent k @ [(s, cl_dest k, cl_vec k)]\<rparr>))"

text \<open>
  One turn of the receiving loop: the result of \<open>kernel_recvmsg\<close>, what it does to the memory behind
  \<open>iov_base\<close>, and the page \<open>alloc_page\<close> returns. That memory is the stack from \<open>request_message\<close> on, since
  \<open>nmsg_send_message\<close> left the vector pointing there; the 4096 bytes copied from it are those at the offsets
  below 4096.
\<close>

record recv_env =
  rc_len :: int
  rc_fill :: "(nat \<Rightarrow> u8) \<Rightarrow> nat \<Rightarrow> u8"
  rc_page :: "page option"

definition update_entry :: "nat \<Rightarrow> (page_t \<Rightarrow> page_t) \<Rightarrow> memory_ptr \<Rightarrow> memory_ptr option" where
  "update_entry i f mp =
    (case mp of
       Mem_at m \<Rightarrow> if i < length (m_pages m)
         then Some (Mem_at (m\<lparr>m_pages := (m_pages m)[i := f (m_pages m ! i)]\<rparr>)) else None
     | _ \<Rightarrow> None)"

definition shared_page :: "page \<Rightarrow> page_t" where
  "shared_page p = \<lparr>pg_state = SHARED, pg_page = Some p\<rparr>"

fun retrieve_loop :: "recv_env list \<Rightarrow> nat list \<Rightarrow> (nat \<Rightarrow> u8) \<Rightarrow> udp_state \<Rightarrow> (int \<times> udp_state) option" where
  "retrieve_loop es [] stack k = Some (0, k)"
| "retrieve_loop [] (i # is) stack k = None"
| "retrieve_loop (e # es) (i # is) stack k =
    (let stack = rc_fill e stack
     in if rc_len e < 0 then Some (- 1, k)
        else case rc_page e of
          None \<Rightarrow> Some (- 1, k)
        | Some p \<Rightarrow>
            let k = k\<lparr>sys_pages := insert p (sys_pages k), page_data := (page_data k)(p := map stack [0..<page_bytes])\<rparr>
            in case update_entry i (\<lambda>_. shared_page p) (memory k) of
                 None \<Rightarrow> None
               | Some mp \<Rightarrow> retrieve_loop es is stack (k\<lparr>memory := mp\<rparr>))"

definition request_message :: "u8 list" where
  "request_message = literal ''retrieve_pages'' @ replicate 86 0"

definition request_frame :: "(nat \<Rightarrow> u8) \<Rightarrow> nat \<Rightarrow> u8" where
  "request_frame stack i = (if i < 100 then request_message ! i else stack i)"

definition nmsg_retrieve_pages ::
  "int \<Rightarrow> (nat \<Rightarrow> u8) \<Rightarrow> recv_env list \<Rightarrow> int \<Rightarrow> udp_state \<Rightarrow> (int \<times> udp_state) option" where
  "nmsg_retrieve_pages sendmsg stack es num_pages k =
    (case nmsg_send_message sendmsg request_message k of
       None \<Rightarrow> None
     | Some (r, k) \<Rightarrow>
         if r < 0 then Some (- 1, k)
         else retrieve_loop es [0..<nat num_pages] (request_frame stack) k)"

definition nmsg_destroy_client :: "udp_state \<Rightarrow> udp_state option" where
  "nmsg_destroy_client k = sock_release (cl_sock k) k"

section \<open>The server\<close>

text \<open>\<open>strcpy\<close> reads the buffer up to its first zero byte and writes the first page of the table.\<close>

definition nmsg_process_message :: "u8 list \<Rightarrow> udp_state \<Rightarrow> udp_state option" where
  "nmsg_process_message message k =
    (if 0 \<notin> set message then None
     else case memory k of
       Mem_at m \<Rightarrow>
         (case m_pages m of
            [] \<Rightarrow> None
          | entry # _ \<Rightarrow>
         case pg_page entry of
            None \<Rightarrow> None
          | Some p \<Rightarrow>
         let s = cstr message @ [0]
         in if length s > page_bytes then None
            else map_option (\<lambda>mp. k\<lparr>page_data := (page_data k)(p := s @ drop (length s) (page_data k p)), memory := mp\<rparr>)
              (update_entry 0 (\<lambda>pe. pe\<lparr>pg_state := SHARED\<rparr>) (memory k)))
     | _ \<Rightarrow> None)"

text \<open>
  One turn of the serving loop: the two answers of \<open>kthread_should_stop\<close>, what other threads do until
  \<open>kernel_recvmsg\<close> returns, its result and what it does to the bytes of the buffer.
\<close>

record serve_event =
  se_stop :: bool
  se_other :: "udp_state \<Rightarrow> udp_state option"
  se_len :: int
  se_fill :: "u8 list \<Rightarrow> u8 list"
  se_stopped :: bool

text \<open>A turn goes on to the next one (\<open>Inr\<close>) or leaves the loop (\<open>Inl\<close>).\<close>

definition serve_turn :: "serve_event \<Rightarrow> udp_state \<Rightarrow> (udp_state + udp_state) option" where
  "serve_turn e k =
    (if se_stop e then Some (Inl k)
     else case se_other e k of
       None \<Rightarrow> None
     | Some k \<Rightarrow>
     (case (sv_sock k, sv_buf k) of
       (Some s, Some b) \<Rightarrow>
         if s \<notin> socks k then None
         else (case bufs k b of
           None \<Rightarrow> None
         | Some bytes \<Rightarrow>
             let bytes = se_fill e bytes; k = k\<lparr>bufs := (bufs k)(b \<mapsto> bytes)\<rparr>
             in if se_stopped e then Some (Inl k)
                else if se_len e < 0 then Some (Inl k)
                else map_option Inr (nmsg_process_message bytes k))
     | _ \<Rightarrow> None))"

fun serve_loop :: "serve_event list \<Rightarrow> udp_state \<Rightarrow> udp_state option" where
  "serve_loop [] k = None"
| "serve_loop (e # es) k =
    (case serve_turn e k of None \<Rightarrow> None | Some (Inl k) \<Rightarrow> Some k | Some (Inr k) \<Rightarrow> serve_loop es k)"

text \<open>The results of \<open>sock_create\<close>, \<open>in4_pton\<close>, \<open>bind\<close> and \<open>kmalloc\<close>, whose memory has any content.\<close>

record server_env =
  sv_created :: "int \<times> nat"
  sv_pton :: "u8 list \<Rightarrow> u32"
  sv_bind :: int
  sv_kmalloc :: "(nat \<times> u8 list) option"

definition server_socket :: "server_env \<Rightarrow> nat \<Rightarrow> udp_state \<Rightarrow> udp_state" where
  "server_socket e s k = k\<lparr>socks := insert s (socks k), sv_sock := Some s,
     sv_sin := \<lparr>sin_family = AF_INET, sin_port = htons (sv_port k), sin_addr = sv_pton e (cstr (sv_ip k))\<rparr>\<rparr>"

definition nmsg_init_server :: "server_env \<Rightarrow> serve_event list \<Rightarrow> udp_state \<Rightarrow> (int \<times> udp_state) option" where
  "nmsg_init_server e events k =
    (let (err, s) = sv_created e
     in if err < 0 then Some (err, k)
        else let k = server_socket e s k;
                 err = sv_bind e;
                 err_out = (\<lambda>k. map_option (\<lambda>k. (err, k)) (sock_release (sv_sock k) k))
             in if err < 0 then err_out k
                else case sv_kmalloc e of
                  None \<Rightarrow> err_out (k\<lparr>sv_buf := None\<rparr>)
                | Some (b, bytes) \<Rightarrow>
                    (case serve_loop events (k\<lparr>sv_buf := Some b, bufs := (bufs k)(b \<mapsto> bytes)\<rparr>) of
                       None \<Rightarrow> None
                     | Some k \<Rightarrow> (case kfree (sv_buf k) k of None \<Rightarrow> None | Some k \<Rightarrow> err_out k)))"

text \<open>\<open>created\<close> is the result of \<open>kthread_create\<close>; an address longer than the array of 100 bytes is written past it.\<close>

definition nmsg_start_server :: "int + nat \<Rightarrow> u8 list \<Rightarrow> int \<Rightarrow> udp_state \<Rightarrow> (int \<times> udp_state) option" where
  "nmsg_start_server created ip_address port_number k =
    (let ip = cstr ip_address
     in if length ip > length (sv_ip k) then None
        else let k = k\<lparr>sv_ip := ip @ drop (length ip) (sv_ip k), sv_port := port_number\<rparr>
             in case created of
                  Inl err \<Rightarrow> Some (err, k\<lparr>sv_thread := Thread_err err\<rparr>)
                | Inr t \<Rightarrow> Some (0, k\<lparr>sv_thread := Thread t, threads := insert t (threads k)\<rparr>))"

text \<open>\<open>send_sig\<close> needs a thread that exists; what the signal does is up to the thread.\<close>

definition nmsg_stop_server :: "udp_state \<Rightarrow> udp_state option" where
  "nmsg_stop_server k =
    (if (case sv_thread k of Thread_null \<Rightarrow> True | Thread t \<Rightarrow> t \<in> threads k | Thread_err err \<Rightarrow> False)
     then (case kfree (sv_buf k) k of None \<Rightarrow> None | Some k \<Rightarrow> sock_release (sv_sock k) k)
     else None)"

end
