(* ===== verification/Nmsg_Server.thy ===== *)
theory Nmsg_Server
  imports Nmsg
begin

text \<open>
  The server side of the UDP transport: what ends up in the first page of the table, that the thread gives
  back what it takes, and that \<open>nmsg_stop_server\<close> can never be used without a second release.
\<close>

section \<open>Strings\<close>

lemma cstr_idem [simp]: "cstr (cstr bs @ 0 # rest) = cstr bs"
proof -
  have "\<forall>b \<in> set (takeWhile (\<lambda>b. b \<noteq> 0) bs). b \<noteq> 0" by (auto dest: set_takeWhileD)
  then show ?thesis by (simp add: cstr_def takeWhile_append2)
qed

lemma cstr_append: "0 \<notin> set m \<Longrightarrow> cstr (m @ r) = m @ cstr r"
  by (induction m) (auto simp: cstr_def)

lemma cstr_id: "0 \<notin> set m \<Longrightarrow> cstr m = m"
  using cstr_append [of m "[]"] by (simp add: cstr_def)

lemma cstr_zeros [simp]: "cstr (replicate n 0) = []"
  by (cases n) (simp_all add: cstr_def)

lemma length_cstr: "0 \<in> set bs \<Longrightarrow> length (cstr bs) < length bs"
  unfolding cstr_def by (induction bs) auto

lemma cstr_no_zero: "0 \<notin> set (cstr bs)"
  by (auto simp: cstr_def dest: set_takeWhileD)

section \<open>One message\<close>

text \<open>Receiving \<open>m\<close> overwrites the first bytes of the buffer; nothing terminates the string.\<close>

definition put :: "u8 list \<Rightarrow> u8 list \<Rightarrow> u8 list" where
  "put m bytes = m @ drop (length m) bytes"

lemma length_put [simp]: "length m \<le> length bytes \<Longrightarrow> length (put m bytes) = length bytes"
  by (simp add: put_def)

lemma cstr_put: "0 \<notin> set m \<Longrightarrow> cstr (put m bytes) = m @ cstr (drop (length m) bytes)"
  by (simp add: put_def cstr_append)

text \<open>A zero byte behind the first 1024 bytes survives every message.\<close>

definition terminated :: "u8 list \<Rightarrow> bool" where
  "terminated bytes = (length bytes = page_bytes \<and> 0 \<in> set (drop 1024 bytes))"

lemma terminated_put: "terminated bytes \<Longrightarrow> length m \<le> 1024 \<Longrightarrow> terminated (put m bytes)"
  by (auto simp: terminated_def put_def)

lemma terminated_zero: "terminated bytes \<Longrightarrow> 0 \<in> set bytes"
  by (auto simp: terminated_def dest: in_set_dropD)

lemma process_message_ok:
  assumes "terminated bytes" and "memory k = Mem_at mt" and "m_pages mt = entry # rest" and "pg_page entry = Some p"
  shows "nmsg_process_message bytes k =
    Some (k\<lparr>page_data := (page_data k)(p := cstr bytes @ 0 # drop (length (cstr bytes) + 1) (page_data k p)),
      memory := Mem_at (mt\<lparr>m_pages := entry\<lparr>pg_state := SHARED\<rparr> # rest\<rparr>)\<rparr>)"
proof -
  have "0 \<in> set bytes" using assms(1) by (rule terminated_zero)
  moreover have "Suc (length (cstr bytes)) \<le> page_bytes"
    using length_cstr [OF \<open>0 \<in> set bytes\<close>] assms(1) by (simp add: terminated_def)
  ultimately show ?thesis using assms by (simp add: nmsg_process_message_def update_entry_def Let_def)
qed

section \<open>The serving loop\<close>

definition receives :: "serve_event \<Rightarrow> u8 list \<Rightarrow> bool" where
  "receives e m \<longleftrightarrow> \<not> se_stop e \<and> se_other e = Some \<and> 0 \<le> se_len e \<and> se_fill e = put m \<and> \<not> se_stopped e"

definition message_ok :: "u8 list \<Rightarrow> bool" where
  "message_ok m \<longleftrightarrow> 0 \<notin> set m \<and> length m \<le> 1024"

text \<open>The objects of the kernel and the fields of the server that the loop must keep.\<close>

definition same_server :: "udp_state \<Rightarrow> udp_state \<Rightarrow> bool" where
  "same_server k k' \<longleftrightarrow> socks k' = socks k \<and> sv_sock k' = sv_sock k \<and> sv_buf k' = sv_buf k \<and>
     (\<forall>b. Some b \<noteq> sv_buf k \<longrightarrow> bufs k' b = bufs k b) \<and> dom (bufs k') = dom (bufs k) \<and>
     sys_pages k' = sys_pages k \<and> threads k' = threads k \<and> sv_thread k' = sv_thread k"

lemma same_server_refl [simp]: "same_server k k"
  by (simp add: same_server_def)

lemma same_server_trans: "same_server k k' \<Longrightarrow> same_server k' k'' \<Longrightarrow> same_server k k''"
  by (simp add: same_server_def)

lemma process_message_same: "nmsg_process_message bytes k = Some k' \<Longrightarrow> same_server k k'"
  by (auto simp: nmsg_process_message_def same_server_def Let_def
      split: if_splits memory_ptr.splits list.splits option.splits)

lemma fill_same:
  "sv_buf k = Some b \<Longrightarrow> bufs k b = Some old \<Longrightarrow> same_server k (k\<lparr>bufs := (bufs k)(b \<mapsto> bytes)\<rparr>)"
  by (auto simp: same_server_def)

lemma serve_turn_same:
  assumes "serve_turn e k = Some r" and "se_other e = Some"
  shows "\<exists>k'. same_server k k' \<and> (r = Inl k' \<or> r = Inr k')"
proof (cases "se_stop e")
  case True
  with assms(1) have "r = Inl k" by (simp add: serve_turn_def)
  then show ?thesis by auto
next
  case False
  with assms obtain s b old where k: "sv_sock k = Some s" "sv_buf k = Some b" "s \<in> socks k" "bufs k b = Some old"
    by (auto simp: serve_turn_def split: option.splits if_splits)
  let ?k = "k\<lparr>bufs := (bufs k)(b \<mapsto> se_fill e old)\<rparr>"
  have same: "same_server k ?k" using k by (simp add: fill_same)
  consider "r = Inl ?k" | k1 where "nmsg_process_message (se_fill e old) ?k = Some k1" "r = Inr k1"
    using assms False k by (auto simp: serve_turn_def Let_def split: if_splits)
  then show ?thesis
    by cases (use same process_message_same same_server_trans in blast)+
qed

lemma serve_loop_same:
  assumes "serve_loop es k = Some k'" and "\<forall>e \<in> set es. se_other e = Some"
  shows "same_server k k'"
  using assms
proof (induction es arbitrary: k)
  case (Cons e es)
  then obtain r where r: "serve_turn e k = Some r" by (auto split: option.splits)
  obtain k1 where k1: "same_server k k1" "r = Inl k1 \<or> r = Inr k1"
    using serve_turn_same [OF r] Cons.prems(2) by auto
  show ?case
  proof (cases r)
    case (Inl k2)
    with Cons.prems(1) r k1 show ?thesis by simp
  next
    case (Inr k2)
    then have "same_server k1 k'" using Cons.IH [of k1] Cons.prems r k1 by simp
    with k1(1) show ?thesis by (rule same_server_trans)
  qed
qed simp

text \<open>What the loop leaves behind when it receives the messages \<open>ms\<close> and is then asked to stop.\<close>

lemma serve_loop_messages:
  assumes "list_all2 receives es ms" and "se_stop z" and "\<forall>m \<in> set ms. message_ok m" and "ms \<noteq> []"
    and "sv_sock k = Some s" and "s \<in> socks k" and "sv_buf k = Some b" and "bufs k b = Some bytes" and "terminated bytes"
    and "memory k = Mem_at mt" and "m_pages mt = entry # rest" and "pg_page entry = Some p"
  shows "\<exists>k' r. serve_loop (es @ [z]) k = Some k' \<and> bufs k' b = Some (fold put ms bytes)
    \<and> memory k' = Mem_at (mt\<lparr>m_pages := entry\<lparr>pg_state := SHARED\<rparr> # rest\<rparr>)
    \<and> page_data k' p = cstr (fold put ms bytes) @ 0 # r \<and> (\<forall>q. q \<noteq> p \<longrightarrow> page_data k' q = page_data k q)"
  using assms
proof (induction es ms arbitrary: k bytes entry mt rule: list_all2_induct)
  case (Cons e es m ms)
  let ?bytes = "put m bytes" and ?entry = "entry\<lparr>pg_state := SHARED\<rparr>"
  let ?mt = "mt\<lparr>m_pages := ?entry # rest\<rparr>" and ?fed = "k\<lparr>bufs := (bufs k)(b \<mapsto> ?bytes)\<rparr>"
  have t: "terminated ?bytes" using Cons.prems(2,8) by (simp add: terminated_put message_ok_def)
  let ?k = "?fed\<lparr>page_data := (page_data k)(p := cstr ?bytes @ 0 # drop (length (cstr ?bytes) + 1) (page_data k p)), memory := Mem_at ?mt\<rparr>"
  have step: "nmsg_process_message ?bytes ?fed = Some ?k"
    using process_message_ok [OF t, of ?fed mt entry rest p] Cons.prems(9-11) by simp
  then have loop: "serve_loop (e # es @ [z]) k = serve_loop (es @ [z]) ?k"
    using Cons.hyps(1) Cons.prems by (simp add: receives_def serve_turn_def Let_def)
  show ?case
  proof (cases "ms = []")
    case True
    then have "es = []" using Cons.hyps(2) by simp
    with loop True Cons.prems(1) show ?thesis by (auto simp: serve_turn_def)
  next
    case False
    have "\<exists>k' r. serve_loop (es @ [z]) ?k = Some k' \<and> bufs k' b = Some (fold put ms ?bytes)
      \<and> memory k' = Mem_at (?mt\<lparr>m_pages := ?entry\<lparr>pg_state := SHARED\<rparr> # rest\<rparr>)
      \<and> page_data k' p = cstr (fold put ms ?bytes) @ 0 # r \<and> (\<forall>q. q \<noteq> p \<longrightarrow> page_data k' q = page_data ?k q)"
      by (rule Cons.IH) (use Cons.prems False t in simp_all)
    with loop show ?thesis by auto
  qed
qed simp

section \<open>A small run\<close>

text \<open>A kernel in which nothing is open, with a table of one page, frame 9, and a run that meets no error.\<close>

definition idle_udp :: udp_state where
  "idle_udp = \<lparr>devs = (\<lambda>_. \<lparr>zone_device_type = 0, devmem_capacity = 0, devmem_count = 0, devmem_chunks = None,
       calloc = 0, cfree = 0, free_pages = NULL\<rparr>),
     chunks = Map.empty, zone_device_data = (\<lambda>_. NULL), pgmap = Map.empty,
     page_data = (\<lambda>_. []), sys_pages = {9}, regions = {},
     memory = Mem_at \<lparr>m_pages = [\<lparr>pg_state = INVALID, pg_page = Some 9\<rparr>], m_size = 1\<rparr>,
     socks = {}, bufs = Map.empty, threads = {}, sent = [],
     cl_sock = None, cl_dest = \<lparr>sin_family = 0, sin_port = 0, sin_addr = 0\<rparr>, cl_vec = [],
     sv_sock = None, sv_sin = \<lparr>sin_family = 0, sin_port = 0, sin_addr = 0\<rparr>, sv_buf = None,
     sv_ip = replicate 100 0, sv_port = 0, sv_thread = Thread_null\<rparr>"

definition small_env :: server_env where
  "small_env = \<lparr>sv_created = (0, 3), sv_pton = (\<lambda>_. 0), sv_bind = 0, sv_kmalloc = Some (5, replicate page_bytes 0)\<rparr>"

definition message_event :: "u8 list \<Rightarrow> serve_event" where
  "message_event m = \<lparr>se_stop = False, se_other = Some, se_len = int (length m), se_fill = put m, se_stopped = False\<rparr>"

definition stop_event :: serve_event where
  "stop_event = \<lparr>se_stop = True, se_other = Some, se_len = 0, se_fill = (\<lambda>bs. bs), se_stopped = True\<rparr>"

lemma small_run [simp]:
  "sv_created small_env = (0, 3)" "sv_bind small_env = 0" "sv_kmalloc small_env = Some (5, replicate page_bytes 0)"
  "receives (message_event m) m" "se_other (message_event m) = Some" "se_stop stop_event" "se_other stop_event = Some"
  "socks idle_udp = {}" "bufs idle_udp = Map.empty" "sv_sock idle_udp = None" "sv_ip idle_udp = replicate 100 0"
  "memory idle_udp = Mem_at \<lparr>m_pages = [\<lparr>pg_state = INVALID, pg_page = Some 9\<rparr>], m_size = 1\<rparr>"
  "terminated (replicate page_bytes 0)"
  by (simp_all add: small_env_def message_event_def receives_def stop_event_def idle_udp_def terminated_def)

section \<open>The thread\<close>

text \<open>The state when the loop starts, and the release at its end.\<close>

definition serving :: "server_env \<Rightarrow> nat \<Rightarrow> nat \<Rightarrow> u8 list \<Rightarrow> udp_state \<Rightarrow> udp_state" where
  "serving e s b bytes k =
    (let k = server_socket e s k in k\<lparr>sv_buf := Some b, bufs := (bufs k)(b \<mapsto> bytes)\<rparr>)"

lemma serving_simps [simp]:
  "socks (serving e s b bytes k) = insert s (socks k)" "sv_sock (serving e s b bytes k) = Some s"
  "sv_buf (serving e s b bytes k) = Some b" "bufs (serving e s b bytes k) = (bufs k)(b \<mapsto> bytes)"
  "memory (serving e s b bytes k) = memory k" "page_data (serving e s b bytes k) = page_data k"
  "sys_pages (serving e s b bytes k) = sys_pages k" "sv_thread (serving e s b bytes k) = sv_thread k"
  "threads (serving e s b bytes k) = threads k"
  by (simp_all add: serving_def server_socket_def Let_def)

lemma nmsg_init_server_run:
  assumes "sv_created e = (c, s)" and "0 \<le> c" and "0 \<le> sv_bind e" and "sv_kmalloc e = Some (b, bytes)"
    and "serve_loop events (serving e s b bytes k) = Some k'" and "\<forall>ev \<in> set events. se_other ev = Some"
    and "s \<notin> socks k" and "bufs k b = None"
  shows "nmsg_init_server e events k = Some (sv_bind e, k'\<lparr>bufs := bufs k, socks := socks k\<rparr>)"
proof -
  have same: "same_server (serving e s b bytes k) k'" using assms(5,6) by (rule serve_loop_same)
  have "(bufs k')(b := None) = bufs k"
    using same assms(8) by (auto simp: same_server_def fun_eq_iff)
  moreover have "bufs k' b \<noteq> None" using same by (auto simp: same_server_def)
  moreover have "socks k' = insert s (socks k)" "sv_sock k' = Some s" "sv_buf k' = Some b"
    using same by (simp_all add: same_server_def)
  ultimately show ?thesis
    using assms by (simp add: nmsg_init_server_def serving_def kfree_def sock_release_def Let_def server_socket_def)
qed



text \<open>
  Whatever the calls answer and however the loop ends, a server thread that returns and was
  not interfered with has given back its socket and its buffer. It returns the error of \<open>sock_create\<close>, otherwise
  the result of \<open>bind\<close>: also when the buffer could not be allocated or a message could not be received.
\<close>

theorem server_balanced:
  assumes "nmsg_init_server e events k = Some (r, k')" and "\<forall>ev \<in> set events. se_other ev = Some"
    and "snd (sv_created e) \<notin> socks k" and "\<forall>b bytes. sv_kmalloc e = Some (b, bytes) \<longrightarrow> bufs k b = None"
  shows "socks k' = socks k \<and> bufs k' = bufs k
    \<and> r = (if fst (sv_created e) < 0 then fst (sv_created e) else sv_bind e)"
proof -
  obtain c s where c: "sv_created e = (c, s)" by (metis surj_pair)
  show ?thesis
  proof (cases "c < 0 \<or> sv_bind e < 0 \<or> sv_kmalloc e = None")
    case True
    with assms c show ?thesis
      by (auto simp: nmsg_init_server_def server_socket_def sock_release_def Let_def split: if_splits)
  next
    case False
    then obtain b bytes where b: "sv_kmalloc e = Some (b, bytes)" by auto
    with assms(1) False c obtain k1 where k1: "serve_loop events (serving e s b bytes k) = Some k1"
      by (auto simp: nmsg_init_server_def serving_def Let_def split: option.splits)
    show ?thesis
      using nmsg_init_server_run [OF c _ _ b k1 assms(2)] assms False c b by auto
  qed
qed

theorem server_balanced_witness:
  "\<exists>k'. nmsg_init_server small_env [stop_event] idle_udp = Some (0, k') \<and> socks k' = {} \<and> bufs k' = Map.empty"
proof -
  obtain k' where "nmsg_init_server small_env [stop_event] idle_udp = Some (0, k')"
    by (simp add: nmsg_init_server_def serve_turn_def server_socket_def kfree_def sock_release_def)
  then show ?thesis using server_balanced [of small_env "[stop_event]" idle_udp 0 k'] by simp
qed

section \<open>A message that is shorter than the one before\<close>

text \<open>
  The client sends a message without its zero byte and the server does not add one. After a
  longer message \<open>m\<close> a shorter one, \<open>n\<close>, arrives with the rest of \<open>m\<close> appended; only a message that is at
  least as long as the one before is stored as it was sent.
\<close>

theorem server_stale_tail:
  assumes "sv_created e = (0, s)" and "s \<notin> socks k" and "sv_bind e = 0"
    and "sv_kmalloc e = Some (b, replicate page_bytes 0)" and "bufs k b = None"
    and "receives ev1 m" and "receives ev2 n" and "message_ok m" and "message_ok n" and "se_stop z" and "se_other z = Some"
    and "memory k = Mem_at mt" and "m_pages mt = entry # rest" and "pg_page entry = Some p"
  shows "\<exists>k'. nmsg_init_server e [ev1, ev2, z] k = Some (0, k') \<and> cstr (page_data k' p) = n @ drop (length n) m
    \<and> (cstr (page_data k' p) = n \<longleftrightarrow> length m \<le> length n)"
proof -
  let ?zero = "replicate page_bytes 0 :: u8 list"
  have t: "terminated ?zero" by (simp add: terminated_def)
  have "0 \<notin> set m" "0 \<notin> set n" "0 \<notin> set (drop (length n) m)"
    using assms(8,9) by (auto simp: message_ok_def dest: in_set_dropD)
  then have fold: "cstr (fold put [m, n] ?zero) = n @ drop (length n) m"
    by (simp add: cstr_put) (simp add: put_def cstr_append)
  let ?k = "serving e s b ?zero k"
  have "\<exists>k' r. serve_loop ([ev1, ev2] @ [z]) ?k = Some k' \<and> bufs k' b = Some (fold put [m, n] ?zero)
    \<and> memory k' = Mem_at (mt\<lparr>m_pages := entry\<lparr>pg_state := SHARED\<rparr> # rest\<rparr>)
    \<and> page_data k' p = cstr (fold put [m, n] ?zero) @ 0 # r \<and> (\<forall>q. q \<noteq> p \<longrightarrow> page_data k' q = page_data ?k q)"
    by (rule serve_loop_messages [where s = s]) (use assms t in simp_all)
  then obtain k' r where k': "serve_loop [ev1, ev2, z] ?k = Some k'"
    and page: "page_data k' p = cstr (fold put [m, n] ?zero) @ 0 # r"
    by (metis append_Cons append_Nil)
  have "cstr (page_data k' p) = n @ drop (length n) m"
    unfolding page cstr_idem by (rule fold)
  moreover have "nmsg_init_server e [ev1, ev2, z] k = Some (0, k'\<lparr>bufs := bufs k, socks := socks k\<rparr>)"
    using nmsg_init_server_run [OF assms(1) _ _ assms(4) k' _ assms(2,5)] assms(3,6,7,11) by (simp add: receives_def)
  ultimately show ?thesis by simp
qed

theorem server_stale_tail_witness:
  "\<exists>k'. nmsg_init_server small_env [message_event [104, 101, 108, 108, 111], message_event [98, 121], stop_event] idle_udp
    = Some (0, k') \<and> cstr (page_data k' 9) = [98, 121, 108, 108, 111]"
  using server_stale_tail [of small_env 3 idle_udp 5 "message_event [104, 101, 108, 108, 111]" "[104, 101, 108, 108, 111]"
      "message_event [98, 121]" "[98, 121]" stop_event "\<lparr>m_pages = [\<lparr>pg_state = INVALID, pg_page = Some 9\<rparr>], m_size = 1\<rparr>"
      "\<lparr>pg_state = INVALID, pg_page = Some 9\<rparr>" "[]" 9]
  by (auto simp: message_ok_def)

section \<open>Stopping the server\<close>

definition stops_here :: "serve_event \<Rightarrow> bool" where
  "stops_here ev \<longleftrightarrow> \<not> se_stop ev \<and> se_other ev = nmsg_stop_server"

lemma stop_releases: "nmsg_stop_server k = Some k' \<Longrightarrow> \<forall>b. sv_buf k' = Some b \<longrightarrow> bufs k' b = None"
  by (auto simp: nmsg_stop_server_def kfree_def sock_release_def split: if_splits option.splits)

lemma serve_loop_stopped: "stops_here ev \<Longrightarrow> serve_loop (ev # evs) k = None"
  using stop_releases [of k] by (auto simp: stops_here_def serve_turn_def split: option.splits)

lemma serve_loop_append_none:
  "serve_loop xs k = None \<Longrightarrow> \<forall>k. serve_loop ys k = None \<Longrightarrow> serve_loop (xs @ ys) k = None"
proof (induction xs arbitrary: k)
  case (Cons e xs)
  then show ?case by (auto split: option.splits sum.splits)
qed simp

text \<open>
  C36. No moment is right for \<open>nmsg_stop_server\<close>. Before the thread has made its socket it releases a
  null socket; while the thread waits for a message, whatever was received before, it frees the buffer the
  thread is receiving into; after the thread has returned it frees the buffer, or releases the socket, a
  second time. When the thread could not be created it signals an error pointer.
\<close>

theorem nmsg_stop_server_unsafe:
  fixes k :: udp_state
  assumes "\<forall>ev \<in> set before. se_other ev = Some" and "snd (sv_created e) \<notin> socks k"
    and "\<forall>b bytes. sv_kmalloc e = Some (b, bytes) \<longrightarrow> bufs k b = None"
  shows "(sv_sock k = None \<longrightarrow> nmsg_stop_server k = None)
    \<and> (stops_here ev \<and> serve_loop before k = None \<longrightarrow> serve_loop (before @ ev # evs) k = None)
    \<and> (nmsg_init_server e before k = Some (r, k') \<and> 0 \<le> fst (sv_created e) \<longrightarrow> nmsg_stop_server k' = None)
    \<and> (sv_thread k = Thread_err err \<longrightarrow> nmsg_stop_server k = None)"
proof (intro conjI impI)
  show "nmsg_stop_server k = None" if "sv_sock k = None"
    using that by (auto simp: nmsg_stop_server_def kfree_def sock_release_def split: option.splits)
  show "nmsg_stop_server k = None" if "sv_thread k = Thread_err err"
    using that by (simp add: nmsg_stop_server_def)
  show "serve_loop (before @ ev # evs) k = None" if "stops_here ev \<and> serve_loop before k = None"
    using that by (blast intro: serve_loop_append_none serve_loop_stopped)
  assume run: "nmsg_init_server e before k = Some (r, k') \<and> 0 \<le> fst (sv_created e)"
  obtain c s where c: "sv_created e = (c, s)" by (metis surj_pair)
  show "nmsg_stop_server k' = None"
  proof (cases "sv_bind e < 0 \<or> sv_kmalloc e = None")
    case True
    with run c assms(2) have "sv_sock k' = Some s" "s \<notin> socks k'"
      by (auto simp: nmsg_init_server_def server_socket_def sock_release_def Let_def split: if_splits)
    then show ?thesis
      by (auto simp: nmsg_stop_server_def kfree_def sock_release_def split: option.splits)
  next
    case False
    then obtain b bytes where b: "sv_kmalloc e = Some (b, bytes)" by auto
    with run False c obtain k1 where k1: "serve_loop before (serving e s b bytes k) = Some k1"
      by (auto simp: nmsg_init_server_def serving_def Let_def split: option.splits)
    have "k' = k1\<lparr>bufs := bufs k, socks := socks k\<rparr>"
      using nmsg_init_server_run [OF c _ _ b k1 assms(1)] run assms False c b by auto
    moreover have "sv_buf k1 = Some b" using serve_loop_same [OF k1 assms(1)] by (simp add: same_server_def)
    ultimately show ?thesis using assms(3) b by (simp add: nmsg_stop_server_def kfree_def)
  qed
qed

theorem nmsg_stop_server_unsafe_witness:
  "nmsg_stop_server idle_udp = None \<and>
   (\<exists>k'. nmsg_init_server small_env [message_event [104, 105], stop_event] idle_udp = Some (0, k') \<and> nmsg_stop_server k' = None)"
proof -
  let ?evs = "[message_event [104, 105], stop_event]" and ?zero = "replicate page_bytes 0"
  have "\<exists>k1 r. serve_loop ([message_event [104, 105]] @ [stop_event]) (serving small_env 3 5 ?zero idle_udp) = Some k1
    \<and> bufs k1 5 = Some (fold put [[104, 105]] ?zero)
    \<and> memory k1 = Mem_at (\<lparr>m_pages = [\<lparr>pg_state = INVALID, pg_page = Some 9\<rparr>], m_size = 1\<rparr>
        \<lparr>m_pages := \<lparr>pg_state = INVALID, pg_page = Some 9\<rparr>\<lparr>pg_state := SHARED\<rparr> # []\<rparr>)
    \<and> page_data k1 9 = cstr (fold put [[104, 105]] ?zero) @ 0 # r
    \<and> (\<forall>q. q \<noteq> 9 \<longrightarrow> page_data k1 q = page_data (serving small_env 3 5 ?zero idle_udp) q)"
    by (rule serve_loop_messages [where s = 3]) (simp_all add: message_ok_def)
  then obtain k1 where "serve_loop ?evs (serving small_env 3 5 ?zero idle_udp) = Some k1" by auto
  then obtain k' where "nmsg_init_server small_env ?evs idle_udp = Some (0, k')"
    using nmsg_init_server_run [of small_env 0 3 5 ?zero ?evs idle_udp k1] by auto
  then show ?thesis
    using nmsg_stop_server_unsafe [of ?evs small_env idle_udp stop_event "[]" 0 k' 0] by simp
qed

text \<open>
  \<open>nmsg_start_server\<close> copies the address without its zero byte. An address that starts the
  server for the second time keeps the end of the longer address used before; one of more than 100 bytes is
  written past the array.
\<close>

theorem start_server_keeps_tail:
  assumes "sv_ip k = replicate 100 0" and "0 \<notin> set ip" and "0 \<notin> set ip'" and "length ip \<le> 100"
  shows "\<exists>k1. nmsg_start_server (Inr t) ip port k = Some (0, k1) \<and> cstr (sv_ip k1) = ip
    \<and> (if 100 < length ip' then nmsg_start_server (Inr u) ip' port' k1 = None
       else \<exists>k2. nmsg_start_server (Inr u) ip' port' k1 = Some (0, k2)
         \<and> cstr (sv_ip k2) = ip' @ drop (length ip') ip)"
proof -
  have "0 \<notin> set (drop (length ip') ip)" using assms(2) by (auto dest: in_set_dropD)
  then show ?thesis using assms by (auto simp: nmsg_start_server_def Let_def cstr_id cstr_append)
qed

theorem start_server_keeps_tail_witness:
  "\<exists>k1. nmsg_start_server (Inr 1) [49, 50, 51] 80 idle_udp = Some (0, k1) \<and>
    (\<exists>k2. nmsg_start_server (Inr 2) [52] 80 k1 = Some (0, k2) \<and> cstr (sv_ip k2) = [52, 50, 51])"
  using start_server_keeps_tail [of idle_udp "[49, 50, 51]" "[52]" 1 80 2 80] by auto

end
