(* ===== verification/Nmsg_Client.thy ===== *)
theory Nmsg_Client
  imports Nmsg_Server
begin

text \<open>
  The client side of the UDP transport: sessions and their datagrams, what \<open>nmsg_retrieve_pages\<close> stores in the
  table of pages, and where it runs past the table.
\<close>

declare upt_rec_numeral [simp del]

section \<open>The receiving loop\<close>

definition delivers :: "recv_env \<Rightarrow> page \<Rightarrow> bool" where
  "delivers e p \<longleftrightarrow> 0 \<le> rc_len e \<and> rc_page e = Some p"

text \<open>The state after the pages \<open>ps\<close> have been stored from entry \<open>a\<close> on.\<close>

definition page_stored :: "nat \<Rightarrow> page \<Rightarrow> (nat \<Rightarrow> u8) \<Rightarrow> memory_t \<Rightarrow> udp_state \<Rightarrow> udp_state" where
  "page_stored a p stack mt k = k\<lparr>sys_pages := insert p (sys_pages k),
     page_data := (page_data k)(p := map stack [0..<page_bytes]),
     memory := Mem_at (mt\<lparr>m_pages := (m_pages mt)[a := shared_page p]\<rparr>)\<rparr>"

lemma retrieve_step:
  assumes "delivers e p" and "memory k = Mem_at mt" and "a < length (m_pages mt)"
  shows "retrieve_loop (e # es) (a # as) stack k
    = retrieve_loop es as (rc_fill e stack) (page_stored a p (rc_fill e stack) mt k)"
  using assms by (simp add: delivers_def update_entry_def page_stored_def Let_def)

lemma retrieve_loop_stores:
  assumes "list_all2 delivers es ps" and "distinct ps" and "memory k = Mem_at mt" and "a + length ps \<le> length (m_pages mt)"
  shows "\<exists>k'. retrieve_loop es [a..<a + length ps] stack k = Some (0, k')
    \<and> memory k' = Mem_at (mt\<lparr>m_pages := take a (m_pages mt) @ map shared_page ps @ drop (a + length ps) (m_pages mt)\<rparr>)
    \<and> sys_pages k' = sys_pages k \<union> set ps \<and> sent k' = sent k
    \<and> (\<forall>j < length ps. page_data k' (ps ! j) = map (fold rc_fill (take (Suc j) es) stack) [0..<page_bytes])
    \<and> (\<forall>q. q \<notin> set ps \<longrightarrow> page_data k' q = page_data k q)"
  using assms
proof (induction es ps arbitrary: a stack k mt rule: list_all2_induct)
  case Nil
  then show ?case by simp
next
  case (Cons e es p ps)
  let ?s = "rc_fill e stack" and ?mt = "mt\<lparr>m_pages := (m_pages mt)[a := shared_page p]\<rparr>"
  let ?k = "page_stored a p ?s mt k"
  have a: "a < length (m_pages mt)" using Cons.prems(3) by simp
  have upt: "[a..<a + length (p # ps)] = a # [Suc a..<Suc a + length ps]" by (simp add: upt_rec)
  have step: "retrieve_loop (e # es) [a..<a + length (p # ps)] stack k
      = retrieve_loop es [Suc a..<Suc a + length ps] ?s ?k"
    unfolding upt by (rule retrieve_step [OF Cons.hyps(1) Cons.prems(2) a])
  have "\<exists>k'. retrieve_loop es [Suc a..<Suc a + length ps] ?s ?k = Some (0, k')
    \<and> memory k' = Mem_at (?mt\<lparr>m_pages := take (Suc a) (m_pages ?mt) @ map shared_page ps @ drop (Suc a + length ps) (m_pages ?mt)\<rparr>)
    \<and> sys_pages k' = sys_pages ?k \<union> set ps \<and> sent k' = sent ?k
    \<and> (\<forall>j < length ps. page_data k' (ps ! j) = map (fold rc_fill (take (Suc j) es) ?s) [0..<page_bytes])
    \<and> (\<forall>q. q \<notin> set ps \<longrightarrow> page_data k' q = page_data ?k q)"
    by (rule Cons.IH) (use Cons.prems in \<open>simp_all add: page_stored_def\<close>)
  then obtain k' where k': "retrieve_loop es [Suc a..<Suc a + length ps] ?s ?k = Some (0, k')"
    "memory k' = Mem_at (?mt\<lparr>m_pages := take (Suc a) (m_pages ?mt) @ map shared_page ps @ drop (Suc a + length ps) (m_pages ?mt)\<rparr>)"
    "sys_pages k' = sys_pages ?k \<union> set ps" "sent k' = sent ?k"
    "\<forall>j < length ps. page_data k' (ps ! j) = map (fold rc_fill (take (Suc j) es) ?s) [0..<page_bytes]"
    "\<forall>q. q \<notin> set ps \<longrightarrow> page_data k' q = page_data ?k q" by blast
  have "memory k' = Mem_at (mt\<lparr>m_pages := take a (m_pages mt) @ map shared_page (p # ps) @ drop (a + length (p # ps)) (m_pages mt)\<rparr>)"
    using k'(2) a by (simp add: take_Suc_conv_app_nth)
  moreover have "page_data k' ((p # ps) ! j) = map (fold rc_fill (take (Suc j) (e # es)) stack) [0..<page_bytes]"
    if "j < length (p # ps)" for j
  proof (cases j)
    case 0
    then show ?thesis using k'(6) Cons.prems(1) by (simp add: page_stored_def)
  next
    case (Suc i)
    then show ?thesis using k'(5) that by (simp)
  qed
  ultimately show ?case
    using k' step by (intro exI [of _ k']) (auto simp: page_stored_def)
qed

lemma retrieve_loop_overruns:
  assumes "\<forall>e \<in> set es. \<exists>p. delivers e p" and "memory k = Mem_at mt" and "length (m_pages mt) < n"
    and "a \<le> length (m_pages mt)"
  shows "retrieve_loop es [a..<n] stack k = None"
  using assms
proof (induction es arbitrary: a stack k mt)
  case Nil
  then show ?case by (simp add: upt_conv_Cons)
next
  case (Cons e es)
  then obtain p where p: "delivers e p" by auto
  have upt: "[a..<n] = a # [Suc a..<n]" using Cons.prems by (simp add: upt_conv_Cons)
  show ?case
  proof (cases "a < length (m_pages mt)")
    case True
    have "retrieve_loop es [Suc a..<n] (rc_fill e stack) (page_stored a p (rc_fill e stack) mt k) = None"
      by (rule Cons.IH [of _ "mt\<lparr>m_pages := (m_pages mt)[a := shared_page p]\<rparr>"])
        (use Cons.prems True in \<open>simp_all add: page_stored_def\<close>)
    then show ?thesis unfolding upt retrieve_step [OF p Cons.prems(2) True] .
  next
    case False
    then show ?thesis using p Cons.prems(2) unfolding upt by (simp add: delivers_def update_entry_def Let_def)
  qed
qed

lemma retrieve_pages_loop:
  assumes "cl_sock k = Some s" and "s \<in> socks k" and "0 \<le> sendmsg"
  shows "nmsg_retrieve_pages sendmsg stack es num_pages k =
    retrieve_loop es [0..<nat num_pages] (request_frame stack)
      (k\<lparr>cl_vec := literal ''retrieve_pages'', sent := sent k @ [(s, cl_dest k, literal ''retrieve_pages'')]\<rparr>)"
proof -
  have "cstr request_message = literal ''retrieve_pages''"
    by (simp add: request_message_def literal_def cstr_def of_char_def)
  then show ?thesis using assms by (simp add: nmsg_retrieve_pages_def nmsg_send_message_def)
qed

section \<open>Retrieving pages\<close>

text \<open>
  C27. When the request is sent and every receive and every allocation succeeds,
  \<open>nmsg_retrieve_pages\<close> returns 0: one datagram \<open>retrieve_pages\<close> has gone to the server, the first entries of
  the table are the new pages in state \<open>SHARED\<close>, each with the 4096 bytes found behind \<open>iov_base\<close> after its
  receive, and the rest of the table is unchanged. The pages the entries named before are still allocated.
\<close>

theorem retrieve_pages_stores:
  assumes "cl_sock k = Some s" and "s \<in> socks k" and "0 \<le> sendmsg" and "list_all2 delivers es ps" and "distinct ps"
    and "memory k = Mem_at mt" and "length ps \<le> length (m_pages mt)"
  shows "\<exists>k'. nmsg_retrieve_pages sendmsg stack es (int (length ps)) k = Some (0, k')
    \<and> sent k' = sent k @ [(s, cl_dest k, literal ''retrieve_pages'')]
    \<and> memory k' = Mem_at (mt\<lparr>m_pages := map shared_page ps @ drop (length ps) (m_pages mt)\<rparr>)
    \<and> (\<forall>j < length ps. page_data k' (ps ! j)
        = map (fold rc_fill (take (Suc j) es) (request_frame stack)) [0..<page_bytes])
    \<and> sys_pages k' = sys_pages k \<union> set ps"
proof -
  let ?k = "k\<lparr>cl_vec := literal ''retrieve_pages'', sent := sent k @ [(s, cl_dest k, literal ''retrieve_pages'')]\<rparr>"
  have "nmsg_retrieve_pages sendmsg stack es (int (length ps)) k
      = retrieve_loop es [0..<0 + length ps] (request_frame stack) ?k"
    using retrieve_pages_loop [OF assms(1-3), of stack es "int (length ps)"] by simp
  then show ?thesis
    using retrieve_loop_stores [OF assms(4,5), of ?k mt 0 "request_frame stack"] assms(6,7)
    by (auto)
qed

definition client_udp :: udp_state where
  "client_udp = idle_udp\<lparr>socks := {4}, cl_sock := Some 4\<rparr>"

definition received :: "page \<Rightarrow> recv_env" where
  "received p = \<lparr>rc_len = 4096, rc_fill = (\<lambda>mem i. of_nat i), rc_page = Some p\<rparr>"

lemma client_udp_simps [simp]:
  "cl_sock client_udp = Some 4" "socks client_udp = {4}" "sys_pages client_udp = {9}" "delivers (received p) p"
  "memory client_udp = Mem_at \<lparr>m_pages = [\<lparr>pg_state = INVALID, pg_page = Some 9\<rparr>], m_size = 1\<rparr>"
  by (simp_all add: client_udp_def delivers_def received_def idle_udp_def)

theorem retrieve_pages_stores_witness:
  "\<exists>k'. nmsg_retrieve_pages 0 (\<lambda>_. 0) [received 20] 1 client_udp = Some (0, k')
    \<and> memory k' = Mem_at \<lparr>m_pages = [shared_page 20], m_size = 1\<rparr> \<and> sys_pages k' = {9, 20}"
  using retrieve_pages_stores [of client_udp 4 0 "[received 20]" "[20]"
      "\<lparr>m_pages = [\<lparr>pg_state = INVALID, pg_page = Some 9\<rparr>], m_size = 1\<rparr>" "\<lambda>_. 0"]
  by (auto)

text \<open>
  The call passes no vector, so a receive has nowhere to put the data. If it leaves memory as
  it is, every page that \<open>nmsg_retrieve_pages\<close> stores holds the client's own request, followed by zeros and by
  3996 bytes of the kernel stack.
\<close>

theorem retrieve_pages_echo:
  assumes "cl_sock k = Some s" and "s \<in> socks k" and "0 \<le> sendmsg" and "list_all2 delivers es ps" and "distinct ps"
    and "memory k = Mem_at mt" and "length ps \<le> length (m_pages mt)" and "\<forall>e \<in> set es. rc_fill e = (\<lambda>mem. mem)"
  shows "\<exists>k'. nmsg_retrieve_pages sendmsg stack es (int (length ps)) k = Some (0, k')
    \<and> (\<forall>p \<in> set ps. page_data k' p = request_message @ map stack [100..<page_bytes]
        \<and> cstr (page_data k' p) = literal ''retrieve_pages'')"
proof -
  let ?k = "k\<lparr>cl_vec := literal ''retrieve_pages'', sent := sent k @ [(s, cl_dest k, literal ''retrieve_pages'')]\<rparr>"
  have run: "nmsg_retrieve_pages sendmsg stack es (int (length ps)) k
      = retrieve_loop es [0..<0 + length ps] (request_frame stack) ?k"
    using retrieve_pages_loop [OF assms(1-3), of stack es "int (length ps)"] by simp
  obtain k' where k': "retrieve_loop es [0..<0 + length ps] (request_frame stack) ?k = Some (0, k')"
    and page: "\<forall>j < length ps. page_data k' (ps ! j)
        = map (fold rc_fill (take (Suc j) es) (request_frame stack)) [0..<page_bytes]"
    using retrieve_loop_stores [OF assms(4,5), of ?k mt 0 "request_frame stack"] assms(6,7) by auto
  have same: "fold rc_fill es' mem = mem" if "\<forall>e \<in> set es'. rc_fill e = (\<lambda>mem. mem)" for es' mem
    using that by (induction es') simp_all
  have len: "length request_message = 100" by (simp add: request_message_def literal_def)
  have "[0..<page_bytes] = [0..<100] @ [100..<page_bytes]" using upt_add_eq_append [of 0 100 3996] by (simp)
  moreover have "map (request_frame stack) [0..<100] = request_message"
    by (rule nth_equalityI) (simp_all add: len request_frame_def)
  moreover have "map (request_frame stack) [100..<page_bytes] = map stack [100..<page_bytes]"
    by (rule map_cong) (auto simp: request_frame_def)
  ultimately have frame: "map (request_frame stack) [0..<page_bytes] = request_message @ map stack [100..<page_bytes]"
    by (metis map_append)
  have data: "page_data k' p = request_message @ map stack [100..<page_bytes]" if p: "p \<in> set ps" for p
  proof -
    obtain j where j: "j < length ps" "ps ! j = p" using p by (metis in_set_conv_nth)
    have "fold rc_fill (take (Suc j) es) (request_frame stack) = request_frame stack"
      by (rule same) (use assms(8) in \<open>auto dest: in_set_takeD\<close>)
    then show ?thesis using page j frame by auto
  qed
  have msg: "request_message = literal ''retrieve_pages'' @ 0 # replicate 85 0"
    using replicate_Suc [of 85 "0 :: u8"] by (simp only: request_message_def) (simp del: replicate_Suc)
  have "0 \<notin> set (literal ''retrieve_pages'')" by (simp add: literal_def of_char_def)
  then have "cstr (literal ''retrieve_pages'' @ 0 # r) = literal ''retrieve_pages''" for r
    by (subst cstr_append) (simp_all add: cstr_def)
  then have "cstr (request_message @ map stack [100..<page_bytes]) = literal ''retrieve_pages''"
    by (simp only: msg append_assoc append_Cons)
  then show ?thesis using run k' data by simp
qed

theorem retrieve_pages_echo_witness:
  "\<exists>k'. nmsg_retrieve_pages 0 (\<lambda>_. 7) [(received 20)\<lparr>rc_fill := (\<lambda>mem. mem)\<rparr>] 1 client_udp = Some (0, k')
    \<and> page_data k' 20 = request_message @ map (\<lambda>_. 7) [100..<page_bytes]"
  using retrieve_pages_echo [of client_udp 4 0 "[(received 20)\<lparr>rc_fill := (\<lambda>mem. mem)\<rparr>]" "[20]"
      "\<lparr>m_pages = [\<lparr>pg_state = INVALID, pg_page = Some 9\<rparr>], m_size = 1\<rparr>" "\<lambda>_. 7"]
  by (auto simp: delivers_def received_def)

text \<open>
  The number of pages is not compared with the size of the table. When more pages are asked for
  than the table has entries and all of them arrive, the entry after the last one is written; a table that was
  never set up is a null pointer, dereferenced after the first page has arrived.
\<close>

theorem retrieve_pages_overruns:
  assumes "cl_sock k = Some s" and "s \<in> socks k" and "0 \<le> sendmsg" and "\<forall>e \<in> set es. \<exists>p. delivers e p"
  shows "(memory k = Mem_at mt \<and> int (length (m_pages mt)) < num_pages \<and> length (m_pages mt) < length es
      \<longrightarrow> nmsg_retrieve_pages sendmsg stack es num_pages k = None)
    \<and> (memory k = Mem_null \<and> 0 < num_pages \<and> es \<noteq> [] \<longrightarrow> nmsg_retrieve_pages sendmsg stack es num_pages k = None)"
proof (intro conjI impI)
  assume mt: "memory k = Mem_at mt \<and> int (length (m_pages mt)) < num_pages \<and> length (m_pages mt) < length es"
  show "nmsg_retrieve_pages sendmsg stack es num_pages k = None"
    unfolding retrieve_pages_loop [OF assms(1-3)]
    by (rule retrieve_loop_overruns [OF assms(4), of _ mt]) (use mt in \<open>auto simp: zless_nat_eq_int_zless\<close>)
next
  assume null: "memory k = Mem_null \<and> 0 < num_pages \<and> es \<noteq> []"
  then obtain e es' where es: "es = e # es'" by (cases es) auto
  obtain p where p: "delivers e p" using assms(4) es by auto
  have "[0..<nat num_pages] = 0 # [1..<nat num_pages]" using null by (simp add: upt_conv_Cons)
  then show "nmsg_retrieve_pages sendmsg stack es num_pages k = None"
    unfolding retrieve_pages_loop [OF assms(1-3)] es
    using null p by (simp add: delivers_def update_entry_def Let_def)
qed

lemma received_delivers: "\<forall>e \<in> set [received 20, received 21]. \<exists>p. delivers e p"
  using client_udp_simps(4) by simp (metis client_udp_simps(4))

theorem retrieve_pages_overruns_witness:
  "nmsg_retrieve_pages 0 (\<lambda>_. 0) [received 20, received 21] 2 client_udp = None"
  using retrieve_pages_overruns [OF _ _ _ received_delivers, of client_udp 4 0
      "\<lparr>m_pages = [\<lparr>pg_state = INVALID, pg_page = Some 9\<rparr>], m_size = 1\<rparr>" 2 "\<lambda>_. 0"]
  by simp

section \<open>Sessions\<close>

text \<open>
  A session opens a socket, sends each string without its zero byte to the address and port
  given, and closes the socket again. Opening a second session first loses the socket of the first: it stays open.
\<close>

theorem client_session:
  assumes "0 \<le> c" and "s \<notin> socks k" and "t \<notin> insert s (socks k)" and "0 \<le> sendmsg" and "0 \<notin> set m"
  shows "\<exists>k1 k2 k3 k4. nmsg_init_client (c, s) in_aton ip port k = (0, k1)
    \<and> nmsg_send_message sendmsg (m @ 0 # rest) k1 = Some (0, k2) \<and> sent k2 = sent k @ [(s, \<lparr>sin_family = AF_INET, sin_port = htons port, sin_addr = in_aton ip\<rparr>, m)]
    \<and> nmsg_destroy_client k2 = Some k3 \<and> socks k3 = socks k \<and> nmsg_send_message sendmsg m k3 = None
    \<and> nmsg_destroy_client (snd (nmsg_init_client (c, t) in_aton ip port k1)) = Some k4
    \<and> socks k4 = insert s (socks k)"
  using assms
  by (auto simp: nmsg_init_client_def nmsg_send_message_def nmsg_destroy_client_def sock_release_def cstr_append
      cstr_def [of "0 # _"] Let_def)

theorem client_session_witness:
  "\<exists>k1 k2. nmsg_init_client (0, 6) (\<lambda>_. 1) [] 11111 idle_udp = (0, k1)
    \<and> nmsg_send_message 0 [104, 105, 0] k1 = Some (0, k2)
    \<and> sent k2 = [(6, \<lparr>sin_family = AF_INET, sin_port = htons 11111, sin_addr = 1\<rparr>, [104, 105])]"
  using client_session [of 0 6 idle_udp 7 0 "[104, 105]" "\<lambda>_. 1" "[]" 11111 "[]"]
  by (auto simp: idle_udp_def)

end
