(* ===== verification/Migrate_Device.thy ===== *)
theory Migrate_Device
  imports Nmsg_Client Dmirror_Migrate
begin

text \<open>
  Page migration, \<open>mm/migrate_device.c\<close>: collecting the pages of a range, isolating and unmapping them, moving
  the meta-data and finishing, with the change that asks another machine for the source page. The parts of a
  \<open>struct page\<close> that matter here are the record \<open>page_meta\<close>; an array of \<open>unsigned long\<close> entries is a list of
  \<open>mpfn\<close>. The result \<open>None\<close> is an invalid memory access, or a wait that does not end within the answers given.
\<close>

unbundle bit_operations_syntax

section \<open>Pages and page tables\<close>

text \<open>
  \<open>file_backed\<close> says that \<open>page_mapping\<close> is not null, \<open>has_mapping\<close> that the field \<open>mapping\<close> is not.
\<close>

record page_meta =
  refcount :: int
  mapcount :: int
  locked :: bool
  on_lru :: bool
  compound :: bool
  has_mapping :: bool
  file_backed :: bool
  has_private :: bool
  anon :: bool
  anon_exclusive :: bool
  marked_dirty :: bool
  uptodate :: bool

record pte_flags =
  f_young :: bool
  f_dirty :: bool
  f_soft_dirty :: bool
  f_uffd_wp :: bool

datatype migration_kind = Mig_writable | Mig_readable_exclusive | Mig_readable

text \<open>
  A page table entry: empty, mapping a page (writable or not), one of a device private page, a
  migration entry, or another swap entry.
\<close>

datatype pte =
    Pte_none
  | Pte_present page bool pte_flags
  | Pte_device page bool pte_flags
  | Pte_migration page migration_kind pte_flags
  | Pte_swap

text \<open>The state: the transport and the devices, the fields of all pages, and the page table of the process.\<close>

record mm_state =
  net :: udp_state
  meta :: "page \<Rightarrow> page_meta"
  ptes :: "nat \<Rightarrow> pte"

definition set_meta :: "page \<Rightarrow> (page_meta \<Rightarrow> page_meta) \<Rightarrow> mm_state \<Rightarrow> mm_state" where
  "set_meta p f m = m\<lparr>meta := (meta m)(p := f (meta m p))\<rparr>"

definition get_page :: "page \<Rightarrow> mm_state \<Rightarrow> mm_state" where
  "get_page p = set_meta p (\<lambda>pm. pm\<lparr>refcount := refcount pm + 1\<rparr>)"

definition put_page :: "page \<Rightarrow> mm_state \<Rightarrow> mm_state" where
  "put_page p = set_meta p (\<lambda>pm. pm\<lparr>refcount := refcount pm - 1\<rparr>)"

definition lock_page :: "page \<Rightarrow> mm_state \<Rightarrow> mm_state" where
  "lock_page p = set_meta p (\<lambda>pm. pm\<lparr>locked := True\<rparr>)"

definition unlock_page :: "page \<Rightarrow> mm_state \<Rightarrow> mm_state" where
  "unlock_page p = set_meta p (\<lambda>pm. pm\<lparr>locked := False\<rparr>)"

text \<open>\<open>isolate_lru_page\<close> takes a page off its list, with a reference; \<open>putback_lru_page\<close> is the opposite.\<close>

definition isolate_lru_page :: "page \<Rightarrow> mm_state \<Rightarrow> bool \<times> mm_state" where
  "isolate_lru_page p m =
    (if on_lru (meta m p) then (True, set_meta p (\<lambda>pm. pm\<lparr>on_lru := False, refcount := refcount pm + 1\<rparr>) m) else (False, m))"

definition putback_lru_page :: "page \<Rightarrow> mm_state \<Rightarrow> mm_state" where
  "putback_lru_page p = set_meta p (\<lambda>pm. pm\<lparr>on_lru := True, refcount := refcount pm - 1\<rparr>)"

section \<open>The request\<close>

record vma =
  vma_start :: u64
  vma_end :: u64
  vma_anonymous :: bool
  vma_hugetlb :: bool
  vma_special :: bool
  vma_dax :: bool
  vma_write :: bool

text \<open>A null array is an empty one. The number of pages of a range is far below the width of the counters.\<close>

record migrate_vma =
  mv_vma :: "vma option"
  mv_dst :: "mpfn list"
  mv_src :: "mpfn list"
  mv_cpages :: nat
  mv_npages :: nat
  mv_start :: u64
  mv_end :: u64
  mv_owner :: nat
  mv_flags :: "migrate_direction set"
  mv_fault_page :: "page option"

definition hole_pfn :: mpfn where
  "hole_pfn = no_pfn\<lparr>mp_migrate := True\<rparr>"

definition stop_migrating :: "mpfn \<Rightarrow> mpfn" where
  "stop_migrating s = s\<lparr>mp_migrate := False\<rparr>"

text \<open>
  What the rest of the kernel decides: the zero page, the pages \<open>vm_normal_page\<close> does not return, those
  \<open>page_try_share_anon_rmap\<close> cannot share, those that are on a list after \<open>lru_add_drain\<close> and
  \<open>lru_add_drain_all\<close>, and the effects of \<open>try_to_migrate\<close> and \<open>remove_migration_ptes\<close>.
\<close>

record mm_env =
  me_zero :: page
  me_special :: "page \<Rightarrow> bool"
  me_share_fails :: "page \<Rightarrow> bool"
  me_drained :: "page \<Rightarrow> bool"
  me_drained_all :: "page \<Rightarrow> bool"
  try_to_migrate :: "page \<Rightarrow> mm_state \<Rightarrow> mm_state"
  remove_migration_ptes :: "page \<Rightarrow> page \<Rightarrow> mm_state \<Rightarrow> mm_state"

definition drain :: "(page \<Rightarrow> bool) \<Rightarrow> mm_state \<Rightarrow> mm_state" where
  "drain f m = m\<lparr>meta := (\<lambda>p. (meta m p)\<lparr>on_lru := on_lru (meta m p) \<or> f p\<rparr>)\<rparr>"

section \<open>Collecting\<close>

text \<open>\<open>src[npages] = s; dst[npages] = 0; npages++\<close>\<close>

definition add_entry :: "mpfn \<Rightarrow> bool \<Rightarrow> migrate_vma \<Rightarrow> migrate_vma option" where
  "add_entry s counted mv =
    (if mv_npages mv < length (mv_src mv) \<and> mv_npages mv < length (mv_dst mv)
     then Some (mv\<lparr>mv_src := (mv_src mv)[mv_npages mv := s], mv_dst := (mv_dst mv)[mv_npages mv := no_pfn],
            mv_npages := mv_npages mv + 1, mv_cpages := (if counted then mv_cpages mv + 1 else mv_cpages mv)\<rparr>)
     else None)"

fun migrate_vma_collect_skip :: "nat list \<Rightarrow> migrate_vma \<Rightarrow> migrate_vma option" where
  "migrate_vma_collect_skip [] mv = Some mv"
| "migrate_vma_collect_skip (a # as) mv = Option.bind (add_entry no_pfn False mv) (migrate_vma_collect_skip as)"

fun collect_hole_loop :: "nat list \<Rightarrow> migrate_vma \<Rightarrow> migrate_vma option" where
  "collect_hole_loop [] mv = Some mv"
| "collect_hole_loop (a # as) mv = Option.bind (add_entry hole_pfn True mv) (collect_hole_loop as)"

definition migrate_vma_collect_hole :: "vma \<Rightarrow> nat list \<Rightarrow> migrate_vma \<Rightarrow> migrate_vma option" where
  "migrate_vma_collect_hole v as mv =
    (if \<not> vma_anonymous v then migrate_vma_collect_skip as mv else collect_hole_loop as mv)"

text \<open>
  The part of the loop body that starts with \<open>get_page\<close>: lock the page and replace its entry at frame \<open>a\<close>. The
  result has the entry of \<open>src\<close> and whether \<open>cpages\<close> counts it.
\<close>

definition take_page :: "mm_env \<Rightarrow> nat \<Rightarrow> page \<Rightarrow> bool \<Rightarrow> pte_flags \<Rightarrow> mpfn \<Rightarrow> mm_state \<Rightarrow> mpfn \<times> bool \<times> mm_state" where
  "take_page env a p present fl s m =
    (let m = get_page p m
     in if locked (meta m p) then (no_pfn, False, put_page p m)
        else let m = lock_page p m;
                 exclusive = (anon (meta m p) \<and> anon_exclusive (meta m p))
        in if exclusive \<and> me_share_fails env p then (no_pfn, False, put_page p (unlock_page p m))
           else let m = (if exclusive then set_meta p (\<lambda>pm. pm\<lparr>anon_exclusive := False\<rparr>) m else m);
                    m = (if f_dirty fl then set_meta p (\<lambda>pm. pm\<lparr>marked_dirty := True\<rparr>) m else m);
                    kind = (if mp_write s then Mig_writable else if exclusive then Mig_readable_exclusive else Mig_readable);
                    fl = (if present then fl else fl\<lparr>f_young := False, f_dirty := False\<rparr>);
                    m = m\<lparr>ptes := (ptes m)(a := Pte_migration p kind fl)\<rparr>;
                    m = set_meta p (\<lambda>pm. pm\<lparr>mapcount := mapcount pm - 1\<rparr>) m
                in (s, True, put_page p m))"

definition usable :: "page \<Rightarrow> mm_state \<Rightarrow> bool" where
  "usable p m \<longleftrightarrow> has_mapping (meta m p) \<and> \<not> compound (meta m p)"

definition collect_pte :: "mm_env \<Rightarrow> vma \<Rightarrow> migrate_vma \<Rightarrow> nat \<Rightarrow> mm_state \<Rightarrow> mpfn \<times> bool \<times> mm_state" where
  "collect_pte env v mv a m =
    (case ptes m a of
       Pte_none \<Rightarrow> if vma_anonymous v then (hole_pfn, True, m) else (no_pfn, False, m)
     | Pte_device p w fl \<Rightarrow>
         if SELECT_DEVICE_PRIVATE \<notin> mv_flags mv \<or> dmirror_page_to_device (net m) p \<noteq> Some (mv_owner mv) then (no_pfn, False, m)
         else if \<not> usable p m then (no_pfn, False, m)
         else take_page env a p False fl ((migrate_pfn p)\<lparr>mp_migrate := True, mp_write := w\<rparr>) m
     | Pte_present p w fl \<Rightarrow>
         if p = me_zero env \<and> SELECT_SYSTEM \<in> mv_flags mv then (hole_pfn, True, m)
         else if \<not> me_special env p \<and> \<not> is_zone_device_page (net m) p \<and> SELECT_SYSTEM \<notin> mv_flags mv then (no_pfn, False, m)
         else if \<not> me_special env p \<and> is_device_page MEMORY_DEVICE_COHERENT (net m) p \<and>
             (SELECT_DEVICE_COHERENT \<notin> mv_flags mv \<or> dmirror_page_to_device (net m) p \<noteq> Some (mv_owner mv)) then (no_pfn, False, m)
         else if me_special env p \<or> \<not> usable p m then (no_pfn, False, m)
         else take_page env a p True fl ((migrate_pfn p)\<lparr>mp_migrate := True, mp_write := w\<rparr>) m
     | _ \<Rightarrow> (no_pfn, False, m))"

fun collect_ptes :: "mm_env \<Rightarrow> vma \<Rightarrow> nat list \<Rightarrow> migrate_vma \<Rightarrow> mm_state \<Rightarrow> (migrate_vma \<times> mm_state) option" where
  "collect_ptes env v [] mv m = Some (mv, m)"
| "collect_ptes env v (a # as) mv m =
    (let (s, counted, m) = collect_pte env v mv a m
     in case add_entry s counted mv of None \<Rightarrow> None | Some mv \<Rightarrow> collect_ptes env v as mv m)"

text \<open>
  What is found in a page middle directory: nothing, something bad, a huge zero page (with the test after
  the split), a huge page (whether it can be locked, the result of the split and whether the entry is
  then empty), a huge page that is gone once the lock is taken, or a page table.
\<close>

datatype pmd_view = Pmd_none | Pmd_bad | Pmd_huge_zero bool bool | Pmd_huge bool int bool bool | Pmd_raced | Pmd_table

fun migrate_vma_collect_pmd ::
  "mm_env \<Rightarrow> vma \<Rightarrow> pmd_view list \<Rightarrow> nat list \<Rightarrow> migrate_vma \<Rightarrow> mm_state \<Rightarrow> (migrate_vma \<times> mm_state) option"
where
  "migrate_vma_collect_pmd env v [] as mv m = None"
| "migrate_vma_collect_pmd env v (view # views) as mv m =
    (let skip = map_option (\<lambda>mv. (mv, m)) (migrate_vma_collect_skip as mv);
         hole = map_option (\<lambda>mv. (mv, m)) (migrate_vma_collect_hole v as mv);
         table = collect_ptes env v as mv m
     in case view of
       Pmd_none \<Rightarrow> hole
     | Pmd_raced \<Rightarrow> migrate_vma_collect_pmd env v views as mv m
     | Pmd_huge_zero unstable bad \<Rightarrow> if unstable \<or> bad then skip else table
     | Pmd_huge trylock split none bad \<Rightarrow>
         if \<not> trylock then skip else if split \<noteq> 0 then skip else if none then hole else if bad then skip else table
     | Pmd_bad \<Rightarrow> skip
     | Pmd_table \<Rightarrow> table)"

text \<open>\<open>walk_page_range\<close> calls one of the two functions for each part of the range in turn.\<close>

datatype walk_piece = Walk_hole "nat list" | Walk_pmd "pmd_view list" "nat list"

fun walk_page_range :: "mm_env \<Rightarrow> vma \<Rightarrow> walk_piece list \<Rightarrow> migrate_vma \<Rightarrow> mm_state \<Rightarrow> (migrate_vma \<times> mm_state) option" where
  "walk_page_range env v [] mv m = Some (mv, m)"
| "walk_page_range env v (w # ws) mv m =
    (case (case w of
             Walk_hole as \<Rightarrow> map_option (\<lambda>mv. (mv, m)) (migrate_vma_collect_hole v as mv)
           | Walk_pmd views as \<Rightarrow> migrate_vma_collect_pmd env v views as mv m) of
       None \<Rightarrow> None
     | Some (mv, m) \<Rightarrow> walk_page_range env v ws mv m)"

definition migrate_vma_collect :: "mm_env \<Rightarrow> vma \<Rightarrow> walk_piece list \<Rightarrow> migrate_vma \<Rightarrow> mm_state \<Rightarrow> (migrate_vma \<times> mm_state) option" where
  "migrate_vma_collect env v ws mv m =
    map_option (\<lambda>(mv, m). (mv\<lparr>mv_end := mv_start mv + push_bit PAGE_SHIFT (of_nat (mv_npages mv))\<rparr>, m))
      (walk_page_range env v ws mv m)"

section \<open>Unmapping\<close>

definition migrate_vma_check_page :: "mm_state \<Rightarrow> page \<Rightarrow> page option \<Rightarrow> bool" where
  "migrate_vma_check_page m p fault_page =
    (let pm = meta m p;
         extra = 1 + of_bool (Some p = fault_page) + of_bool (is_zone_device_page (net m) p)
           + (if file_backed pm then 1 + of_bool (has_private pm) else 0)
     in if compound pm then False else \<not> refcount pm - extra > mapcount pm)"

definition page_mapped :: "page \<Rightarrow> mm_state \<Rightarrow> bool" where
  "page_mapped p m \<longleftrightarrow> mapcount (meta m p) > 0"

text \<open>The body of the first loop for a page: \<open>True\<close> if it stays marked for migration.\<close>

definition unmap_page :: "mm_env \<Rightarrow> page option \<Rightarrow> page \<Rightarrow> mm_state \<Rightarrow> bool \<times> mm_state" where
  "unmap_page env fault_page p m =
    (let zone = is_zone_device_page (net m) p;
         (isolated, m) = (if zone then (True, m) else isolate_lru_page p m)
     in if \<not> isolated then (False, m)
        else let m = (if zone then m else put_page p m);
                 m = (if page_mapped p m then try_to_migrate env p m else m)
             in if page_mapped p m \<or> \<not> migrate_vma_check_page m p fault_page
                then (False, if \<not> is_zone_device_page (net m) p then putback_lru_page p (get_page p m) else m)
                else (True, m))"

text \<open>The result of the loop: the new array, the number of pages unmapped and of pages to restore.\<close>

fun unmap_loop ::
  "mm_env \<Rightarrow> page option \<Rightarrow> bool \<Rightarrow> mpfn list \<Rightarrow> mm_state \<Rightarrow> mpfn list \<times> nat \<times> nat \<times> mm_state" where
  "unmap_loop env fault_page allow_drain [] m = ([], 0, 0, m)"
| "unmap_loop env fault_page allow_drain (s # ss) m =
    (case migrate_pfn_to_page s of
       None \<Rightarrow>
         let (ss, u, r, m) = unmap_loop env fault_page allow_drain ss m
         in (s # ss, if mp_migrate s then u + 1 else u, r, m)
     | Some p \<Rightarrow>
         let d = (\<not> is_zone_device_page (net m) p \<and> \<not> on_lru (meta m p) \<and> allow_drain);
             m = (if d then drain (me_drained_all env) m else m);
             (ok, m) = unmap_page env fault_page p m;
             (ss, u, r, m) = unmap_loop env fault_page (allow_drain \<and> \<not> d) ss m
         in if ok then (s # ss, u + 1, r, m) else (stop_migrating s # ss, u, r + 1, m))"

fun restore_loop :: "mm_env \<Rightarrow> nat \<Rightarrow> mpfn list \<Rightarrow> mm_state \<Rightarrow> mpfn list \<times> mm_state" where
  "restore_loop env 0 ss m = (ss, m)"
| "restore_loop env (Suc r) [] m = ([], m)"
| "restore_loop env (Suc r) (s # ss) m =
    (case (if mp_migrate s then None else migrate_pfn_to_page s) of
       None \<Rightarrow> let (ss, m) = restore_loop env (Suc r) ss m in (s # ss, m)
     | Some p \<Rightarrow>
         let m = put_page p (unlock_page p (remove_migration_ptes env p p m));
             (ss, m) = restore_loop env r ss m
         in (no_pfn # ss, m))"

definition migrate_device_unmap :: "mm_env \<Rightarrow> page option \<Rightarrow> mpfn list \<Rightarrow> mm_state \<Rightarrow> mpfn list \<times> nat \<times> mm_state" where
  "migrate_device_unmap env fault_page src m =
    (let (src, unmapped, restore, m) = unmap_loop env fault_page True src (drain (me_drained env) m);
         (src, m) = restore_loop env restore src m
     in (src, unmapped, m))"

definition migrate_vma_unmap :: "mm_env \<Rightarrow> migrate_vma \<Rightarrow> mm_state \<Rightarrow> migrate_vma \<times> mm_state" where
  "migrate_vma_unmap env mv m =
    (let n = mv_npages mv;
         (src, unmapped, m) = migrate_device_unmap env (mv_fault_page mv) (take n (mv_src mv)) m
     in (mv\<lparr>mv_src := src @ drop n (mv_src mv), mv_cpages := unmapped\<rparr>, m))"

text \<open>The shift is one of \<open>unsigned long\<close>, so \<open>nr_pages\<close> is never negative.\<close>

definition migrate_vma_setup ::
  "mm_env \<Rightarrow> walk_piece list \<Rightarrow> migrate_vma \<Rightarrow> mm_state \<Rightarrow> (int \<times> migrate_vma \<times> mm_state) option" where
  "migrate_vma_setup env ws args m =
    (let nr_pages = unat (drop_bit PAGE_SHIFT (mv_end args - mv_start args));
         args = args\<lparr>mv_start := mv_start args AND PAGE_MASK, mv_end := mv_end args AND PAGE_MASK\<rparr>
     in case mv_vma args of
       None \<Rightarrow> Some (- EINVAL, args, m)
     | Some v \<Rightarrow>
     if vma_hugetlb v \<or> vma_special v \<or> vma_dax v then Some (- EINVAL, args, m)
     else if nr_pages \<le> 0 then Some (- EINVAL, args, m)
     else if mv_start args < vma_start v \<or> mv_start args \<ge> vma_end v then Some (- EINVAL, args, m)
     else if mv_end args \<le> vma_start v \<or> mv_end args > vma_end v then Some (- EINVAL, args, m)
     else if mv_src args = [] \<or> mv_dst args = [] then Some (- EINVAL, args, m)
     else if (case mv_fault_page args of None \<Rightarrow> False | Some p \<Rightarrow> \<not> is_device_page MEMORY_DEVICE_PRIVATE (net m) p)
     then Some (- EINVAL, args, m)
     else if nr_pages > length (mv_src args) then None
     else let args = args\<lparr>mv_src := replicate nr_pages no_pfn @ drop nr_pages (mv_src args), mv_cpages := 0, mv_npages := 0\<rparr>
     in case migrate_vma_collect env v ws args m of
       None \<Rightarrow> None
     | Some (args, m) \<Rightarrow>
         let (args, m) = (if mv_cpages args \<noteq> 0 then migrate_vma_unmap env args m else (args, m))
         in Some (0, args, m))"

section \<open>Finishing\<close>

definition finish_page :: "page \<Rightarrow> mm_state \<Rightarrow> mm_state" where
  "finish_page p m = (if is_zone_device_page (net m) p then put_page p m else putback_lru_page p m)"

definition drop_new :: "page option \<Rightarrow> mm_state \<Rightarrow> mm_state" where
  "drop_new newpage m = (case newpage of None \<Rightarrow> m | Some n \<Rightarrow> put_page n (unlock_page n m))"

definition finalize_entry :: "mm_env \<Rightarrow> mpfn \<Rightarrow> mpfn \<Rightarrow> mm_state \<Rightarrow> mm_state" where
  "finalize_entry env s d m =
    (let newpage = migrate_pfn_to_page d
     in case migrate_pfn_to_page s of
       None \<Rightarrow> drop_new newpage m
     | Some p \<Rightarrow>
         let (n, m) = (if \<not> mp_migrate s \<or> newpage = None then (p, drop_new newpage m) else (the newpage, m));
             m = remove_migration_ptes env p n m;
             m = finish_page p (unlock_page p m)
         in if n \<noteq> p then finish_page n (unlock_page n m) else m)"

fun migrate_device_finalize :: "mm_env \<Rightarrow> mpfn list \<Rightarrow> mpfn list \<Rightarrow> mm_state \<Rightarrow> mm_state" where
  "migrate_device_finalize env (s # ss) (d # ds) m = migrate_device_finalize env ss ds (finalize_entry env s d m)"
| "migrate_device_finalize env _ _ m = m"

definition migrate_vma_finalize :: "mm_env \<Rightarrow> migrate_vma \<Rightarrow> mm_state \<Rightarrow> mm_state" where
  "migrate_vma_finalize env mv m =
    migrate_device_finalize env (take (mv_npages mv) (mv_src mv)) (take (mv_npages mv) (mv_dst mv)) m"

text \<open>\<open>get_page_unless_zero\<close> and \<open>trylock_page\<close> for the frames from \<open>pfn\<close> on.\<close>

fun device_range_loop :: "nat list \<Rightarrow> mm_state \<Rightarrow> mpfn list \<times> mm_state" where
  "device_range_loop [] m = ([], m)"
| "device_range_loop (p # ps) m =
    (let (s, m) =
       (if refcount (meta m p) = 0 then (no_pfn, m)
        else let m = get_page p m
             in if locked (meta m p) then (no_pfn, put_page p m)
                else ((migrate_pfn p)\<lparr>mp_migrate := True\<rparr>, lock_page p m));
       (ss, m) = device_range_loop ps m
     in (s # ss, m))"

definition migrate_device_range :: "mm_env \<Rightarrow> nat \<Rightarrow> nat \<Rightarrow> mm_state \<Rightarrow> int \<times> mpfn list \<times> mm_state" where
  "migrate_device_range env start npages m =
    (let (src, m) = device_range_loop [start..<start + npages] m;
         (src, unmapped, m) = migrate_device_unmap env None src m
     in (0, src, m))"

end
