(* ===== verification/Migrate_Balance.thy ===== *)
theory Migrate_Balance
  imports Migrate_Device
begin

text \<open>
  Page locks and references over a whole migration: what collecting takes, unmapping keeps and finishing gives
  back. A page's pins are the references that no mapping accounts for.
\<close>

section \<open>Pins\<close>

definition pins :: "mm_state \<Rightarrow> page \<Rightarrow> int" where
  "pins m p = refcount (meta m p) - mapcount (meta m p)"

definition is_locked :: "mm_state \<Rightarrow> page \<Rightarrow> bool" where
  "is_locked m p = locked (meta m p)"

text \<open>Same locks, same pins, same devices.\<close>

definition same_pins :: "mm_state \<Rightarrow> mm_state \<Rightarrow> bool" where
  "same_pins m m' \<longleftrightarrow> is_locked m' = is_locked m \<and> pins m' = pins m \<and> net m' = net m"

lemma same_pins_refl [simp]: "same_pins m m"
  by (simp add: same_pins_def)

lemma same_pins_trans: "same_pins m m' \<Longrightarrow> same_pins m' m'' \<Longrightarrow> same_pins m m''"
  by (simp add: same_pins_def)

text \<open>
  The documented effect of the two functions that work on the reverse mappings: dropping or adding a mapping
  drops or adds a reference with it; page locks are not touched.
\<close>

definition rmap_ok :: "mm_env \<Rightarrow> bool" where
  "rmap_ok env \<longleftrightarrow> (\<forall>p m. same_pins m (try_to_migrate env p m)) \<and> (\<forall>p q m. same_pins m (remove_migration_ptes env p q m))"

named_theorems page_simps \<open>page locks and references\<close>

lemma set_meta_net [page_simps]: "net (set_meta p f m) = net m"
  by (simp add: set_meta_def)

lemma pins_set_meta:
  "(\<And>pm. refcount (f pm) - mapcount (f pm) = refcount pm - mapcount pm + d) \<Longrightarrow>
    pins (set_meta p f m) = (pins m)(p := pins m p + d)"
  by (auto simp: pins_def set_meta_def)

lemma pins_ops [page_simps]:
  "pins (get_page p m) = (pins m)(p := pins m p + 1)" "pins (put_page p m) = (pins m)(p := pins m p - 1)"
  "pins (lock_page p m) = pins m" "pins (unlock_page p m) = pins m"
  "pins (putback_lru_page p m) = (pins m)(p := pins m p - 1)"
  "pins (set_meta p (\<lambda>pm. pm\<lparr>anon_exclusive := b\<rparr>) m) = pins m"
  "pins (set_meta p (\<lambda>pm. pm\<lparr>marked_dirty := b\<rparr>) m) = pins m"
  "pins (set_meta p (\<lambda>pm. pm\<lparr>mapcount := mapcount pm - 1\<rparr>) m) = (pins m)(p := pins m p + 1)"
  "pins (set_meta p (\<lambda>pm. pm\<lparr>on_lru := b, refcount := refcount pm + 1\<rparr>) m) = (pins m)(p := pins m p + 1)"
  "pins (m\<lparr>ptes := t\<rparr>) = pins m"
  unfolding get_page_def put_page_def lock_page_def unlock_page_def putback_lru_page_def
  using pins_set_meta [where d = 1] pins_set_meta [where d = "- 1"] pins_set_meta [where d = 0]
  by (simp_all add: pins_def fun_eq_iff)

lemma locked_ops [page_simps]:
  "is_locked (get_page p m) = is_locked m" "is_locked (put_page p m) = is_locked m"
  "is_locked (lock_page p m) = (is_locked m)(p := True)" "is_locked (unlock_page p m) = (is_locked m)(p := False)"
  "is_locked (putback_lru_page p m) = is_locked m"
  "is_locked (set_meta p (\<lambda>pm. pm\<lparr>anon_exclusive := b\<rparr>) m) = is_locked m"
  "is_locked (set_meta p (\<lambda>pm. pm\<lparr>marked_dirty := b\<rparr>) m) = is_locked m"
  "is_locked (set_meta p (\<lambda>pm. pm\<lparr>mapcount := mapcount pm - 1\<rparr>) m) = is_locked m"
  "is_locked (set_meta p (\<lambda>pm. pm\<lparr>on_lru := b, refcount := refcount pm + 1\<rparr>) m) = is_locked m"
  "is_locked (m\<lparr>ptes := t\<rparr>) = is_locked m"
  unfolding get_page_def put_page_def lock_page_def unlock_page_def putback_lru_page_def
  by (simp_all add: is_locked_def set_meta_def fun_eq_iff)

lemma net_ops [page_simps]:
  "net (get_page p m) = net m" "net (put_page p m) = net m" "net (lock_page p m) = net m" "net (unlock_page p m) = net m"
  "net (putback_lru_page p m) = net m"
  by (simp_all add: get_page_def put_page_def lock_page_def unlock_page_def putback_lru_page_def page_simps)

lemma finish_page_ops [page_simps]:
  "pins (finish_page p m) = (pins m)(p := pins m p - 1)" "is_locked (finish_page p m) = is_locked m"
  "net (finish_page p m) = net m"
  by (simp_all add: finish_page_def page_simps)

lemma same_pins_drain: "same_pins m (drain f m)"
  by (simp add: same_pins_def drain_def pins_def is_locked_def fun_eq_iff)

section \<open>Pages held\<close>

text \<open>Compared with \<open>m0\<close>, the pages of \<open>P\<close>, and no others, are locked and have one more pin.\<close>

definition holds :: "mm_state \<Rightarrow> page set \<Rightarrow> mm_state \<Rightarrow> bool" where
  "holds m0 P m \<longleftrightarrow> (\<forall>p. is_locked m p = (is_locked m0 p \<or> p \<in> P)) \<and> (\<forall>p \<in> P. \<not> is_locked m0 p)
     \<and> (\<forall>p. pins m p = pins m0 p + of_bool (p \<in> P)) \<and> net m = net m0"

definition pages_of :: "mpfn list \<Rightarrow> page list" where
  "pages_of ss = map mp_page (filter mp_valid ss)"

lemma pages_of_simps [simp]:
  "pages_of [] = []" "pages_of (s # ss) = (if mp_valid s then mp_page s # pages_of ss else pages_of ss)"
  "pages_of (ss @ ss') = pages_of ss @ pages_of ss'"
  by (simp_all add: pages_of_def)

lemma pfn_simps [simp]:
  "mp_valid no_pfn = False" "mp_migrate no_pfn = False" "mp_valid hole_pfn = False" "mp_migrate hole_pfn = True"
  "mp_valid (migrate_pfn p) = True" "mp_page (migrate_pfn p) = p" "mp_valid (stop_migrating s) = mp_valid s"
  "mp_page (stop_migrating s) = mp_page s" "mp_migrate (stop_migrating s) = False"
  by (simp_all add: no_pfn_def hole_pfn_def migrate_pfn_def stop_migrating_def)

lemma holds_empty [simp]: "holds m {} m"
  by (simp add: holds_def)

lemma holds_same: "holds m0 P m \<Longrightarrow> same_pins m m' \<Longrightarrow> holds m0 P m'"
  by (simp add: holds_def same_pins_def)

lemma holds_take: "holds m0 P m \<Longrightarrow> \<not> is_locked m p \<Longrightarrow> is_locked m' = (is_locked m)(p := True) \<Longrightarrow>
    pins m' = (pins m)(p := pins m p + 1) \<Longrightarrow> net m' = net m \<Longrightarrow> holds m0 (insert p P) m'"
  by (auto simp: holds_def)

lemma holds_release:
  assumes "holds m0 P m" and "p \<in> P" and "is_locked m' = (is_locked m)(p := False)"
    and "pins m' = (pins m)(p := pins m p - 1)" and "net m' = net m"
  shows "holds m0 (P - {p}) m'"
  using assms by (auto simp: holds_def)

section \<open>Collecting\<close>

text \<open>An array and a state in step: the first \<open>npages\<close> entries name distinct pages, which are those held.\<close>

definition collected :: "mm_state \<Rightarrow> mpfn list \<Rightarrow> mm_state \<Rightarrow> bool" where
  "collected m0 ss m \<longleftrightarrow> distinct (pages_of ss) \<and> holds m0 (set (pages_of ss)) m
     \<and> (\<forall>s \<in> set ss. mp_valid s \<longrightarrow> mp_migrate s)"

lemma collected_plain: "collected m0 ss m \<Longrightarrow> \<not> mp_valid s \<Longrightarrow> collected m0 (ss @ [s]) m"
  by (simp add: collected_def)

lemma collected_same: "collected m0 ss m \<Longrightarrow> same_pins m m' \<Longrightarrow> collected m0 ss m'"
  by (auto simp: collected_def intro: holds_same)

text \<open>Either nothing is kept, or the page was not locked and is now locked, with one pin more.\<close>

lemma take_page_cases:
  assumes "take_page env a p present fl s m = (s', c, m')"
  shows "s' = no_pfn \<and> same_pins m m' \<or> s' = s \<and> \<not> is_locked m p \<and> is_locked m' = (is_locked m)(p := True)
    \<and> pins m' = (pins m)(p := pins m p + 1) \<and> net m' = net m"
proof -
  define m1 where "m1 = lock_page p (get_page p m)"
  define exc where "exc = (anon (meta m1 p) \<and> anon_exclusive (meta m1 p))"
  define m2 where "m2 = (if exc then set_meta p (\<lambda>pm. pm\<lparr>anon_exclusive := False\<rparr>) m1 else m1)"
  define m3 where "m3 = (if f_dirty fl then set_meta p (\<lambda>pm. pm\<lparr>marked_dirty := True\<rparr>) m2 else m2)"
  obtain t where "(s', c, m') = (no_pfn, False, put_page p (get_page p m))
    \<or> \<not> is_locked m p \<and> (s', c, m') = (no_pfn, False, put_page p (unlock_page p m1))
    \<or> \<not> is_locked m p \<and> (s', c, m') = (s, True, put_page p (set_meta p (\<lambda>pm. pm\<lparr>mapcount := mapcount pm - 1\<rparr>) (m3\<lparr>ptes := t\<rparr>)))"
    using assms unfolding take_page_def Let_def is_locked_def [symmetric] m1_def [symmetric] exc_def [symmetric]
      m2_def [symmetric] m3_def [symmetric]
    by (auto simp: page_simps split: if_splits)
  moreover have "is_locked m3 = (is_locked m)(p := True)" "pins m3 = (pins m)(p := pins m p + 1)" "net m3 = net m"
    by (simp_all add: m3_def m2_def m1_def page_simps)
  ultimately show ?thesis
    by (elim disjE conjE) (simp_all add: same_pins_def page_simps m1_def fun_upd_idem add.commute)
qed

lemma take_page_collected:
  assumes "collected m0 ss m" and "take_page env a p present fl s m = (s', c, m')"
    and "mp_valid s" and "mp_migrate s" and "mp_page s = p"
  shows "collected m0 (ss @ [s']) m'"
  using take_page_cases [OF assms(2)]
proof (elim disjE conjE)
  assume "s' = no_pfn" "same_pins m m'"
  then show ?thesis using collected_plain [OF collected_same [OF assms(1)]] by simp
next
  assume s: "s' = s" and free: "\<not> is_locked m p"
    and "is_locked m' = (is_locked m)(p := True)" "pins m' = (pins m)(p := pins m p + 1)" "net m' = net m"
  then have "holds m0 (insert p (set (pages_of ss))) m'"
    using assms(1) by (auto simp: collected_def intro: holds_take)
  moreover have "p \<notin> set (pages_of ss)"
    using assms(1) free by (auto simp: collected_def holds_def)
  ultimately show ?thesis using assms(1,3-5) s by (simp add: collected_def)
qed

lemma take_page_counted: "take_page env a p present fl s m = (s', c, m') \<Longrightarrow> mp_migrate s \<Longrightarrow> c = mp_migrate s'"
  by (auto simp: take_page_def Let_def split: if_splits)

lemma collect_pte_counted: "collect_pte env v mv a m = (s, c, m') \<Longrightarrow> c = mp_migrate s"
  by (auto simp: collect_pte_def dest: take_page_counted split: pte.splits if_splits)

lemma collect_pte_collected:
  assumes "collected m0 ss m" and "collect_pte env v mv a m = (s, c, m')"
  shows "collected m0 (ss @ [s]) m'"
proof -
  have "take_page env a p present fl ((migrate_pfn p)\<lparr>mp_migrate := True, mp_write := w\<rparr>) m = (s, c, m')
      \<Longrightarrow> collected m0 (ss @ [s]) m'" for p present fl w
    by (drule take_page_collected [OF assms(1)]) simp_all
  then show ?thesis
    using assms collected_plain [OF assms(1)] by (auto simp: collect_pte_def split: pte.splits if_splits)
qed

text \<open>The array of the request so far.\<close>

definition entries :: "migrate_vma \<Rightarrow> mpfn list" where
  "entries mv = take (mv_npages mv) (mv_src mv)"

lemma add_entry_entries:
  "add_entry s c mv = Some mv' \<Longrightarrow> entries mv' = entries mv @ [s] \<and> mv_npages mv' = mv_npages mv + 1
    \<and> length (mv_src mv') = length (mv_src mv) \<and> length (mv_dst mv') = length (mv_dst mv)
    \<and> mv_npages mv' \<le> length (mv_src mv') \<and> mv_npages mv' \<le> length (mv_dst mv')"
  by (auto simp: add_entry_def entries_def take_Suc_conv_app_nth split: if_splits)

lemma add_entry_dst:
  "add_entry s c mv = Some mv' \<Longrightarrow> pages_of (take (mv_npages mv) (mv_dst mv)) = [] \<Longrightarrow>
    pages_of (take (mv_npages mv') (mv_dst mv')) = []"
  by (auto simp: add_entry_def take_Suc_conv_app_nth split: if_splits)

text \<open>What every step of the walk keeps: the array in step with the pages held, room for its entries, no destination.\<close>

definition walk_ok :: "mm_state \<Rightarrow> migrate_vma \<Rightarrow> mm_state \<Rightarrow> bool" where
  "walk_ok m0 mv m \<longleftrightarrow> collected m0 (entries mv) m \<and> mv_npages mv \<le> length (mv_src mv) \<and> mv_npages mv \<le> length (mv_dst mv)
     \<and> pages_of (take (mv_npages mv) (mv_dst mv)) = [] \<and> mv_cpages mv = length (filter mp_migrate (entries mv))"

lemma add_entry_cpages: "add_entry s c mv = Some mv' \<Longrightarrow> mv_cpages mv' = mv_cpages mv + (if c then 1 else 0)"
  by (auto simp: add_entry_def split: if_splits)

lemma add_plain_ok:
  "add_entry s c mv = Some mv' \<Longrightarrow> walk_ok m0 mv m \<Longrightarrow> \<not> mp_valid s \<Longrightarrow> c = mp_migrate s \<Longrightarrow> walk_ok m0 mv' m"
  using add_entry_entries [of s c mv mv'] add_entry_dst [of s c mv mv'] add_entry_cpages [of s c mv mv']
  by (simp add: walk_ok_def collected_plain)

lemma collect_skip_ok: "migrate_vma_collect_skip as mv = Some mv' \<Longrightarrow> walk_ok m0 mv m \<Longrightarrow> walk_ok m0 mv' m"
  by (induction as arbitrary: mv) (auto simp: bind_eq_Some_conv dest: add_plain_ok)

lemma collect_hole_loop_ok: "collect_hole_loop as mv = Some mv' \<Longrightarrow> walk_ok m0 mv m \<Longrightarrow> walk_ok m0 mv' m"
  by (induction as arbitrary: mv) (auto simp: bind_eq_Some_conv dest: add_plain_ok)

lemma collect_hole_ok: "migrate_vma_collect_hole v as mv = Some mv' \<Longrightarrow> walk_ok m0 mv m \<Longrightarrow> walk_ok m0 mv' m"
  by (auto simp: migrate_vma_collect_hole_def intro: collect_skip_ok collect_hole_loop_ok split: if_splits)

lemma collect_ptes_ok: "collect_ptes env v as mv m = Some (mv', m') \<Longrightarrow> walk_ok m0 mv m \<Longrightarrow> walk_ok m0 mv' m'"
proof (induction as arbitrary: mv m)
  case (Cons a as)
  obtain s c m1 where pte: "collect_pte env v mv a m = (s, c, m1)" by (metis prod_cases3)
  with Cons.prems(1) obtain mv1 where mv1: "add_entry s c mv = Some mv1" "collect_ptes env v as mv1 m1 = Some (mv', m')"
    by (auto split: option.splits)
  have "walk_ok m0 mv1 m1"
    using Cons.prems(2) add_entry_entries [OF mv1(1)] add_entry_dst [OF mv1(1)] add_entry_cpages [OF mv1(1)]
      collect_pte_collected [OF _ pte] collect_pte_counted [OF pte]
    by (simp add: walk_ok_def)
  with mv1(2) show ?case by (rule Cons.IH)
qed simp

lemma collect_pmd_ok:
  "migrate_vma_collect_pmd env v views as mv m = Some (mv', m') \<Longrightarrow> walk_ok m0 mv m \<Longrightarrow> walk_ok m0 mv' m'"
  by (induction views)
    (auto simp: Let_def intro: collect_skip_ok collect_hole_ok collect_ptes_ok split: pmd_view.splits if_splits)

lemma walk_page_range_ok:
  "walk_page_range env v ws mv m = Some (mv', m') \<Longrightarrow> walk_ok m0 mv m \<Longrightarrow> walk_ok m0 mv' m'"
proof (induction ws arbitrary: mv m)
  case (Cons w ws)
  then obtain mv1 m1 where step: "walk_page_range env v [w] mv m = Some (mv1, m1)"
    and rest: "walk_page_range env v ws mv1 m1 = Some (mv', m')"
    by (auto split: option.splits)
  have "walk_ok m0 mv1 m1"
    using step Cons.prems(2) by (auto intro: collect_hole_ok collect_pmd_ok split: walk_piece.splits option.splits)
  with rest show ?case by (rule Cons.IH)
qed simp

section \<open>Unmapping\<close>

lemma isolate_same: "isolate_lru_page p m = (True, m') \<Longrightarrow> same_pins m (put_page p m')"
  by (auto simp: isolate_lru_page_def same_pins_def page_simps split: if_splits)

lemma isolate_fails: "isolate_lru_page p m = (False, m') \<Longrightarrow> m' = m"
  by (simp add: isolate_lru_page_def split: if_splits)

lemma putback_same: "same_pins m (putback_lru_page p (get_page p m))"
  by (simp add: same_pins_def page_simps)

lemma unmap_page_same:
  assumes "rmap_ok env" and "unmap_page env fp p m = (ok, m')"
  shows "same_pins m m'"
proof -
  obtain iso m1 where iso: "(if is_zone_device_page (net m) p then (True, m) else isolate_lru_page p m) = (iso, m1)"
    by (metis surj_pair)
  show ?thesis
  proof (cases iso)
    case False
    then have "m' = m" using assms(2) iso by (auto simp: unmap_page_def Let_def isolate_fails split: if_splits)
    then show ?thesis by simp
  next
    case True
    define m2 where "m2 = (if is_zone_device_page (net m) p then m1 else put_page p m1)"
    define m3 where "m3 = (if page_mapped p m2 then try_to_migrate env p m2 else m2)"
    have "same_pins m m2" using iso True isolate_same [of p m m1] by (auto simp: m2_def split: if_splits)
    moreover have "same_pins m2 m3" using assms(1) by (simp add: m3_def rmap_ok_def)
    moreover have "m' = m3 \<or> m' = putback_lru_page p (get_page p m3)"
      using assms(2) iso True by (auto simp: unmap_page_def Let_def m2_def m3_def split: if_splits)
    ultimately show ?thesis using putback_same same_pins_trans by blast
  qed
qed

lemma unmap_loop_ok:
  assumes "rmap_ok env" and "unmap_loop env fp ad ss m = (ss', u, r, m')"
  shows "same_pins m m' \<and> pages_of ss' = pages_of ss \<and> length ss' = length ss
    \<and> ((\<forall>s \<in> set ss. mp_valid s \<longrightarrow> mp_migrate s) \<longrightarrow> u = length (filter mp_migrate ss')
        \<and> r = length (filter (\<lambda>s. mp_valid s \<and> \<not> mp_migrate s) ss'))"
  using assms(2)
proof (induction ss arbitrary: ad m ss' u r m')
  case (Cons s ss)
  show ?case
  proof (cases "mp_valid s")
    case False
    obtain ss1 u1 r1 m1 where rest: "unmap_loop env fp ad ss m = (ss1, u1, r1, m1)" by (metis prod_cases4)
    with Cons.IH [OF rest] Cons.prems False show ?thesis
      by (auto simp: migrate_pfn_to_page_def split: if_splits)
  next
    case True
    let ?p = "mp_page s"
    define d where "d = (\<not> is_zone_device_page (net m) ?p \<and> \<not> on_lru (meta m ?p) \<and> ad)"
    define m0 where "m0 = (if d then drain (me_drained_all env) m else m)"
    obtain ok m1 where ok: "unmap_page env fp ?p m0 = (ok, m1)" by (metis surj_pair)
    obtain ss1 u1 r1 m2 where rest: "unmap_loop env fp (ad \<and> \<not> d) ss m1 = (ss1, u1, r1, m2)" by (metis prod_cases4)
    have "same_pins m m0" by (simp add: m0_def same_pins_drain)
    then have "same_pins m m1" using unmap_page_same [OF assms(1) ok] by (rule same_pins_trans)
    then have same: "same_pins m m2" using Cons.IH [OF rest] same_pins_trans by blast
    have "(if ok then (s # ss1, u1 + 1, r1, m2) else (stop_migrating s # ss1, u1, r1 + 1, m2)) = (ss', u, r, m')"
      using Cons.prems True ok rest by (simp add: migrate_pfn_to_page_def Let_def d_def m0_def split: if_splits)
    with Cons.IH [OF rest] same True show ?thesis by (auto split: if_splits)
  qed
qed simp

definition pinned_back :: "mpfn \<Rightarrow> bool" where
  "pinned_back s \<longleftrightarrow> mp_valid s \<and> \<not> mp_migrate s"

definition restored :: "mpfn list \<Rightarrow> mpfn list" where
  "restored ss = map (\<lambda>s. if pinned_back s then no_pfn else s) ss"

lemma restored_simps [simp]:
  "restored [] = []" "restored (s # ss) = (if pinned_back s then no_pfn else s) # restored ss"
  by (simp_all add: restored_def)

lemma count_list_distinct: "distinct xs \<Longrightarrow> count_list xs x = of_bool (x \<in> set xs)"
  by (induction xs) auto

lemma restore_loop_nothing: "filter pinned_back ss = [] \<Longrightarrow> restored ss = ss"
  by (induction ss) (simp_all split: if_splits)

lemma restore_loop_effect:
  assumes "rmap_ok env" and "restore_loop env r ss m = (ss', m')" and "r = length (filter pinned_back ss)"
  shows "ss' = restored ss \<and> (\<forall>q. is_locked m' q = (is_locked m q \<and> q \<notin> set (pages_of (filter pinned_back ss))))
    \<and> (\<forall>q. pins m' q = pins m q - int (count_list (pages_of (filter pinned_back ss)) q)) \<and> net m' = net m"
  using assms(2-)
proof (induction ss arbitrary: r m ss' m')
  case Nil
  then show ?case by (simp add: restored_def)
next
  case (Cons s ss)
  show ?case
  proof (cases "pinned_back s")
    case False
    show ?thesis
    proof (cases r)
      case 0
      then have none: "filter pinned_back (s # ss) = []" using Cons.prems(2) by simp
      then have "restored (s # ss) = s # ss" by (rule restore_loop_nothing)
      moreover have "ss' = s # ss" "m' = m" using Cons.prems(1) 0 by simp_all
      ultimately show ?thesis unfolding none by simp
    next
      case (Suc r')
      obtain ss1 where rest: "restore_loop env r ss m = (ss1, m')" and "ss' = s # ss1"
        using Cons.prems(1) False Suc by (auto simp: pinned_back_def migrate_pfn_to_page_def split: prod.splits if_splits)
      then show ?thesis using Cons.IH [OF rest] Cons.prems(2) False by simp
    qed
  next
    case True
    then obtain r' where r: "r = Suc r'" "r' = length (filter pinned_back ss)" using Cons.prems(2) by simp
    let ?p = "mp_page s"
    let ?m = "put_page ?p (unlock_page ?p (remove_migration_ptes env ?p ?p m))"
    obtain ss1 where rest: "restore_loop env r' ss ?m = (ss1, m')" and ss': "ss' = no_pfn # ss1"
      using Cons.prems(1) True r(1) by (auto simp: pinned_back_def migrate_pfn_to_page_def split: prod.splits)
    have "same_pins m (remove_migration_ptes env ?p ?p m)" using assms(1) by (simp add: rmap_ok_def)
    then have "is_locked ?m = (is_locked m)(?p := False)" "pins ?m = (pins m)(?p := pins m ?p - 1)" "net ?m = net m"
      by (simp_all add: page_simps same_pins_def)
    then show ?thesis
      using Cons.IH [OF rest r(2)] True ss' by (simp add: pinned_back_def [of s])
  qed
qed

lemma pages_of_split:
  "set (pages_of ss) = set (pages_of (filter pinned_back ss)) \<union> set (pages_of (restored ss))"
  "distinct (pages_of ss) \<Longrightarrow> distinct (pages_of (filter pinned_back ss)) \<and> distinct (pages_of (restored ss))
    \<and> set (pages_of (filter pinned_back ss)) \<inter> set (pages_of (restored ss)) = {}"
proof -
  show un: "set (pages_of ss) = set (pages_of (filter pinned_back ss)) \<union> set (pages_of (restored ss))" for ss
    by (induction ss) (auto simp: pinned_back_def)
  show "distinct (pages_of ss) \<Longrightarrow> distinct (pages_of (filter pinned_back ss)) \<and> distinct (pages_of (restored ss))
    \<and> set (pages_of (filter pinned_back ss)) \<inter> set (pages_of (restored ss)) = {}"
  proof (induction ss)
    case (Cons s ss)
    then show ?case
      using un [of ss] by (cases "mp_valid s"; cases "pinned_back s") (auto simp: pinned_back_def [of s])
  qed simp
qed

lemma restored_facts:
  "length (restored ss) = length ss" "filter mp_migrate (restored ss) = filter mp_migrate ss"
  "s \<in> set (restored ss) \<Longrightarrow> mp_valid s \<Longrightarrow> mp_migrate s"
  by (induction ss) (auto simp: pinned_back_def split: if_splits)

text \<open>The whole of \<open>migrate_device_unmap\<close>: what it still marks it holds, the rest it has given back.\<close>

lemma device_unmap_ok:
  assumes "rmap_ok env" and "migrate_device_unmap env fp src m = (src', u, m')" and "collected m0 src m"
  shows "collected m0 src' m' \<and> length src' = length src \<and> u = length (filter mp_migrate src')"
proof -
  obtain s1 u1 r m1 where loop: "unmap_loop env fp True src (drain (me_drained env) m) = (s1, u1, r, m1)"
    by (metis prod_cases4)
  then have rest: "restore_loop env r s1 m1 = (src', m')" and u: "u = u1"
    using assms(2) by (auto simp: migrate_device_unmap_def split: prod.splits)
  note l = unmap_loop_ok [OF assms(1) loop]
  have r: "r = length (filter pinned_back s1)" and u1: "u1 = length (filter mp_migrate s1)"
    using l assms(3) by (simp_all add: collected_def pinned_back_def [abs_def])
  have "same_pins m m1" using l same_pins_drain same_pins_trans by blast
  then have h: "holds m0 (set (pages_of s1)) m1" and d: "distinct (pages_of s1)"
    using assms(3) l by (auto simp: collected_def intro: holds_same)
  note eff = restore_loop_effect [OF assms(1) rest r] and split = pages_of_split(2) [OF d]
  have "holds m0 (set (pages_of (restored s1))) m'"
    using h eff split pages_of_split(1) [of s1]
    by (auto simp: holds_def count_list_distinct)
  then show ?thesis
    using eff split l u u1 restored_facts(1,2) [of s1] by (auto simp: collected_def restored_facts(3))
qed

section \<open>Setting up\<close>

lemma pages_of_replicate [simp]: "pages_of (replicate n no_pfn) = []"
  by (simp add: pages_of_def)

lemma pages_of_all_empty: "pages_of ss = [] \<longleftrightarrow> (\<forall>s \<in> set ss. \<not> mp_valid s)"
  by (auto simp: pages_of_def filter_empty_conv)

lemma setup_walk_ok:
  assumes "rmap_ok env" and "migrate_vma_setup env ws args m = Some (0, mv, m')"
  shows "walk_ok m mv m'"
proof -
  obtain args1 v mv1 m1 where collect: "migrate_vma_collect env v ws args1 m = Some (mv1, m1)"
    and start: "mv_npages args1 = 0" "mv_cpages args1 = 0"
    and fin: "(mv, m') = (if mv_cpages mv1 \<noteq> 0 then migrate_vma_unmap env mv1 m1 else (mv1, m1))"
    using assms(2) by (auto simp: migrate_vma_setup_def Let_def split: option.splits if_splits prod.splits)
  have "walk_ok m args1 m" using start by (simp add: walk_ok_def entries_def collected_def)
  then have walk: "walk_ok m mv1 m1"
    using collect by (auto simp: migrate_vma_collect_def walk_ok_def entries_def dest: walk_page_range_ok)
  show ?thesis
  proof (cases "mv_cpages mv1 = 0")
    case False
    then obtain src u where un: "migrate_device_unmap env (mv_fault_page mv1) (entries mv1) m1 = (src, u, m')"
      and mv: "mv = mv1\<lparr>mv_src := src @ drop (mv_npages mv1) (mv_src mv1), mv_cpages := u\<rparr>"
      using fin by (auto simp: migrate_vma_unmap_def entries_def Let_def split: prod.splits)
    have "collected m (entries mv1) m1" using walk by (simp add: walk_ok_def)
    note device_unmap_ok [OF assms(1) un this]
    moreover from this have "entries mv = src" using mv walk by (simp add: entries_def walk_ok_def)
    ultimately show ?thesis using walk mv by (simp add: walk_ok_def entries_def)
  qed (use fin walk in simp)
qed

section \<open>A small migration\<close>

text \<open>Page 5 is mapped at frame 16 of an anonymous area.\<close>

definition plain_page :: page_meta where
  "plain_page = \<lparr>refcount = 1, mapcount = 1, locked = False, on_lru = True, compound = False, has_mapping = True,
     file_backed = False, has_private = False, anon = True, anon_exclusive = True, marked_dirty = False, uptodate = True\<rparr>"

definition small_mm :: mm_state where
  "small_mm = \<lparr>net = idle_udp, meta = (\<lambda>_. plain_page),
     ptes = (\<lambda>_. Pte_none)(16 := Pte_present 5 True \<lparr>f_young = True, f_dirty = False, f_soft_dirty = False, f_uffd_wp = False\<rparr>)\<rparr>"

text \<open>A reverse mapping that finds every migration entry of the one page table there is.\<close>

definition migration_frames :: "page \<Rightarrow> mm_state \<Rightarrow> nat set" where
  "migration_frames p m = {a. \<exists>k fl. ptes m a = Pte_migration p k fl}"

definition table_rmap :: "page \<Rightarrow> page \<Rightarrow> mm_state \<Rightarrow> mm_state" where
  "table_rmap p q m =
    (let n = int (card (migration_frames p m))
     in set_meta q (\<lambda>pm. pm\<lparr>refcount := refcount pm + n, mapcount := mapcount pm + n\<rparr>)
       (m\<lparr>ptes := (\<lambda>a. case ptes m a of
           Pte_migration p' k fl \<Rightarrow> if p' = p then Pte_present q (k = Mig_writable) fl else ptes m a
         | _ \<Rightarrow> ptes m a)\<rparr>))"

definition small_mm_env :: mm_env where
  "small_mm_env = \<lparr>me_zero = 0, me_special = (\<lambda>_. False), me_share_fails = (\<lambda>_. False), me_drained = (\<lambda>_. False),
     me_drained_all = (\<lambda>_. False), try_to_migrate = (\<lambda>_ m. m), remove_migration_ptes = table_rmap\<rparr>"

definition small_args :: migrate_vma where
  "small_args = \<lparr>mv_vma = Some \<lparr>vma_start = 0x10000, vma_end = 0x20000, vma_anonymous = True, vma_hugetlb = False,
       vma_special = False, vma_dax = False, vma_write = True\<rparr>,
     mv_dst = [no_pfn, no_pfn], mv_src = [no_pfn, no_pfn], mv_cpages = 0, mv_npages = 0, mv_start = 0x10000, mv_end = 0x12000,
     mv_owner = 0, mv_flags = {SELECT_SYSTEM}, mv_fault_page = None\<rparr>"

definition small_walk :: "walk_piece list" where
  "small_walk = [Walk_pmd [Pmd_raced, Pmd_table] [16, 17]]"

lemma small_rmap_ok: "rmap_ok small_mm_env"
proof -
  have "is_locked (table_rmap p q m) = is_locked m" "pins (table_rmap p q m) = pins m" "net (table_rmap p q m) = net m" for p q m
    by (simp_all add: table_rmap_def is_locked_def pins_def set_meta_def Let_def fun_eq_iff)
  then show ?thesis by (simp add: rmap_ok_def small_mm_env_def same_pins_def)
qed

lemma small_setup:
  "\<exists>mv m'. migrate_vma_setup small_mm_env small_walk small_args small_mm = Some (0, mv, m')
    \<and> entries mv = [(migrate_pfn 5)\<lparr>mp_migrate := True, mp_write := True\<rparr>, hole_pfn]
    \<and> mv_npages mv = 2 \<and> mv_dst mv = [no_pfn, no_pfn] \<and> length (mv_src mv) = 2"
proof -
  have net: "net small_mm = idle_udp" "pgmap idle_udp = Map.empty" by (simp_all add: small_mm_def idle_udp_def)
  have zone: "\<not> is_zone_device_page idle_udp p" "\<not> is_device_page t idle_udp p" for p t
    by (simp_all add: is_zone_device_page_def is_device_page_def dmirror_page_to_chunk_def net)
  have two: "replicate 2 x = [x, x]" for x :: mpfn by (simp add: numeral_2_eq_2)
  show ?thesis
    by (simp add: migrate_vma_setup_def small_args_def small_walk_def small_mm_def PAGE_MASK_def migrate_vma_collect_def
        collect_pte_def take_page_def add_entry_def small_mm_env_def usable_def plain_page_def Let_def zone
        get_page_def lock_page_def put_page_def set_meta_def migrate_vma_unmap_def migrate_device_unmap_def drain_def
        unmap_page_def isolate_lru_page_def page_mapped_def migrate_vma_check_page_def migrate_pfn_to_page_def
        migrate_pfn_def hole_pfn_def no_pfn_def entries_def two)
qed



section \<open>Finishing\<close>

text \<open>The pages whose lock and pin an entry of \<open>src\<close> and one of \<open>dst\<close> stand for.\<close>

definition released :: "mpfn list \<Rightarrow> mpfn list \<Rightarrow> mm_state \<Rightarrow> mm_state \<Rightarrow> bool" where
  "released ss ds m m' \<longleftrightarrow>
     (\<forall>q. is_locked m' q = (is_locked m q \<and> q \<notin> set (pages_of ss) \<and> q \<notin> set (pages_of ds)))
     \<and> (\<forall>q. pins m' q = pins m q - int (count_list (pages_of ss) q) - int (count_list (pages_of ds) q)) \<and> net m' = net m"

lemma released_nil [simp]: "released [] [] m m"
  by (simp add: released_def)

lemma released_Cons: "released [s] [d] m m1 \<Longrightarrow> released ss ds m1 m' \<Longrightarrow> released (s # ss) (d # ds) m m'"
  by (auto simp: released_def)

lemma finalize_entry_released:
  assumes "rmap_ok env" and "mp_valid s \<Longrightarrow> mp_valid d \<Longrightarrow> mp_page s \<noteq> mp_page d"
  shows "released [s] [d] m (finalize_entry env s d m)"
proof -
  let ?p = "mp_page s" and ?n = "mp_page d"
  have same: "is_locked (remove_migration_ptes env p q m) = is_locked m"
    "pins (remove_migration_ptes env p q m) = pins m" "net (remove_migration_ptes env p q m) = net m" for p q m
    using assms(1) by (simp_all add: rmap_ok_def same_pins_def)
  show ?thesis
    using assms(2)
    by (cases "mp_valid s"; cases "mp_valid d"; cases "mp_migrate s")
      (auto simp: released_def finalize_entry_def migrate_pfn_to_page_def drop_new_def Let_def page_simps same)
qed

lemma finalize_released:
  assumes "rmap_ok env" and "length ss = length ds" and "set (pages_of ss) \<inter> set (pages_of ds) = {}"
  shows "released ss ds m (migrate_device_finalize env ss ds m)"
  using assms(2,3)
proof (induction ss ds arbitrary: m rule: list_induct2)
  case (Cons s ss d ds)
  have "released [s] [d] m (finalize_entry env s d m)"
    by (rule finalize_entry_released [OF assms(1)]) (use Cons.prems in auto)
  moreover have "released ss ds (finalize_entry env s d m) (migrate_device_finalize env ss ds (finalize_entry env s d m))"
    by (rule Cons.IH) (use Cons.prems in \<open>auto split: if_splits\<close>)
  ultimately show ?case by (simp add: released_Cons)
qed simp

text \<open>
  What a driver does between setting up and finishing: it fills in destinations, pages that it has locked
  and holds one reference of; flags of \<open>src\<close> may be cleared, but the array names the same pages.
\<close>

definition driver_step :: "migrate_vma \<Rightarrow> mm_state \<Rightarrow> migrate_vma \<Rightarrow> mm_state \<Rightarrow> bool" where
  "driver_step mv m mv' m' \<longleftrightarrow>
     (let src = pages_of (entries mv); dst = pages_of (take (mv_npages mv') (mv_dst mv')) in
      pages_of (entries mv') = src \<and> mv_npages mv' = mv_npages mv
      \<and> mv_npages mv' \<le> length (mv_src mv') \<and> mv_npages mv' \<le> length (mv_dst mv')
      \<and> distinct dst \<and> set dst \<inter> set src = {} \<and> (\<forall>p \<in> set dst. \<not> is_locked m p)
      \<and> is_locked m' = (\<lambda>p. is_locked m p \<or> p \<in> set dst) \<and> pins m' = (\<lambda>p. pins m p + of_bool (p \<in> set dst)))"

lemma driver_step_balanced:
  assumes "rmap_ok env" and "walk_ok m mv m1" and "driver_step mv m1 mv' m2"
  shows "is_locked (migrate_vma_finalize env mv' m2) = is_locked m \<and> pins (migrate_vma_finalize env mv' m2) = pins m"
proof -
  let ?src = "entries mv'" and ?dst = "take (mv_npages mv') (mv_dst mv')"
  have "released ?src ?dst m2 (migrate_vma_finalize env mv' m2)"
    unfolding migrate_vma_finalize_def entries_def [symmetric]
    by (rule finalize_released [OF assms(1)]) (use assms(3) in \<open>auto simp: driver_step_def Let_def entries_def\<close>)
  then show ?thesis
    using assms(2,3)
    by (auto simp: released_def driver_step_def Let_def walk_ok_def collected_def holds_def count_list_distinct fun_eq_iff)
qed



end
