(* ===== verification/Migrate_Pages.thy ===== *)
theory Migrate_Pages
  imports Migrate_Balance
begin

text \<open>
  The middle of a migration in \<open>mm/migrate_device.c\<close>: \<open>retrieve_page\<close>, which asks another machine for the source
  page, \<open>__migrate_device_pages\<close> and \<open>migrate_vma_insert_page\<close>, and the migration of one coherent page. It is
  shown that no page can be migrated with this version of \<open>retrieve_page\<close>.
\<close>

unbundle bit_operations_syntax

section \<open>Asking for a page\<close>

text \<open>A value of type \<open>struct page *\<close>: null, a page, or an integer that was made into a pointer.\<close>

datatype page_ptr = Ptr_null | Ptr page | Ptr_int int

record retrieve_env =
  re_created :: "int \<times> nat"
  re_aton :: "u8 list \<Rightarrow> u32"
  re_send :: int
  re_request :: int
  re_stack :: "nat \<Rightarrow> u8"
  re_recv :: "recv_env list"

definition retrieve_page :: "retrieve_env \<Rightarrow> int \<Rightarrow> udp_state \<Rightarrow> (page_ptr \<times> udp_state) option" where
  "retrieve_page e page_number k =
    (let (r, k) = nmsg_init_client (re_created e) (re_aton e) (literal ''172.16.26.100'') 11111 k
     in if r < 0 then Some (Ptr_int (- 1), k)
        else case nmsg_send_message (re_send e) (literal ''retrieve_pages'' @ [0]) k of
          None \<Rightarrow> None
        | Some (r, k) \<Rightarrow>
        if r < 0 then map_option (\<lambda>k. (Ptr_int (- 1), k)) (nmsg_destroy_client k)
        else case nmsg_retrieve_pages (re_request e) (re_stack e) (re_recv e) page_number k of
          None \<Rightarrow> None
        | Some (r, k) \<Rightarrow>
            let page = (if r = 0 then Ptr_null else Ptr_int r)
            in if page = Ptr_null then map_option (\<lambda>k. (Ptr_int (- 1), k)) (nmsg_destroy_client k)
               else map_option (\<lambda>k. (page, k)) (nmsg_destroy_client k))"

text \<open>The argument is the entry of \<open>src\<close>, with its flags, as an \<open>int\<close>.\<close>

definition mpfn_word :: "mpfn \<Rightarrow> u64" where
  "mpfn_word s = of_bool (mp_valid s) OR push_bit 1 (of_bool (mp_migrate s)) OR push_bit 3 (of_bool (mp_write s))
     OR push_bit 6 (of_nat (mp_page s))"

definition page_number :: "mpfn \<Rightarrow> int" where
  "page_number s = sint (ucast (mpfn_word s) :: u32)"

section \<open>Moving the meta-data\<close>

text \<open>
  The results of the calls in \<open>migrate_vma_insert_page\<close>, in their order: the three table allocations, the test
  for a huge entry, \<open>pte_alloc\<close>, \<open>pmd_trans_unstable\<close>, \<open>anon_vma_prepare\<close>, \<open>mem_cgroup_charge\<close>,
  \<open>check_stable_address_space\<close> and \<open>userfaultfd_missing\<close>.
\<close>

record insert_env =
  in_p4d :: bool
  in_pud :: bool
  in_pmd :: bool
  in_huge :: bool
  in_pte_alloc :: int
  in_unstable :: bool
  in_anon_vma :: int
  in_charge :: int
  in_check_stable :: int
  in_userfaultfd :: bool

definition insert_mapping :: "nat \<Rightarrow> pte \<Rightarrow> page \<Rightarrow> mm_state \<Rightarrow> mm_state" where
  "insert_mapping a entry p m =
    (let m = set_meta p (\<lambda>pm. pm\<lparr>mapcount := 1, has_mapping := True, anon := True, anon_exclusive := True\<rparr>) m;
         m = (if is_zone_device_page (net m) p then m else set_meta p (\<lambda>pm. pm\<lparr>on_lru := True\<rparr>) m);
         m = get_page p m
     in m\<lparr>ptes := (ptes m)(a := entry)\<rparr>)"

definition migrate_vma_insert_page ::
  "mm_env \<Rightarrow> insert_env \<Rightarrow> vma \<Rightarrow> nat \<Rightarrow> page \<Rightarrow> mpfn \<Rightarrow> mm_state \<Rightarrow> mpfn \<times> mm_state" where
  "migrate_vma_insert_page env e v a p s m =
    (let fl = \<lparr>f_young = False, f_dirty = vma_write v, f_soft_dirty = False, f_uffd_wp = False\<rparr>;
         device_private = is_device_page MEMORY_DEVICE_PRIVATE (net m) p
     in if \<not> vma_anonymous v then (stop_migrating s, m)
        else if \<not> in_p4d e \<or> \<not> in_pud e \<or> \<not> in_pmd e then (stop_migrating s, m)
        else if in_huge e then (stop_migrating s, m)
        else if in_pte_alloc e \<noteq> 0 then (stop_migrating s, m)
        else if in_unstable e then (stop_migrating s, m)
        else if in_anon_vma e \<noteq> 0 then (stop_migrating s, m)
        else if in_charge e \<noteq> 0 then (stop_migrating s, m)
        else let m = set_meta p (\<lambda>pm. pm\<lparr>uptodate := True\<rparr>) m
        in if \<not> device_private \<and> is_zone_device_page (net m) p \<and> \<not> is_device_page MEMORY_DEVICE_COHERENT (net m) p
           then (stop_migrating s, m)
           else let entry = (if device_private then Pte_device p (vma_write v) (fl\<lparr>f_dirty := False\<rparr>) else Pte_present p (vma_write v) fl)
           in if in_check_stable e \<noteq> 0 then (stop_migrating s, m)
              else if (case ptes m a of Pte_none \<Rightarrow> False | Pte_present q w fl \<Rightarrow> q \<noteq> me_zero env | _ \<Rightarrow> True) then (stop_migrating s, m)
              else if in_userfaultfd e then (stop_migrating s, m)
              else (hole_pfn, insert_mapping a entry p m))"

text \<open>For each entry: the answers for \<open>retrieve_page\<close> and \<open>migrate_vma_insert_page\<close>, and \<open>migrate_folio\<close>.\<close>

record pages_env =
  pe_retrieve :: retrieve_env
  pe_insert :: insert_env
  pe_migrate_folio :: "page \<Rightarrow> page \<Rightarrow> mm_state \<Rightarrow> int \<times> mm_state"

definition move_page :: "pages_env \<Rightarrow> page \<Rightarrow> page \<Rightarrow> mpfn \<Rightarrow> mm_state \<Rightarrow> mpfn \<times> mm_state" where
  "move_page e p newpage s m =
    (let mapping = file_backed (meta m p);
         supported = (if is_device_page MEMORY_DEVICE_PRIVATE (net m) newpage \<or> is_device_page MEMORY_DEVICE_COHERENT (net m) newpage
           then \<not> mapping else \<not> is_zone_device_page (net m) newpage)
     in if \<not> supported then (stop_migrating s, m)
        else let (r, m) = pe_migrate_folio e newpage p m in if r \<noteq> 0 then (stop_migrating s, m) else (s, m))"

definition device_page :: "mm_env \<Rightarrow> migrate_vma option \<Rightarrow> nat \<Rightarrow> pages_env \<Rightarrow> mpfn \<Rightarrow> mpfn \<Rightarrow> mm_state \<Rightarrow> (mpfn \<times> mm_state) option" where
  "device_page env migrate i e s d m =
    (case retrieve_page (pe_retrieve e) (page_number s) (net m) of
       None \<Rightarrow> None
     | Some (page, k) \<Rightarrow>
     let m = m\<lparr>net := k\<rparr>
     in case migrate_pfn_to_page d of
       None \<Rightarrow> Some (stop_migrating s, m)
     | Some newpage \<Rightarrow>
     case page of
       Ptr_null \<Rightarrow>
         if \<not> mp_migrate s then Some (s, m)
         else (case migrate of
             None \<Rightarrow> None
           | Some mv \<Rightarrow>
               (case mv_vma mv of
                  None \<Rightarrow> None
                | Some v \<Rightarrow>
                    let addr = mv_start mv + of_nat i * PAGE_SIZE
                    in Some (migrate_vma_insert_page env (pe_insert e) v (unat (drop_bit PAGE_SHIFT addr)) newpage s m)))
     | Ptr p \<Rightarrow> Some (move_page e p newpage s m)
     | Ptr_int _ \<Rightarrow> None)"

fun migrate_device_pages_loop ::
  "mm_env \<Rightarrow> migrate_vma option \<Rightarrow> nat \<Rightarrow> pages_env list \<Rightarrow> mpfn list \<Rightarrow> mpfn list \<Rightarrow> mm_state \<Rightarrow> (mpfn list \<times> mm_state) option"
where
  "migrate_device_pages_loop env migrate i (e # es) (s # ss) (d # ds) m =
    (case device_page env migrate i e s d m of
       None \<Rightarrow> None
     | Some (s, m) \<Rightarrow> map_option (\<lambda>(ss, m). (s # ss, m)) (migrate_device_pages_loop env migrate (i + 1) es ss ds m))"
| "migrate_device_pages_loop env migrate i es [] [] m = Some ([], m)"
| "migrate_device_pages_loop env migrate i _ _ _ m = None"

definition migrate_device_pages ::
  "mm_env \<Rightarrow> pages_env list \<Rightarrow> mpfn list \<Rightarrow> mpfn list \<Rightarrow> mm_state \<Rightarrow> (mpfn list \<times> mm_state) option" where
  "migrate_device_pages env es src dst m = migrate_device_pages_loop env None 0 es src dst m"

definition migrate_vma_pages :: "mm_env \<Rightarrow> pages_env list \<Rightarrow> migrate_vma \<Rightarrow> mm_state \<Rightarrow> (migrate_vma \<times> mm_state) option" where
  "migrate_vma_pages env es mv m =
    (let n = mv_npages mv
     in map_option (\<lambda>(src, m). (mv\<lparr>mv_src := src @ drop n (mv_src mv)\<rparr>, m))
          (migrate_device_pages_loop env (Some mv) 0 es (take n (mv_src mv)) (take n (mv_dst mv)) m))"

text \<open>\<open>alloc\<close> is the result of \<open>alloc_page\<close>, whose page has one reference.\<close>

definition migrate_device_coherent_page ::
  "mm_env \<Rightarrow> page option \<Rightarrow> pages_env \<Rightarrow> page \<Rightarrow> mm_state \<Rightarrow> (int \<times> mm_state) option" where
  "migrate_device_coherent_page env alloc e page m =
    (let m = lock_page page m;
         (src, unmapped, m) = migrate_device_unmap env None [(migrate_pfn page)\<lparr>mp_migrate := True\<rparr>] m
     in if \<not> mp_migrate (hd src) then Some (- EBUSY, m)
        else let (dst, m) = (case alloc of
                None \<Rightarrow> (no_pfn, m)
              | Some dpage \<Rightarrow> (migrate_pfn dpage, lock_page dpage (set_meta dpage (\<lambda>pm. pm\<lparr>refcount := 1, mapcount := 0\<rparr>) m)))
        in case migrate_device_pages env [e] src [dst] m of
          None \<Rightarrow> None
        | Some (src, m) \<Rightarrow>
            let m = (if mp_migrate (hd src)
                     then m\<lparr>net := copy_highpage (mp_page dst) page (net m)\<rparr> else m);
                m = migrate_device_finalize env src [dst] m
            in Some (if mp_migrate (hd src) then 0 else - EBUSY, m))"

section \<open>The result of \<open>retrieve_page\<close>\<close>

text \<open>What receiving leaves alone.\<close>

lemma retrieve_loop_result:
  "retrieve_loop es is stack k = Some (r, k') \<Longrightarrow> (r = 0 \<or> r = - 1) \<and> socks k' = socks k \<and> cl_sock k' = cl_sock k"
  by (induction es "is" stack k rule: retrieve_loop.induct)
    (auto simp: Let_def split: if_splits option.splits)

lemma send_message_result:
  "nmsg_send_message ret msg k = Some (r, k') \<Longrightarrow> (r = 0 \<or> r = - 1) \<and> socks k' = socks k \<and> cl_sock k' = cl_sock k"
  by (auto simp: nmsg_send_message_def Let_def split: option.splits if_splits)

lemma retrieve_pages_result:
  assumes "nmsg_retrieve_pages ret stack es n k = Some (r, k')"
  shows "(r = 0 \<or> r = - 1) \<and> socks k' = socks k \<and> cl_sock k' = cl_sock k"
proof -
  obtain r1 k1 where k1: "nmsg_send_message ret request_message k = Some (r1, k1)"
    using assms by (auto simp: nmsg_retrieve_pages_def split: option.splits)
  then have "r = - 1 \<and> k' = k1 \<or> retrieve_loop es [0..<nat n] (request_frame stack) k1 = Some (r, k')"
    using assms by (auto simp: nmsg_retrieve_pages_def split: if_splits)
  then show ?thesis using send_message_result [OF k1] retrieve_loop_result by fastforce
qed

lemma retrieve_page_result:
  assumes "retrieve_page e n k = Some (p, k')"
  shows "p = Ptr_int (- 1) \<and> (snd (re_created e) \<notin> socks k \<longrightarrow> socks k' = socks k)"
proof -
  obtain c t where c: "re_created e = (c, t)" by (metis surj_pair)
  obtain r k1 where k1: "nmsg_init_client (c, t) (re_aton e) (literal ''172.16.26.100'') 11111 k = (r, k1)"
    by (metis surj_pair)
  have one: "r < 0 \<and> k1 = k \<or> r = 0 \<and> cl_sock k1 = Some t \<and> socks k1 = insert t (socks k)"
    using k1 by (auto simp: nmsg_init_client_def split: if_splits)
  have closes: "socks k3 = socks k" if "nmsg_destroy_client k2 = Some k3" "socks k2 = socks k1" "cl_sock k2 = cl_sock k1"
      "r = 0" "t \<notin> socks k" for k2 k3
    using that one by (auto simp: nmsg_destroy_client_def sock_release_def)
  show ?thesis
  proof (cases "r < 0")
    case True
    then show ?thesis using assms c k1 one by (auto simp: retrieve_page_def)
  next
    case False
    with one have r: "r = 0" by simp
    obtain r2 k2 where k2: "nmsg_send_message (re_send e) (literal ''retrieve_pages'' @ [0]) k1 = Some (r2, k2)"
      using assms c k1 False by (auto simp: retrieve_page_def split: option.splits)
    note s2 = send_message_result [OF k2]
    show ?thesis
    proof (cases "r2 < 0")
      case True
      then show ?thesis using assms c k1 k2 False r s2 closes [of k2] by (auto simp: retrieve_page_def)
    next
      case ok: False
      obtain r3 k3 where k3: "nmsg_retrieve_pages (re_request e) (re_stack e) (re_recv e) n k2 = Some (r3, k3)"
        using assms c k1 k2 False ok by (auto simp: retrieve_page_def split: option.splits)
      have "p = Ptr_int (- 1) \<and> nmsg_destroy_client k3 = Some k'"
        using assms c k1 k2 k3 False ok retrieve_pages_result [OF k3] by (auto simp: retrieve_page_def Let_def split: if_splits)
      then show ?thesis using r s2 retrieve_pages_result [OF k3] closes [of k3 k'] by (simp add: c)
    qed
  qed
qed

text \<open>
  \<open>retrieve_page\<close> never returns a page: whatever the network does, its result, when there is
  one, is the integer -1 made into a pointer, which is not null either. The success of \<open>nmsg_retrieve_pages\<close>,
  0, is taken for the failure. The socket it opens is closed on every path.
\<close>

theorem retrieve_page_never_a_page:
  assumes "retrieve_page e n k = Some (p, k')" and "snd (re_created e) \<notin> socks k"
  shows "p = Ptr_int (- 1) \<and> p \<noteq> Ptr_null \<and> (\<forall>q. p \<noteq> Ptr q) \<and> socks k' = socks k"
  using retrieve_page_result [OF assms(1)] assms(2) by simp

text \<open>A server that answers with one page, and a network that is down.\<close>

definition good_network :: retrieve_env where
  "good_network = \<lparr>re_created = (0, 8), re_aton = (\<lambda>_. 0), re_send = 0, re_request = 0, re_stack = (\<lambda>_. 0),
     re_recv = [received 20]\<rparr>"

definition no_network :: retrieve_env where
  "no_network = \<lparr>re_created = (- 97, 8), re_aton = (\<lambda>_. 0), re_send = 0, re_request = 0, re_stack = (\<lambda>_. 0), re_recv = []\<rparr>"

lemma good_network_run: "\<exists>p k'. retrieve_page good_network 1 idle_udp = Some (p, k') \<and> sys_pages k' = {9, 20}"
  by (auto simp: retrieve_page_def good_network_def nmsg_init_client_def nmsg_send_message_def nmsg_retrieve_pages_def
      nmsg_destroy_client_def sock_release_def received_def update_entry_def idle_udp_def Let_def
      simp del: upt_rec_numeral)

theorem retrieve_page_never_a_page_witness:
  "\<exists>k'. retrieve_page good_network 1 idle_udp = Some (Ptr_int (- 1), k') \<and> socks k' = {}"
  using good_network_run retrieve_page_never_a_page [of good_network 1 idle_udp] by (auto simp: good_network_def)

section \<open>No page is moved\<close>

lemma device_page_result:
  "device_page env migrate i e s d m = (if mp_valid d then None else
     map_option (\<lambda>(_, k). (stop_migrating s, m\<lparr>net := k\<rparr>)) (retrieve_page (pe_retrieve e) (page_number s) (net m)))"
proof (cases "retrieve_page (pe_retrieve e) (page_number s) (net m)")
  case (Some r)
  then obtain p k where "r = (p, k)" and "retrieve_page (pe_retrieve e) (page_number s) (net m) = Some (p, k)"
    by (cases r) auto
  moreover from this have "p = Ptr_int (- 1)" using retrieve_page_result by blast
  ultimately show ?thesis by (simp add: device_page_def migrate_pfn_to_page_def)
qed (simp add: device_page_def)

lemma device_pages_loop_result:
  assumes "migrate_device_pages_loop env migrate i es src dst m = Some (src', m')"
  shows "(\<forall>d \<in> set dst. \<not> mp_valid d) \<and> src' = map stop_migrating src \<and> length src = length dst
    \<and> meta m' = meta m \<and> ptes m' = ptes m"
  using assms
proof (induction env migrate i es src dst m arbitrary: src' m' rule: migrate_device_pages_loop.induct)
  case (1 env migrate i e es s ss d ds m)
  then obtain s1 m1 ss1 where one: "device_page env migrate i e s d m = Some (s1, m1)"
    and rest: "migrate_device_pages_loop env migrate (i + 1) es ss ds m1 = Some (ss1, m')" and src': "src' = s1 # ss1"
    by (auto split: option.splits)
  have "\<not> mp_valid d \<and> s1 = stop_migrating s \<and> meta m1 = meta m \<and> ptes m1 = ptes m"
    using one by (auto simp: device_page_result split: if_splits)
  then show ?case using "1.IH" [OF one refl rest] src' by simp
qed auto

text \<open>
  C14. With this \<open>retrieve_page\<close> no page is ever migrated. As soon as the driver has supplied a destination
  for an entry, \<open>__migrate_device_pages\<close> dereferences the pointer -1; if it returns, there was no destination at
  all, every entry has lost its mark, and neither a page nor the page table has changed.
\<close>

theorem migrate_vma_pages_never_moves:
  assumes "migrate_vma_pages env es mv m = Some (mv', m')"
  shows "(\<forall>d \<in> set (take (mv_npages mv) (mv_dst mv)). \<not> mp_valid d)
    \<and> mv' = mv\<lparr>mv_src := map stop_migrating (entries mv) @ drop (mv_npages mv) (mv_src mv)\<rparr>
    \<and> meta m' = meta m \<and> ptes m' = ptes m"
  using assms device_pages_loop_result by (fastforce simp: migrate_vma_pages_def entries_def Let_def)

definition no_insert :: insert_env where
  "no_insert = \<lparr>in_p4d = True, in_pud = True, in_pmd = True, in_huge = False, in_pte_alloc = 0, in_unstable = False,
     in_anon_vma = 0, in_charge = 0, in_check_stable = 0, in_userfaultfd = False\<rparr>"

definition small_pages_env :: pages_env where
  "small_pages_env = \<lparr>pe_retrieve = no_network, pe_insert = no_insert, pe_migrate_folio = (\<lambda>_ _ m. (0, m))\<rparr>"

lemma no_network_run: "retrieve_page no_network n k = Some (Ptr_int (- 1), k)"
  by (simp add: retrieve_page_def no_network_def nmsg_init_client_def)

theorem migrate_vma_pages_never_moves_witness:
  "\<exists>mv m'. migrate_vma_pages small_mm_env [small_pages_env] (small_args\<lparr>mv_src := [hole_pfn], mv_npages := 1\<rparr>) small_mm
    = Some (mv, m') \<and> mv_src mv = [stop_migrating hole_pfn]"
proof -
  obtain mv m' where run: "migrate_vma_pages small_mm_env [small_pages_env] (small_args\<lparr>mv_src := [hole_pfn], mv_npages := 1\<rparr>) small_mm
      = Some (mv, m')"
    by (simp add: migrate_vma_pages_def device_page_result small_pages_env_def no_network_run small_args_def)
  then show ?thesis using migrate_vma_pages_never_moves [OF run] by (auto simp: entries_def small_args_def)
qed

section \<open>A coherent page\<close>

text \<open>
  \<open>migrate_device_coherent_page\<close> never succeeds. If it returns, it returns \<open>-EBUSY\<close>, the page is
  unlocked and the caller's reference is gone; if the page could be unmapped and a new page was allocated, it
  does not return.
\<close>

theorem coherent_page_never_moves:
  assumes "rmap_ok env" and "\<not> is_locked m p" and "migrate_device_coherent_page env alloc e p m = Some (r, m')"
  shows "r = - EBUSY \<and> is_locked m' = is_locked m \<and> pins m' = (pins m)(p := pins m p - 1)
    \<and> (\<forall>src u m1. migrate_device_unmap env None [(migrate_pfn p)\<lparr>mp_migrate := True\<rparr>] (lock_page p m) = (src, u, m1)
        \<and> mp_migrate (hd src) \<longrightarrow> alloc = None)"
proof -
  let ?s = "(migrate_pfn p)\<lparr>mp_migrate := True\<rparr>"
  obtain src u m1 where un: "migrate_device_unmap env None [?s] (lock_page p m) = (src, u, m1)" by (metis prod_cases3)
  have "collected (put_page p m) [?s] (lock_page p m)"
    using assms(2) by (simp add: collected_def holds_def page_simps)
  from device_unmap_ok [OF assms(1) un this]
  obtain s where src: "src = [s]" and held: "collected (put_page p m) [s] m1"
    by (auto simp: length_Suc_conv)
  show ?thesis
  proof (cases "mp_migrate s")
    case False
    then have "\<not> mp_valid s" using held by (auto simp: collected_def)
    then have "is_locked m1 = is_locked m" "pins m1 = (pins m)(p := pins m p - 1)"
      using held by (auto simp: collected_def holds_def page_simps fun_eq_iff)
    then show ?thesis using assms(3) un src False by (simp add: migrate_device_coherent_page_def)
  next
    case True
    have none: "alloc = None"
      using assms(3) un src True
      by (auto simp: migrate_device_coherent_page_def migrate_device_pages_def device_page_result Let_def
          split: option.splits)
    then obtain k where k: "retrieve_page (pe_retrieve e) (page_number s) (net m1) = Some (Ptr_int (- 1), k)"
      using assms(3) un src True retrieve_page_result
      by (fastforce simp: migrate_device_coherent_page_def migrate_device_pages_def device_page_result Let_def
          split: option.splits)
    let ?m = "m1\<lparr>net := k\<rparr>"
    have m': "r = - EBUSY" "m' = migrate_device_finalize env [stop_migrating s] [no_pfn] ?m"
      using assms(3) un src True none k
      by (simp_all add: migrate_device_coherent_page_def migrate_device_pages_def device_page_result)
    have "released [stop_migrating s] [no_pfn] ?m m'"
      unfolding m'(2) by (rule finalize_released [OF assms(1)]) simp_all
    moreover have "is_locked ?m = is_locked m1" "pins ?m = pins m1" by (simp_all add: is_locked_def pins_def fun_eq_iff)
    ultimately have "is_locked m' = is_locked m \<and> pins m' = (pins m)(p := pins m p - 1)"
      using held by (auto simp: released_def collected_def holds_def page_simps fun_eq_iff split: if_splits)
    then show ?thesis using m'(1) none by simp
  qed
qed

definition unmapped_mm :: mm_state where
  "unmapped_mm = set_meta 5 (\<lambda>pm. pm\<lparr>mapcount := 0\<rparr>) small_mm"

lemma unmapped_run:
  "\<exists>r m'. migrate_device_coherent_page small_mm_env None small_pages_env 5 unmapped_mm = Some (r, m')"
proof -
  have zone: "\<not> is_zone_device_page idle_udp q" for q by (simp add: is_zone_device_page_def idle_udp_def)
  show ?thesis
    by (simp add: migrate_device_coherent_page_def unmapped_mm_def small_mm_def small_mm_env_def plain_page_def
        migrate_device_unmap_def unmap_page_def isolate_lru_page_def page_mapped_def migrate_vma_check_page_def zone
        migrate_pfn_to_page_def lock_page_def put_page_def set_meta_def drain_def Let_def migrate_pfn_def
        migrate_device_pages_def device_page_result small_pages_env_def no_network_run)
qed

theorem coherent_page_never_moves_witness:
  "\<exists>m'. migrate_device_coherent_page small_mm_env None small_pages_env 5 unmapped_mm = Some (- EBUSY, m')
    \<and> \<not> is_locked m' 5 \<and> pins m' 5 = 0"
proof -
  have "\<not> is_locked unmapped_mm 5" "pins unmapped_mm 5 = 1"
    by (simp_all add: is_locked_def pins_def unmapped_mm_def set_meta_def small_mm_def plain_page_def)
  then show ?thesis
    using unmapped_run coherent_page_never_moves [OF small_rmap_ok, of unmapped_mm 5] by fastforce
qed

section \<open>Arguments of a migration\<close>

text \<open>The documented conditions on the arguments of \<open>migrate_vma_setup\<close>, on the page-aligned range.\<close>

definition valid_request :: "migrate_vma \<Rightarrow> udp_state \<Rightarrow> bool" where
  "valid_request args k \<longleftrightarrow> (\<exists>v. mv_vma args = Some v \<and> \<not> vma_hugetlb v \<and> \<not> vma_special v \<and> \<not> vma_dax v
     \<and> drop_bit PAGE_SHIFT (mv_end args - mv_start args) \<noteq> 0
     \<and> vma_start v \<le> mv_start args AND PAGE_MASK \<and> mv_start args AND PAGE_MASK < vma_end v
     \<and> vma_start v < mv_end args AND PAGE_MASK \<and> mv_end args AND PAGE_MASK \<le> vma_end v)
     \<and> mv_src args \<noteq> [] \<and> mv_dst args \<noteq> []
     \<and> (\<forall>p. mv_fault_page args = Some p \<longrightarrow> is_device_page MEMORY_DEVICE_PRIVATE k p)"

lemma setup_result:
  assumes "migrate_vma_setup env ws args m = Some (r, mv, m')"
  shows "if valid_request args (net m) then r = 0
    else r = - EINVAL \<and> m' = m \<and> mv_src mv = mv_src args \<and> mv_dst mv = mv_dst args"
  using assms
  by (auto simp: migrate_vma_setup_def valid_request_def Let_def unat_eq_0 not_less not_le
      split: option.splits if_splits prod.splits)

text \<open>
  \<open>migrate_vma_setup\<close> returns 0 or \<open>-EINVAL\<close>, the latter exactly when the request is not valid;
  then no page and no array has been touched.
\<close>

theorem migrate_vma_setup_checks:
  assumes "migrate_vma_setup env ws args m = Some (r, mv, m')"
  shows "(r = 0 \<longleftrightarrow> valid_request args (net m)) \<and> (r \<noteq> 0 \<longrightarrow> r = - EINVAL \<and> m' = m
    \<and> mv_src mv = mv_src args \<and> mv_dst mv = mv_dst args)"
  using setup_result [OF assms] by (simp split: if_splits)

theorem migrate_vma_setup_checks_witness:
  "\<exists>mv. migrate_vma_setup small_mm_env small_walk (small_args\<lparr>mv_vma := None\<rparr>) small_mm = Some (- EINVAL, mv, small_mm)
    \<and> \<not> valid_request (small_args\<lparr>mv_vma := None\<rparr>) (net small_mm)"
proof -
  obtain r mv m' where run: "migrate_vma_setup small_mm_env small_walk (small_args\<lparr>mv_vma := None\<rparr>) small_mm = Some (r, mv, m')"
    by (simp add: migrate_vma_setup_def)
  moreover have "\<not> valid_request (small_args\<lparr>mv_vma := None\<rparr>) (net small_mm)" by (simp add: valid_request_def)
  ultimately show ?thesis using migrate_vma_setup_checks [OF run] by auto
qed

text \<open>
  C37. A range whose end lies before its start is not rejected when both lie in the area: the
  difference is shifted as an unsigned number, which is positive, and \<open>src\<close> is cleared far past its end.
\<close>

theorem migrate_vma_setup_reversed:
  assumes "mv_vma args = Some v" and "\<not> vma_hugetlb v" and "\<not> vma_special v" and "\<not> vma_dax v"
    and "vma_start v < mv_end args AND PAGE_MASK" and "mv_end args < mv_start args" and "mv_start args AND PAGE_MASK < vma_end v"
    and "unat (mv_start args) - unat (mv_end args) \<le> 2 ^ 63"
    and "mv_src args \<noteq> []" and "mv_dst args \<noteq> []" and "length (mv_src args) < 2 ^ 50" and "mv_fault_page args = None"
  shows "migrate_vma_setup env ws args m = None"
proof -
  let ?s = "mv_start args" and ?e = "mv_end args"
  have "unat (?e - ?s) = 2 ^ 64 + unat ?e - unat ?s"
    using assms(6) by (simp add: unat_sub_if' word_less_nat_alt)
  then have big: "2 ^ 63 \<le> unat (?e - ?s)" using assms(6,8) by (simp add: word_less_nat_alt)
  have nr: "2 ^ 51 \<le> unat (drop_bit PAGE_SHIFT (?e - ?s))"
    unfolding unat_shift_page using div_le_mono [OF big, of page_bytes] by simp
  have mono: "?e AND PAGE_MASK \<le> ?s AND PAGE_MASK"
    using assms(6) by (simp add: word_le_def word_less_def and_PAGE_MASK zdiv_mono1)
  then have "vma_start v \<le> ?s AND PAGE_MASK" "?e AND PAGE_MASK \<le> vma_end v"
    using assms(5,7) by auto
  then show ?thesis
    using assms nr by (simp add: migrate_vma_setup_def Let_def not_le not_less)
qed

theorem migrate_vma_setup_reversed_witness:
  "\<forall>env m. migrate_vma_setup env small_walk (small_args\<lparr>mv_start := 0x14000, mv_end := 0x12000\<rparr>) m = None"
  using migrate_vma_setup_reversed [of "small_args\<lparr>mv_start := 0x14000, mv_end := 0x12000\<rparr>"]
  by (simp add: small_args_def PAGE_MASK_def)

end
