(* ===== verification/Migrate_Remap.thy ===== *)
theory Migrate_Remap
  imports Migrate_Pages
begin

text \<open>
  The page table over a whole migration: which page every entry of the process stands for, through the special
  migration entries, when \<open>migrate_vma_setup\<close>, the driver and \<open>migrate_vma_finalize\<close> have run.
\<close>

section \<open>What an entry stands for\<close>

text \<open>The page and whether it may be written; a migration entry stands for the page it replaced.\<close>

fun pte_target :: "pte \<Rightarrow> (page \<times> bool) option" where
  "pte_target (Pte_present p w fl) = Some (p, w)"
| "pte_target (Pte_device p w fl) = Some (p, w)"
| "pte_target (Pte_migration p k fl) = Some (p, k = Mig_writable)"
| "pte_target _ = None"

fun maps_page :: "pte \<Rightarrow> page option" where
  "maps_page (Pte_present p w fl) = Some p"
| "maps_page (Pte_device p w fl) = Some p"
| "maps_page _ = None"

definition targets :: "mm_state \<Rightarrow> nat \<Rightarrow> (page \<times> bool) option" where
  "targets m a = pte_target (ptes m a)"

definition mapping_frames :: "mm_state \<Rightarrow> page \<Rightarrow> nat set" where
  "mapping_frames m p = {a. maps_page (ptes m a) = Some p}"

text \<open>The page table is finite, and the map count of a page counts at least the entries that map it.\<close>

definition map_ok :: "mm_state \<Rightarrow> bool" where
  "map_ok m \<longleftrightarrow> finite {a. ptes m a \<noteq> Pte_none} \<and> (\<forall>p. finite (mapping_frames m p) \<and> int (card (mapping_frames m p)) \<le> mapcount (meta m p))"

definition unmapped :: "mm_state \<Rightarrow> page \<Rightarrow> bool" where
  "unmapped m p \<longleftrightarrow> mapping_frames m p = {}"

lemma not_mapped_unmapped:
  assumes "map_ok m" and "\<not> page_mapped p m"
  shows "unmapped m p"
proof -
  have fin: "finite (mapping_frames m p)" and le: "int (card (mapping_frames m p)) \<le> mapcount (meta m p)"
    using assms(1) by (simp_all add: map_ok_def)
  have "mapcount (meta m p) \<le> 0" using assms(2) by (simp add: page_mapped_def)
  with le have "card (mapping_frames m p) = 0" by linarith
  with fin show ?thesis by (simp add: unmapped_def)
qed

text \<open>
  The documented effect of the two functions on the page table: \<open>try_to_migrate\<close> may turn entries that map
  its page into migration entries of the same page and access; \<open>remove_migration_ptes\<close> turns exactly the
  migration entries of its first page into entries that map the second. Both keep the map counts right.
\<close>

definition rmap_doc :: "mm_env \<Rightarrow> bool" where
  "rmap_doc env \<longleftrightarrow> rmap_ok env
     \<and> (\<forall>p m. map_ok m \<longrightarrow> map_ok (try_to_migrate env p m) \<and> (\<forall>a. ptes (try_to_migrate env p m) a = ptes m a
         \<or> maps_page (ptes m a) = Some p \<and> maps_page (ptes (try_to_migrate env p m) a) = None
           \<and> pte_target (ptes (try_to_migrate env p m) a) = pte_target (ptes m a)))
     \<and> (\<forall>p q m. map_ok m \<longrightarrow> map_ok (remove_migration_ptes env p q m)
         \<and> (\<forall>a. if (\<exists>k fl. ptes m a = Pte_migration p k fl)
              then maps_page (ptes (remove_migration_ptes env p q m) a) = Some q
                \<and> pte_target (ptes (remove_migration_ptes env p q m) a) = map_option (\<lambda>(_, w). (q, w)) (pte_target (ptes m a))
              else ptes (remove_migration_ptes env p q m) a = ptes m a))"

lemma rmap_doc_ok: "rmap_doc env \<Longrightarrow> rmap_ok env"
  by (simp add: rmap_doc_def)

named_theorems table_simps \<open>operations on pages leave the page table alone\<close>

lemma ptes_ops [table_simps]:
  "ptes (set_meta p f m) = ptes m" "ptes (get_page p m) = ptes m" "ptes (put_page p m) = ptes m"
  "ptes (lock_page p m) = ptes m" "ptes (unlock_page p m) = ptes m" "ptes (putback_lru_page p m) = ptes m"
  "ptes (drain g m) = ptes m" "ptes (finish_page p m) = ptes m" "ptes (drop_new n m) = ptes m"
  by (simp_all add: set_meta_def get_page_def put_page_def lock_page_def unlock_page_def putback_lru_page_def
      drain_def finish_page_def drop_new_def split: option.split)

lemma mapcount_ops [table_simps]:
  "mapcount (meta (get_page p m) q) = mapcount (meta m q)" "mapcount (meta (put_page p m) q) = mapcount (meta m q)"
  "mapcount (meta (lock_page p m) q) = mapcount (meta m q)" "mapcount (meta (unlock_page p m) q) = mapcount (meta m q)"
  "mapcount (meta (putback_lru_page p m) q) = mapcount (meta m q)" "mapcount (meta (drain g m) q) = mapcount (meta m q)"
  "mapcount (meta (finish_page p m) q) = mapcount (meta m q)" "mapcount (meta (drop_new n m) q) = mapcount (meta m q)"
  "mapcount (meta (set_meta p (\<lambda>pm. pm\<lparr>anon_exclusive := b\<rparr>) m) q) = mapcount (meta m q)"
  "mapcount (meta (set_meta p (\<lambda>pm. pm\<lparr>marked_dirty := b\<rparr>) m) q) = mapcount (meta m q)"
  "mapcount (meta (set_meta p (\<lambda>pm. pm\<lparr>on_lru := b, refcount := refcount pm + 1\<rparr>) m) q) = mapcount (meta m q)"
  by (simp_all add: set_meta_def get_page_def put_page_def lock_page_def unlock_page_def putback_lru_page_def
      drain_def finish_page_def drop_new_def split: option.split)

text \<open>A step that changes neither entries nor map counts.\<close>

definition same_table :: "mm_state \<Rightarrow> mm_state \<Rightarrow> bool" where
  "same_table m m' \<longleftrightarrow> ptes m' = ptes m \<and> (\<forall>p. mapcount (meta m' p) = mapcount (meta m p))"

lemma same_table_facts:
  assumes "same_table m m'"
  shows "targets m' = targets m" "unmapped m' p = unmapped m p" "map_ok m' = map_ok m" "page_mapped p m' = page_mapped p m"
  using assms by (simp_all add: same_table_def targets_def unmapped_def map_ok_def mapping_frames_def page_mapped_def fun_eq_iff)

lemma same_table_refl [simp]: "same_table m m"
  by (simp add: same_table_def)

section \<open>Collecting\<close>

lemma map_ok_replace:
  assumes "map_ok m" and "maps_page (ptes m a) = Some p" and "maps_page (ptes m' a) = None"
    and "\<forall>b. b \<noteq> a \<longrightarrow> ptes m' b = ptes m b"
    and "\<forall>q. mapcount (meta m' q) = mapcount (meta m q) - of_bool (q = p)"
  shows "map_ok m'"
  unfolding map_ok_def
proof (intro conjI allI)
  have "{b. ptes m' b \<noteq> Pte_none} \<subseteq> {b. ptes m b \<noteq> Pte_none}"
  proof
    fix b assume "b \<in> {b. ptes m' b \<noteq> Pte_none}"
    then show "b \<in> {b. ptes m b \<noteq> Pte_none}" using assms(2,4) by (cases "b = a") auto
  qed
  then show "finite {b. ptes m' b \<noteq> Pte_none}"
    using assms(1) by (auto simp: map_ok_def intro: finite_subset)
next
  fix q
  have old: "finite (mapping_frames m q)" "int (card (mapping_frames m q)) \<le> mapcount (meta m q)"
    using assms(1) by (simp_all add: map_ok_def)
  have "mapping_frames m' q = (if q = p then mapping_frames m q - {a} else mapping_frames m q)"
    using assms(2-4) by (auto simp: mapping_frames_def) (metis option.distinct(1) option.inject)+
  moreover have a: "a \<in> mapping_frames m p" using assms(2) by (simp add: mapping_frames_def)
  moreover have "0 < card (mapping_frames m p)" using assms(1) a by (auto simp: map_ok_def card_gt_0_iff)
  ultimately show "finite (mapping_frames m' q)" "int (card (mapping_frames m' q)) \<le> mapcount (meta m' q)"
    using old assms(5) by (auto simp: card_Diff_singleton_if of_nat_diff)
qed

lemma take_page_table:
  assumes "take_page env a p present fl s m = (s', c, m')" and "map_ok m"
    and "maps_page (ptes m a) = Some p" and "pte_target (ptes m a) = Some (p, mp_write s)"
  shows "map_ok m' \<and> targets m' = targets m"
proof -
  define m1 where "m1 = lock_page p (get_page p m)"
  define exc where "exc = (anon (meta m1 p) \<and> anon_exclusive (meta m1 p))"
  define m2 where "m2 = (if exc then set_meta p (\<lambda>pm. pm\<lparr>anon_exclusive := False\<rparr>) m1 else m1)"
  define m3 where "m3 = (if f_dirty fl then set_meta p (\<lambda>pm. pm\<lparr>marked_dirty := True\<rparr>) m2 else m2)"
  define e where "e = Pte_migration p (if mp_write s then Mig_writable else if exc then Mig_readable_exclusive else Mig_readable)
    (if present then fl else fl\<lparr>f_young := False, f_dirty := False\<rparr>)"
  consider "m' = put_page p (get_page p m) \<or> m' = put_page p (unlock_page p m1)"
    | "m' = put_page p (set_meta p (\<lambda>pm. pm\<lparr>mapcount := mapcount pm - 1\<rparr>) (m3\<lparr>ptes := (ptes m3)(a := e)\<rparr>))"
    using assms(1) unfolding take_page_def Let_def m1_def [symmetric] exc_def [symmetric] m2_def [symmetric]
      m3_def [symmetric] e_def [symmetric]
    by (auto split: if_splits)
  then show ?thesis
  proof cases
    case 1
    then have "same_table m m'" by (auto simp: same_table_def table_simps m1_def)
    then show ?thesis using assms(2) by (simp add: same_table_facts)
  next
    case 2
    have m3: "ptes m3 = ptes m" "\<forall>q. mapcount (meta m3 q) = mapcount (meta m q)"
      by (simp_all add: m3_def m2_def m1_def table_simps)
    have pt: "ptes m' = (ptes m)(a := e)" using 2 m3 by (simp add: table_simps)
    have "\<forall>q. mapcount (meta m' q) = mapcount (meta m q) - of_bool (q = p)"
      using 2 m3 by (simp add: table_simps) (simp add: set_meta_def)
    then have "map_ok m'"
      by (intro map_ok_replace [OF assms(2,3)]) (simp_all add: pt e_def)
    moreover have "pte_target e = Some (p, mp_write s)" by (simp add: e_def)
    then have "targets m' = targets m" using assms(4) by (auto simp: targets_def pt fun_eq_iff)
    ultimately show ?thesis by simp
  qed
qed

lemma collect_pte_table:
  assumes "collect_pte env v mv a m = (s, c, m')" and "map_ok m"
  shows "map_ok m' \<and> targets m' = targets m"
  using assms by (auto simp: collect_pte_def dest: take_page_table split: pte.splits if_splits)

text \<open>What every step keeps, the walk keeps.\<close>

lemma collect_ptes_keeps:
  assumes "\<And>a mv m s c m'. collect_pte env v mv a m = (s, c, m') \<Longrightarrow> I m \<Longrightarrow> I m'"
  shows "collect_ptes env v as mv m = Some (mv', m') \<Longrightarrow> I m \<Longrightarrow> I m'"
proof (induction as arbitrary: mv m)
  case (Cons a as)
  obtain s c m1 where pte: "collect_pte env v mv a m = (s, c, m1)" by (metis prod_cases3)
  with Cons.prems(1) obtain mv1 where "collect_ptes env v as mv1 m1 = Some (mv', m')"
    by (auto split: option.splits)
  with assms [OF pte Cons.prems(2)] show ?case by (metis Cons.IH)
qed simp

lemma collect_pmd_keeps:
  assumes "\<And>a mv m s c m'. collect_pte env v mv a m = (s, c, m') \<Longrightarrow> I m \<Longrightarrow> I m'"
  shows "migrate_vma_collect_pmd env v views as mv m = Some (mv', m') \<Longrightarrow> I m \<Longrightarrow> I m'"
  by (induction views)
    (auto simp: Let_def intro: collect_ptes_keeps [where I = I, OF assms] split: pmd_view.splits if_splits)

lemma walk_keeps:
  assumes "\<And>a mv m s c m'. collect_pte env v mv a m = (s, c, m') \<Longrightarrow> I m \<Longrightarrow> I m'"
  shows "walk_page_range env v ws mv m = Some (mv', m') \<Longrightarrow> I m \<Longrightarrow> I m'"
proof (induction ws arbitrary: mv m)
  case (Cons w ws)
  then obtain mv1 m1 where step: "walk_page_range env v [w] mv m = Some (mv1, m1)"
    and rest: "walk_page_range env v ws mv1 m1 = Some (mv', m')"
    by (auto split: option.splits)
  have "I m1"
    using step Cons.prems(2)
    by (auto intro: collect_pmd_keeps [where I = I, OF assms] split: walk_piece.splits option.splits)
  with rest show ?case by (rule Cons.IH)
qed simp

section \<open>Unmapping\<close>

text \<open>Steps that turn entries into migration entries only: targets stay, and no page becomes mapped.\<close>

definition narrows :: "mm_state \<Rightarrow> mm_state \<Rightarrow> bool" where
  "narrows m m' \<longleftrightarrow> map_ok m' \<and> targets m' = targets m \<and> (\<forall>q. unmapped m q \<longrightarrow> unmapped m' q)"

lemma narrows_trans: "narrows m m' \<Longrightarrow> narrows m' m'' \<Longrightarrow> narrows m m''"
  by (simp add: narrows_def)

lemma same_table_narrows: "map_ok m \<Longrightarrow> same_table m m' \<Longrightarrow> narrows m m'"
  by (simp add: narrows_def same_table_facts)

lemma try_to_migrate_narrows:
  assumes "rmap_doc env" and "map_ok m"
  shows "narrows m (try_to_migrate env p m)"
proof -
  let ?m = "try_to_migrate env p m"
  have doc: "map_ok ?m" "\<forall>a. ptes ?m a = ptes m a \<or> maps_page (ptes m a) = Some p \<and> maps_page (ptes ?m a) = None
      \<and> pte_target (ptes ?m a) = pte_target (ptes m a)"
    using assms by (simp_all add: rmap_doc_def)
  have "targets ?m = targets m" using doc(2) by (auto simp: targets_def fun_eq_iff) (metis+)
  moreover have "mapping_frames ?m q \<subseteq> mapping_frames m q" for q
    using doc(2) by (auto simp: mapping_frames_def) (metis option.distinct(1))
  ultimately show ?thesis using doc(1) by (auto simp: narrows_def unmapped_def)
qed

lemma unmap_page_narrows:
  assumes "rmap_doc env" and "map_ok m" and "unmap_page env fp p m = (ok, m')"
  shows "narrows m m' \<and> (ok \<longrightarrow> unmapped m' p)"
proof -
  obtain iso m1 where iso: "(if is_zone_device_page (net m) p then (True, m) else isolate_lru_page p m) = (iso, m1)"
    by (metis surj_pair)
  have t1: "same_table m m1" using iso by (auto simp: isolate_lru_page_def same_table_def table_simps split: if_splits)
  show ?thesis
  proof (cases iso)
    case False
    then have "m' = m1 \<and> \<not> ok" using assms(3) iso by (auto simp: unmap_page_def Let_def split: if_splits)
    then show ?thesis using same_table_narrows [OF assms(2) t1] by simp
  next
    case True
    define m2 where "m2 = (if is_zone_device_page (net m) p then m1 else put_page p m1)"
    define m3 where "m3 = (if page_mapped p m2 then try_to_migrate env p m2 else m2)"
    have "same_table m m2" using t1 by (simp add: m2_def same_table_def table_simps)
    then have n2: "narrows m m2" using assms(2) by (rule same_table_narrows [rotated])
    then have "narrows m m3"
      using try_to_migrate_narrows [OF assms(1), of m2 p] narrows_trans by (auto simp: m3_def narrows_def)
    moreover have "m' = m3 \<and> (ok \<longrightarrow> \<not> page_mapped p m3) \<or> m' = putback_lru_page p (get_page p m3) \<and> \<not> ok"
      using assms(3) iso True by (auto simp: unmap_page_def Let_def m2_def m3_def split: if_splits)
    moreover have "same_table m3 (putback_lru_page p (get_page p m3))" by (simp add: same_table_def table_simps)
    ultimately show ?thesis
      using not_mapped_unmapped same_table_narrows narrows_trans by (metis narrows_def)
  qed
qed

lemma drain_table: "same_table m (drain f m)"
  by (simp add: same_table_def table_simps)

lemma unmap_loop_narrows:
  assumes "rmap_doc env" and "unmap_loop env fp ad ss m = (ss', u, r, m')" and "map_ok m"
  shows "narrows m m' \<and> (\<forall>s \<in> set ss'. mp_valid s \<and> mp_migrate s \<longrightarrow> unmapped m' (mp_page s))"
  using assms(2,3)
proof (induction ss arbitrary: ad m ss' u r m')
  case Nil
  then show ?case by (simp add: narrows_def)
next
  case (Cons s ss)
  show ?case
  proof (cases "mp_valid s")
    case False
    obtain ss1 u1 r1 m1 where rest: "unmap_loop env fp ad ss m = (ss1, u1, r1, m1)" by (metis prod_cases4)
    with Cons.IH [OF rest Cons.prems(2)] Cons.prems(1) False show ?thesis
      by (auto simp: migrate_pfn_to_page_def split: if_splits)
  next
    case True
    let ?p = "mp_page s"
    define d where "d = (\<not> is_zone_device_page (net m) ?p \<and> \<not> on_lru (meta m ?p) \<and> ad)"
    define m0 where "m0 = (if d then drain (me_drained_all env) m else m)"
    have n0: "narrows m m0" using Cons.prems(2) by (auto simp: m0_def intro: same_table_narrows drain_table)
    obtain ok m1 where ok: "unmap_page env fp ?p m0 = (ok, m1)" by (metis surj_pair)
    have n1: "narrows m0 m1 \<and> (ok \<longrightarrow> unmapped m1 ?p)"
      using unmap_page_narrows [OF assms(1) _ ok] n0 by (simp add: narrows_def)
    obtain ss1 u1 r1 m2 where rest: "unmap_loop env fp (ad \<and> \<not> d) ss m1 = (ss1, u1, r1, m2)" by (metis prod_cases4)
    have n2: "narrows m1 m2 \<and> (\<forall>s \<in> set ss1. mp_valid s \<and> mp_migrate s \<longrightarrow> unmapped m2 (mp_page s))"
      using Cons.IH [OF rest] n1 by (simp add: narrows_def)
    have "(if ok then (s # ss1, u1 + 1, r1, m2) else (stop_migrating s # ss1, u1, r1 + 1, m2)) = (ss', u, r, m')"
      using Cons.prems True ok rest by (simp add: migrate_pfn_to_page_def Let_def d_def m0_def split: if_splits)
    with n0 n1 n2 narrows_trans show ?thesis by (auto simp: narrows_def split: if_splits)
  qed
qed

text \<open>Restoring the entries of one page.\<close>

lemma remove_ptes_table:
  assumes "rmap_doc env" and "map_ok m"
  shows "map_ok (remove_migration_ptes env p n m)"
    and "unmapped m p \<or> n = p \<Longrightarrow> targets (remove_migration_ptes env p n m) =
      (\<lambda>a. map_option (\<lambda>(q, w). (if q = p then n else q, w)) (targets m a))"
    and "unmapped m q \<Longrightarrow> q \<noteq> n \<Longrightarrow> unmapped (remove_migration_ptes env p n m) q"
proof -
  let ?m = "remove_migration_ptes env p n m"
  have doc: "map_ok ?m" "\<And>a. if (\<exists>k fl. ptes m a = Pte_migration p k fl)
      then maps_page (ptes ?m a) = Some n \<and> pte_target (ptes ?m a) = map_option (\<lambda>(_, w). (n, w)) (pte_target (ptes m a))
      else ptes ?m a = ptes m a"
    using assms by (simp_all add: rmap_doc_def)
  show "map_ok ?m" by (rule doc(1))
  show "unmapped ?m q" if "unmapped m q" "q \<noteq> n"
  proof -
    have "maps_page (ptes ?m a) \<noteq> Some q" for a
      using doc(2) [of a] that by (auto simp: unmapped_def mapping_frames_def split: if_splits)
    then show ?thesis by (simp add: unmapped_def mapping_frames_def)
  qed
  assume pn: "unmapped m p \<or> n = p"
  show "targets ?m = (\<lambda>a. map_option (\<lambda>(q, w). (if q = p then n else q, w)) (targets m a))"
  proof
    fix a
    show "targets ?m a = map_option (\<lambda>(q, w). (if q = p then n else q, w)) (targets m a)"
    proof (cases "\<exists>k fl. ptes m a = Pte_migration p k fl")
      case True
      then show ?thesis using doc(2) [of a] by (auto simp: targets_def)
    next
      case False
      then have "ptes ?m a = ptes m a" using doc(2) [of a] by simp
      moreover have "maps_page (ptes m a) \<noteq> Some p \<or> n = p"
        using pn by (auto simp: unmapped_def mapping_frames_def)
      ultimately show ?thesis using False by (cases "ptes m a") (auto simp: targets_def)
    qed
  qed
qed

lemma restore_loop_table:
  assumes "rmap_doc env" and "restore_loop env r ss m = (ss', m')" and "map_ok m"
  shows "map_ok m' \<and> targets m' = targets m
    \<and> (\<forall>q. unmapped m q \<longrightarrow> q \<notin> set (pages_of (filter pinned_back ss)) \<longrightarrow> unmapped m' q)"
  using assms(2,3)
proof (induction ss arbitrary: r m ss' m')
  case Nil
  then show ?case by (cases r) simp_all
next
  case (Cons s ss)
  show ?case
  proof (cases r)
    case 0
    with Cons.prems show ?thesis by simp
  next
    case (Suc r')
    show ?thesis
    proof (cases "pinned_back s")
      case False
      obtain ss1 where rest: "restore_loop env r ss m = (ss1, m')"
        using Cons.prems(1) False Suc by (auto simp: pinned_back_def migrate_pfn_to_page_def split: prod.splits if_splits)
      with Cons.IH [OF rest Cons.prems(2)] False show ?thesis by simp
    next
      case True
      let ?p = "mp_page s"
      let ?m = "put_page ?p (unlock_page ?p (remove_migration_ptes env ?p ?p m))"
      obtain ss1 where rest: "restore_loop env r' ss ?m = (ss1, m')"
        using Cons.prems(1) True Suc by (auto simp: pinned_back_def migrate_pfn_to_page_def split: prod.splits)
      have same: "same_table (remove_migration_ptes env ?p ?p m) ?m" by (simp add: same_table_def table_simps)
      note rm = remove_ptes_table [OF assms(1) Cons.prems(2), where p = ?p and n = ?p]
      have "(\<lambda>(q, w). (if q = ?p then ?p else q, w)) = (id :: page \<times> bool \<Rightarrow> _)" by (auto simp: fun_eq_iff)
      then have "targets ?m = targets m" using rm(2) same by (simp add: same_table_facts option.map_id)
      moreover have "map_ok ?m" using rm(1) same by (simp add: same_table_facts)
      moreover have "unmapped m q \<Longrightarrow> q \<noteq> ?p \<Longrightarrow> unmapped ?m q" for q using rm(3) same by (simp add: same_table_facts)
      ultimately show ?thesis using Cons.IH [OF rest] True by (auto simp: pinned_back_def [of s])
    qed
  qed
qed

section \<open>Setting up\<close>

lemma device_unmap_table:
  assumes "rmap_doc env" and "migrate_device_unmap env fp src m = (src', u, m')" and "collected m0 src m" and "map_ok m"
  shows "map_ok m' \<and> targets m' = targets m \<and> (\<forall>s \<in> set src'. mp_valid s \<longrightarrow> unmapped m' (mp_page s))"
proof -
  obtain s1 u1 r m1 where loop: "unmap_loop env fp True src (drain (me_drained env) m) = (s1, u1, r, m1)"
    by (metis prod_cases4)
  then have rest: "restore_loop env r s1 m1 = (src', m')"
    using assms(2) by (auto simp: migrate_device_unmap_def split: prod.splits)
  note l = unmap_loop_ok [OF rmap_doc_ok [OF assms(1)] loop]
  have r: "r = length (filter pinned_back s1)"
    using l assms(3) by (simp add: collected_def pinned_back_def [abs_def])
  have src': "src' = restored s1" using restore_loop_effect [OF rmap_doc_ok [OF assms(1)] rest r] by simp
  have d: "distinct (pages_of s1)" using l assms(3) by (simp add: collected_def)
  have drained: "map_ok (drain (me_drained env) m)" "targets (drain (me_drained env) m) = targets m"
    using same_table_facts [OF drain_table] assms(4) by simp_all
  note n = unmap_loop_narrows [OF assms(1) loop drained(1)]
  have "map_ok m1" using n by (simp add: narrows_def)
  note rs = restore_loop_table [OF assms(1) rest this]
  have "unmapped m' (mp_page s)" if s: "s \<in> set src'" "mp_valid s" for s
  proof -
    have "mp_migrate s" using s restored_facts(3) [of s s1] by (simp add: src')
    then have "s \<in> set s1" using s src' by (auto simp: restored_def split: if_splits)
    then have "unmapped m1 (mp_page s)" using n s(2) \<open>mp_migrate s\<close> by blast
    moreover have "mp_page s \<in> set (pages_of (restored s1))" using s src' by (auto simp: pages_of_def)
    ultimately show ?thesis using rs pages_of_split(2) [OF d] by blast
  qed
  then show ?thesis using rs n drained(2) by (simp add: narrows_def)
qed

lemma setup_table:
  assumes "rmap_doc env" and "migrate_vma_setup env ws args m = Some (0, mv, m')" and "map_ok m"
  shows "map_ok m' \<and> targets m' = targets m \<and> (\<forall>s \<in> set (entries mv). mp_valid s \<longrightarrow> unmapped m' (mp_page s))"
proof -
  obtain args1 v mv1 m1 where collect: "migrate_vma_collect env v ws args1 m = Some (mv1, m1)"
    and start: "mv_npages args1 = 0" "mv_cpages args1 = 0"
    and fin: "(mv, m') = (if mv_cpages mv1 \<noteq> 0 then migrate_vma_unmap env mv1 m1 else (mv1, m1))"
    using assms(2) by (auto simp: migrate_vma_setup_def Let_def split: option.splits if_splits prod.splits)
  then obtain mv0 where walk: "walk_page_range env v ws args1 m = Some (mv0, m1)"
    and mv1: "entries mv1 = entries mv0" "mv_cpages mv1 = mv_cpages mv0" "mv_npages mv1 = mv_npages mv0" "mv_src mv1 = mv_src mv0"
    by (auto simp: migrate_vma_collect_def entries_def)
  have t1: "map_ok m1 \<and> targets m1 = targets m"
    by (rule walk_keeps [where I = "\<lambda>m'. map_ok m' \<and> targets m' = targets m", OF _ walk])
      (use collect_pte_table assms(3) in \<open>metis, simp\<close>)
  have "walk_ok m args1 m" using start by (simp add: walk_ok_def entries_def collected_def)
  with walk have w: "walk_ok m mv0 m1" by (rule walk_page_range_ok)
  show ?thesis
  proof (cases "mv_cpages mv1 = 0")
    case False
    then obtain src u where un: "migrate_device_unmap env (mv_fault_page mv1) (entries mv1) m1 = (src, u, m')"
      and mv: "mv = mv1\<lparr>mv_src := src @ drop (mv_npages mv1) (mv_src mv1), mv_cpages := u\<rparr>"
      using fin by (auto simp: migrate_vma_unmap_def entries_def Let_def split: prod.splits)
    have col: "collected m (entries mv1) m1" using w mv1 by (simp add: walk_ok_def)
    have "length src = mv_npages mv1"
      using device_unmap_ok [OF rmap_doc_ok [OF assms(1)] un col] w mv1 by (simp add: entries_def walk_ok_def)
    then have "entries mv = src" using mv by (simp add: entries_def)
    then show ?thesis using device_unmap_table [OF assms(1) un col] t1 by simp
  next
    case True
    then have "filter mp_migrate (entries mv1) = []" using w mv1 by (simp add: walk_ok_def)
    then have "\<forall>s \<in> set (entries mv1). \<not> mp_valid s"
      using w mv1 by (auto simp: walk_ok_def collected_def filter_empty_conv)
    then show ?thesis using True fin t1 by simp
  qed
qed

section \<open>Finishing\<close>

text \<open>Where a page goes: to the destination of its entry, if the entry is still marked and has one.\<close>

fun moved :: "mpfn list \<Rightarrow> mpfn list \<Rightarrow> page \<Rightarrow> page" where
  "moved (s # ss) (d # ds) p =
    (if mp_valid s \<and> mp_page s = p then (if mp_migrate s \<and> mp_valid d then mp_page d else p) else moved ss ds p)"
| "moved _ _ p = p"

lemma moved_other: "p \<notin> set (pages_of ss) \<Longrightarrow> moved ss ds p = p"
  by (induction ss ds p rule: moved.induct) (auto split: if_splits)

lemma retarget_id: "(\<And>q. f q = q) \<Longrightarrow> (\<lambda>a. map_option (\<lambda>(q, w). (f q, w)) (t a)) = t" for t :: "nat \<Rightarrow> (page \<times> bool) option"
proof
  fix a
  assume "\<And>q. f q = q"
  then show "map_option (\<lambda>(q, w). (f q, w)) (t a) = t a" by (cases "t a") auto
qed

lemma finalize_entry_table:
  assumes "rmap_doc env" and "map_ok m" and "mp_valid s \<Longrightarrow> unmapped m (mp_page s)"
  shows "map_ok (finalize_entry env s d m)
    \<and> targets (finalize_entry env s d m) = (\<lambda>a. map_option (\<lambda>(p, w). (moved [s] [d] p, w)) (targets m a))
    \<and> (\<forall>q. unmapped m q \<and> q \<notin> set (pages_of [s]) \<and> q \<notin> set (pages_of [d]) \<longrightarrow> unmapped (finalize_entry env s d m) q)"
proof (cases "mp_valid s")
  case False
  have "same_table m (finalize_entry env s d m)"
    using False by (simp add: finalize_entry_def migrate_pfn_to_page_def same_table_def table_simps)
  moreover have "(\<lambda>a. map_option (\<lambda>(p, w). (moved [s] [d] p, w)) (targets m a)) = targets m"
    by (rule retarget_id) (use False in simp)
  ultimately show ?thesis using assms(2) by (simp add: same_table_facts del: moved.simps)
next
  case True
  let ?p = "mp_page s"
  define n where "n = moved [s] [d] ?p"
  define m1 where "m1 = (if n = ?p \<and> \<not> (mp_migrate s \<and> mp_valid d) then drop_new (migrate_pfn_to_page d) m else m)"
  have t1: "same_table m m1" by (simp add: m1_def same_table_def table_simps)
  have t2: "same_table (remove_migration_ptes env ?p n m1) (finalize_entry env s d m)"
    using True by (cases "mp_valid d"; cases "mp_migrate s")
      (auto simp: finalize_entry_def migrate_pfn_to_page_def same_table_def table_simps Let_def n_def m1_def drop_new_def)
  note rm = remove_ptes_table [OF assms(1), of m1 _ _]
  have m1: "map_ok m1" "unmapped m1 ?p" using same_table_facts [OF t1] assms(2,3) True by simp_all
  have "targets (remove_migration_ptes env ?p n m1) = (\<lambda>a. map_option (\<lambda>(q, w). (if q = ?p then n else q, w)) (targets m1 a))"
    by (rule remove_ptes_table(2) [OF assms(1) m1(1)]) (use m1 in simp)
  moreover have "(\<lambda>(q, w). (if q = ?p then n else q, w)) = (\<lambda>(p, w :: bool). (moved [s] [d] p, w))"
    by (auto simp: fun_eq_iff n_def)
  ultimately have tg: "targets (finalize_entry env s d m) = (\<lambda>a. map_option (\<lambda>(p, w). (moved [s] [d] p, w)) (targets m a))"
    using same_table_facts [OF t1] same_table_facts [OF t2] by simp
  have "unmapped (finalize_entry env s d m) q" if "unmapped m q" "q \<notin> set (pages_of [s])" "q \<notin> set (pages_of [d])" for q
  proof -
    have "q \<noteq> n" using that True by (auto simp: n_def split: if_splits)
    then have "unmapped (remove_migration_ptes env ?p n m1) q"
      using remove_ptes_table(3) [OF assms(1) m1(1)] that(1) same_table_facts [OF t1] by simp
    then show ?thesis using same_table_facts [OF t2] by simp
  qed
  then show ?thesis using tg remove_ptes_table(1) [OF assms(1) m1(1)] same_table_facts [OF t2] by simp
qed

lemma finalize_table:
  assumes "rmap_doc env" and "length ss = length ds" and "distinct (pages_of ss)" and "set (pages_of ss) \<inter> set (pages_of ds) = {}"
    and "map_ok m" and "\<forall>s \<in> set ss. mp_valid s \<longrightarrow> unmapped m (mp_page s)"
  shows "map_ok (migrate_device_finalize env ss ds m)
    \<and> targets (migrate_device_finalize env ss ds m) = (\<lambda>a. map_option (\<lambda>(p, w). (moved ss ds p, w)) (targets m a))"
  using assms(2-)
proof (induction ss ds arbitrary: m rule: list_induct2)
  case Nil
  have "(\<lambda>a. map_option (\<lambda>(p, w). (moved [] [] p, w)) (targets m a)) = targets m" by (rule retarget_id) simp
  with Nil show ?case by (simp del: moved.simps)
next
  case (Cons s ss d ds)
  let ?m = "finalize_entry env s d m"
  note one = finalize_entry_table [OF assms(1) Cons.prems(3), of s d]
  have one': "map_ok ?m" "targets ?m = (\<lambda>a. map_option (\<lambda>(p, w). (moved [s] [d] p, w)) (targets m a))"
    "\<forall>q. unmapped m q \<and> q \<notin> set (pages_of [s]) \<and> q \<notin> set (pages_of [d]) \<longrightarrow> unmapped ?m q"
    using one Cons.prems(4) by simp_all
  have "unmapped ?m (mp_page s')" if "s' \<in> set ss" "mp_valid s'" for s'
  proof -
    have "mp_page s' \<in> set (pages_of ss)" using that by (auto simp: pages_of_def)
    then show ?thesis using one'(3) Cons.prems(1,2,4) that by (auto split: if_splits)
  qed
  then have rest: "map_ok (migrate_device_finalize env ss ds ?m)"
    "targets (migrate_device_finalize env ss ds ?m) = (\<lambda>a. map_option (\<lambda>(p, w). (moved ss ds p, w)) (targets ?m a))"
    using Cons.IH [of ?m] Cons.prems(1,2) one'(1) by (auto split: if_splits)
  have "moved ss ds (moved [s] [d] p) = moved (s # ss) (d # ds) p" for p
    using Cons.prems(1,2) moved_other [of _ ss ds] by (auto split: if_splits)
  then have "(\<lambda>(p, w). (moved ss ds p, w)) \<circ> (\<lambda>(p, w). (moved [s] [d] p, w)) = (\<lambda>(p, w :: bool). (moved (s # ss) (d # ds) p, w))"
    by (auto simp: fun_eq_iff)
  then show ?case using rest one'(2) by (simp add: option.map_comp)
qed

section \<open>The small reverse mapping is a right one\<close>

lemma table_rmap_ptes:
  "ptes (table_rmap p q m) a = (case ptes m a of
     Pte_migration p' k fl \<Rightarrow> if p' = p then Pte_present q (k = Mig_writable) fl else ptes m a | _ \<Rightarrow> ptes m a)"
  by (simp add: table_rmap_def Let_def table_simps)

lemma table_rmap_map_ok:
  assumes "map_ok m"
  shows "map_ok (table_rmap p q m)"
  unfolding map_ok_def
proof (intro conjI allI)
  let ?m = "table_rmap p q m" and ?F = "migration_frames p m"
  have "{a. ptes ?m a \<noteq> Pte_none} = {a. ptes m a \<noteq> Pte_none}"
    by (auto simp: table_rmap_ptes split: pte.splits if_splits)
  then show "finite {a. ptes ?m a \<noteq> Pte_none}" using assms by (simp add: map_ok_def)
  have "?F \<subseteq> {a. ptes m a \<noteq> Pte_none}" by (auto simp: migration_frames_def)
  then have F: "finite ?F" using assms by (auto simp: map_ok_def intro: finite_subset)
  fix r
  have old: "finite (mapping_frames m r)" "int (card (mapping_frames m r)) \<le> mapcount (meta m r)"
    using assms by (simp_all add: map_ok_def)
  have "maps_page (ptes ?m a) = (if a \<in> ?F then Some q else maps_page (ptes m a))" for a
    by (cases "ptes m a") (auto simp: migration_frames_def table_rmap_ptes)
  moreover have "maps_page (ptes m a) = None" if "a \<in> ?F" for a
    using that by (auto simp: migration_frames_def)
  ultimately have frames: "mapping_frames ?m r = (if r = q then mapping_frames m r \<union> ?F else mapping_frames m r)"
    by (auto simp: mapping_frames_def split: if_splits)
  have count: "mapcount (meta ?m r) = mapcount (meta m r) + (if r = q then int (card ?F) else 0)"
    by (simp add: table_rmap_def Let_def set_meta_def)
  show "finite (mapping_frames ?m r)" unfolding frames using old(1) F by auto
  show "int (card (mapping_frames ?m r)) \<le> mapcount (meta ?m r)"
    using frames count old(2) card_Un_le [of "mapping_frames m r" ?F] by auto
qed

lemma small_rmap_doc: "rmap_doc small_mm_env"
  using small_rmap_ok table_rmap_map_ok
  by (auto simp: rmap_doc_def small_mm_env_def table_rmap_ptes split: pte.splits)

lemma small_map_ok: "map_ok small_mm"
proof -
  have "{a. ptes small_mm a \<noteq> Pte_none} = {16}" "mapping_frames small_mm p = (if p = 5 then {16} else {})" for p
    by (auto simp: small_mm_def mapping_frames_def)
  then show ?thesis by (simp add: map_ok_def small_mm_def plain_page_def)
qed

section \<open>A whole migration\<close>

lemma driver_step_remaps:
  assumes "rmap_doc env" and "migrate_vma_setup env ws args m = Some (0, mv, m1)" and "map_ok m"
    and "driver_step mv m1 mv' m2" and "same_table m1 m2"
  shows "targets (migrate_vma_finalize env mv' m2) =
    (\<lambda>a. map_option (\<lambda>(p, w). (moved (entries mv') (take (mv_npages mv') (mv_dst mv')) p, w)) (targets m a))"
proof -
  let ?src = "entries mv'" and ?dst = "take (mv_npages mv') (mv_dst mv')"
  note st = setup_table [OF assms(1-3)] and tab = same_table_facts [OF assms(5)]
  have pages: "pages_of ?src = pages_of (entries mv)" "length ?src = length ?dst"
    "distinct (pages_of ?dst)" "set (pages_of ?src) \<inter> set (pages_of ?dst) = {}"
    using assms(4) by (auto simp: driver_step_def Let_def entries_def)
  moreover have "distinct (pages_of ?src)"
    using setup_walk_ok [OF rmap_doc_ok [OF assms(1)] assms(2)] pages(1) by (simp add: walk_ok_def collected_def)
  moreover have "\<forall>s \<in> set ?src. mp_valid s \<longrightarrow> unmapped m2 (mp_page s)"
  proof (intro ballI impI)
    fix s assume "s \<in> set ?src" "mp_valid s"
    then have "mp_page s \<in> set (pages_of ?src)" by (auto simp: pages_of_def)
    then have "mp_page s \<in> set (pages_of (entries mv))" unfolding pages(1) .
    then obtain s' where "s' \<in> set (entries mv)" "mp_valid s'" "mp_page s' = mp_page s" by (auto simp: pages_of_def)
    then show "unmapped m2 (mp_page s)" using st tab by metis
  qed
  ultimately show ?thesis
    using finalize_table [OF assms(1), of ?src ?dst m2] st tab
    by (simp add: migrate_vma_finalize_def entries_def)
qed

text \<open>
  C7. A migration moves exactly what it should: in the end every entry of the page table that stood
  for a page with a marked source entry and a destination stands for the destination, with the same access;
  every other entry, also those of pages that were given up, stands for the page it stood for before.
\<close>

theorem migration_remaps:
  assumes "rmap_doc env" and "migrate_vma_setup env ws args m = Some (0, mv, m1)" and "map_ok m"
    and "driver_step mv m1 mv' m2" and "same_table m1 m2"
  shows "pte_target (ptes (migrate_vma_finalize env mv' m2) a) =
    (case pte_target (ptes m a) of
       None \<Rightarrow> None
     | Some (p, w) \<Rightarrow> Some (moved (entries mv') (take (mv_npages mv') (mv_dst mv')) p, w))"
  using fun_cong [OF driver_step_remaps [OF assms], of a] by (auto simp: targets_def split: option.splits)

text \<open>Page 5 moves to page 30, which the driver has taken from the allocator.\<close>

theorem migration_remaps_witness:
  "\<exists>mv m1. migrate_vma_setup small_mm_env small_walk small_args small_mm = Some (0, mv, m1)
    \<and> pte_target (ptes (migrate_vma_finalize small_mm_env (mv\<lparr>mv_dst := [migrate_pfn 30, no_pfn]\<rparr>) (lock_page 30 (get_page 30 m1))) 16)
      = Some (30, True)"
proof -
  obtain mv m1 where run: "migrate_vma_setup small_mm_env small_walk small_args small_mm = Some (0, mv, m1)"
    "entries mv = [(migrate_pfn 5)\<lparr>mp_migrate := True, mp_write := True\<rparr>, hole_pfn]"
    "mv_npages mv = 2" "mv_dst mv = [no_pfn, no_pfn]" "length (mv_src mv) = 2" using small_setup by blast
  let ?mv = "mv\<lparr>mv_dst := [migrate_pfn 30, no_pfn]\<rparr>" and ?m = "lock_page 30 (get_page 30 m1)"
  have "\<not> is_locked small_mm 30" by (simp add: is_locked_def small_mm_def plain_page_def)
  then have "\<not> is_locked m1 30"
    using setup_walk_ok [OF small_rmap_ok run(1)] run(2) by (auto simp: walk_ok_def collected_def holds_def)
  then have "driver_step mv m1 ?mv ?m"
    using run(2-5) by (auto simp: driver_step_def Let_def entries_def page_simps fun_eq_iff)
  moreover have "same_table m1 ?m" by (simp add: same_table_def table_simps)
  moreover have "pte_target (ptes small_mm 16) = Some (5, True)" by (simp add: small_mm_def)
  moreover have "entries ?mv = entries mv" by (simp add: entries_def)
  ultimately show ?thesis
    using migration_remaps [OF small_rmap_doc run(1) small_map_ok, of ?mv ?m 16] run by simp
qed



end
