(* ===== verification/Devmem_Refine.thy ===== *)
theory Devmem_Refine
  imports Devmem
begin

text \<open>
  The device's page allocator as an implementation of a stack: any sequence of \<open>dmirror_devmem_alloc_page\<close> and
  \<open>dmirror_devmem_free\<close> that is legal for a stack of free pages runs on the driver's data with the same pages.
\<close>

section \<open>Specification and implementation\<close>

datatype ('e, 'p) pool_op = Take 'e | Give 'p

text \<open>
  The specification: the pages handed out and the stack of free ones. Taking needs a page on the stack (and an
  environment that lets the operation succeed), giving back a page that was handed out.
\<close>

fun stack_run :: "('e \<Rightarrow> bool) \<Rightarrow> ('e, 'p) pool_op list \<Rightarrow> 'p set \<Rightarrow> 'p list \<Rightarrow> ('p list \<times> 'p set \<times> 'p list) option" where
  "stack_run ready [] held ps = Some ([], held, ps)"
| "stack_run ready (Take e # ops) held ps =
    (case ps of
       [] \<Rightarrow> None
     | p # ps \<Rightarrow> if ready e then map_option (\<lambda>(rs, st). (p # rs, st)) (stack_run ready ops (insert p held) ps) else None)"
| "stack_run ready (Give p # ops) held ps = (if p \<in> held then stack_run ready ops (held - {p}) (p # ps) else None)"

fun pool_run ::
  "('e \<Rightarrow> 'k \<Rightarrow> ('p option \<times> 'k) option) \<Rightarrow> ('p \<Rightarrow> 'k \<Rightarrow> 'k option) \<Rightarrow> ('e, 'p) pool_op list \<Rightarrow> 'k \<Rightarrow> ('p list \<times> 'k) option"
where
  "pool_run tk pt [] k = Some ([], k)"
| "pool_run tk pt (Take e # ops) k =
    (case tk e k of Some (Some p, k) \<Rightarrow> map_option (\<lambda>(rs, k). (p # rs, k)) (pool_run tk pt ops k) | _ \<Rightarrow> None)"
| "pool_run tk pt (Give p # ops) k = (case pt p k of None \<Rightarrow> None | Some k \<Rightarrow> pool_run tk pt ops k)"

section \<open>The simulation\<close>

context page_pool
begin

definition represents :: "'k \<Rightarrow> 'p set \<Rightarrow> 'p list \<Rightarrow> bool" where
  "represents k held ps \<longleftrightarrow> pool k ps \<and> (\<forall>p \<in> held. out k p) \<and> held \<inter> set ps = {}"

lemma run_refines:
  "represents k held ps \<Longrightarrow> stack_run ready ops held ps = Some (rs, held', ps') \<Longrightarrow>
    \<exists>k'. pool_run tk pt ops k = Some (rs, k') \<and> represents k' held' ps'"
proof (induction ops arbitrary: k held ps rs)
  case (Cons op ops)
  show ?case
  proof (cases op)
    case (Take e)
    with Cons.prems(2) obtain p qs rs1 where run: "ps = p # qs" "ready e" "rs = p # rs1"
      "stack_run ready ops (insert p held) qs = Some (rs1, held', ps')"
      by (auto split: list.splits if_splits)
    have rep: "pool k (p # qs)" "\<forall>q\<in>held. out k q" "held \<inter> set (p # qs) = {}"
      using Cons.prems(1) run(1) by (simp_all add: represents_def)
    from tk_page [OF rep(1) run(2)] obtain k1 where
      k1: "tk e k = Some (Some p, k1)" "pool k1 qs" "out k1 p" "\<forall>q. q \<noteq> p \<longrightarrow> out k1 q = out k q" by blast
    have "represents k1 (insert p held) qs"
      using rep k1(2-4) pool_distinct [OF rep(1)] by (auto simp: represents_def)
    from Cons.IH [OF this run(4)] show ?thesis using Take k1(1) run(3) by auto
  next
    case (Give p)
    with Cons.prems(2) have run: "p \<in> held" "stack_run ready ops (held - {p}) (p # ps) = Some (rs, held', ps')"
      by (auto split: if_splits)
    have rep: "pool k ps" "\<forall>q\<in>held. out k q" "held \<inter> set ps = {}"
      using Cons.prems(1) by (simp_all add: represents_def)
    with run(1) have "out k p" "p \<notin> set ps" by auto
    from pt_page [OF rep(1) this] obtain k1 where
      k1: "pt p k = Some k1" "pool k1 (p # ps)" "\<forall>q. q \<noteq> p \<longrightarrow> out k1 q = out k q" by blast
    have "represents k1 (held - {p}) (p # ps)" using rep k1(2,3) by (auto simp: represents_def)
    from Cons.IH [OF this run(2)] show ?thesis using Give k1(1) by simp
  qed
qed simp

end

section \<open>The device's pages\<close>

text \<open>
  C19. The free list implements a stack. Whatever sequence of allocations and releases the specification
  allows, starting from the pages \<open>held\<close> that are in use and the stack \<open>ps\<close> of free ones, the driver runs
  it to its end on its linked list, hands out exactly the pages the specification hands out, in the same order,
  and ends with a free list and pages in use that are those of the specification.
\<close>

theorem devmem_refines_stack:
  assumes "device_ok d k ps" and "\<forall>p\<in>held. lent d k p" and "held \<inter> set ps = {}"
    and "stack_run (\<lambda>e. e_alloc_page e \<noteq> None) ops held ps = Some (rs, held', ps')"
  shows "\<exists>k'. pool_run (\<lambda>e. dmirror_devmem_alloc_page e d) dmirror_devmem_free ops k = Some (rs, k')
    \<and> device_ok d k' ps' \<and> (\<forall>p\<in>held'. lent d k' p) \<and> held' \<inter> set ps' = {}"
  using devmem.run_refines [of d k held ps ops rs held' ps'] assms by (simp add: devmem.represents_def)

theorem devmem_refines_stack_witness:
  "\<exists>k'. pool_run (\<lambda>e. dmirror_devmem_alloc_page e 0) dmirror_devmem_free
      [Take \<lparr>e_alloc_page = Some 99, e_chunk = granting\<rparr>, Take \<lparr>e_alloc_page = Some 98, e_chunk = granting\<rparr>,
       Give 20, Take \<lparr>e_alloc_page = Some 97, e_chunk = granting\<rparr>] two_chunks = Some ([20, 10, 20], k')
    \<and> device_ok 0 k' [] \<and> lent 0 k' 10 \<and> lent 0 k' 20"
proof -
  let ?e = "\<lambda>r. \<lparr>e_alloc_page = Some r, e_chunk = granting\<rparr>"
  have "stack_run (\<lambda>e. e_alloc_page e \<noteq> None) [Take (?e 99), Take (?e 98), Give 20, Take (?e 97)] {} [20, 10]
    = Some ([20, 10, 20], {10, 20::page}, [])"
    by (auto simp: insert_Diff_if)
  from devmem_refines_stack [OF two_chunks_ok(1) _ _ this] show ?thesis by simp
qed

end
