(* ===== verification/Nmsg_Table.thy ===== *)
theory Nmsg_Table
  imports Nmsg_Client
begin

text \<open>
  The type of the table of shared pages: every entry names an allocated page of its own. \<open>memory_init\<close>
  establishes it, the client and the server of the UDP transport keep it on every path, and it is what
  \<open>memory_destroy\<close> and \<open>nmsg_process_message\<close> need in order to complete.
\<close>

section \<open>Well-typed tables\<close>

definition entries_ok :: "page_t list \<Rightarrow> page set \<Rightarrow> bool" where
  "entries_ok es S \<longleftrightarrow> distinct (map pg_page es)
    \<and> list_all (\<lambda>e. case pg_page e of None \<Rightarrow> False | Some p \<Rightarrow> p \<in> S) es"

definition table_ok :: "'s mem_state_scheme \<Rightarrow> bool" where
  "table_ok k =
    (case memory k of
       Mem_at m \<Rightarrow> length (m_pages m) = unat (m_size m) \<and> entries_ok (m_pages m) (sys_pages k)
     | _ \<Rightarrow> False)"

text \<open>\<open>alloc_page\<close> returns pages that are not allocated.\<close>

fun fresh_allocs :: "page set \<Rightarrow> recv_env list \<Rightarrow> bool" where
  "fresh_allocs S [] = True"
| "fresh_allocs S (e # es) = (case rc_page e of None \<Rightarrow> fresh_allocs S es | Some p \<Rightarrow> p \<notin> S \<and> fresh_allocs (insert p S) es)"

text \<open>What other threads do while the server waits keeps the table.\<close>

definition others_typed :: "serve_event list \<Rightarrow> bool" where
  "others_typed es \<longleftrightarrow> (\<forall>e\<in>set es. \<forall>k k'. table_ok k \<longrightarrow> se_other e k = Some k' \<longrightarrow> table_ok k')"

lemma table_okE:
  assumes "table_ok k"
  obtains m where "memory k = Mem_at m" "length (m_pages m) = unat (m_size m)" "entries_ok (m_pages m) (sys_pages k)"
  using assms by (auto simp: table_ok_def split: memory_ptr.splits)

lemma entries_ok_nth: "entries_ok es S \<Longrightarrow> i < length es \<Longrightarrow> \<exists>p. pg_page (es ! i) = Some p \<and> p \<in> S"
  by (auto simp: entries_ok_def list_all_length split: option.splits)

lemma entries_ok_mono: "entries_ok es S \<Longrightarrow> S \<subseteq> T \<Longrightarrow> entries_ok es T"
  by (fastforce simp: entries_ok_def list_all_iff split: option.splits)

lemma entries_ok_same: "entries_ok es S \<Longrightarrow> map pg_page es' = map pg_page es \<Longrightarrow> entries_ok es' S"
  unfolding entries_ok_def list_all_length
  by (metis (no_types, lifting) length_map nth_map)

lemma entries_ok_update:
  assumes "entries_ok es S" and "p \<notin> S"
  shows "entries_ok (es[i := shared_page p]) (insert p S)"
proof -
  have "Some p \<noteq> pg_page e" if "e \<in> set es" for e
    using assms that by (auto simp: entries_ok_def list_all_iff split: option.splits)
  then have "Some p \<notin> set (map pg_page es)" by auto
  then have "distinct (map pg_page (es[i := shared_page p]))"
    using assms(1) by (simp add: entries_ok_def map_update shared_page_def distinct_list_update del: set_map)
  moreover have "list_all (\<lambda>e. case pg_page e of None \<Rightarrow> False | Some q \<Rightarrow> q \<in> insert p S) (es[i := shared_page p])"
    using assms(1) set_update_subset_insert [of es i "shared_page p"]
    by (fastforce simp: entries_ok_def list_all_iff shared_page_def split: option.splits)
  ultimately show ?thesis by (simp add: entries_ok_def)
qed

section \<open>The operations keep the type\<close>

lemma table_ok_cong:
  "table_ok k \<Longrightarrow> memory k' = memory k \<Longrightarrow> sys_pages k' = sys_pages k \<Longrightarrow> table_ok k'"
  by (auto simp: table_ok_def split: memory_ptr.splits)

lemma retrieve_loop_typed:
  "retrieve_loop es is stack k = Some (r, k') \<Longrightarrow> table_ok k \<Longrightarrow> fresh_allocs (sys_pages k) es \<Longrightarrow> table_ok k'"
proof (induction es "is" stack k rule: retrieve_loop.induct)
  case (3 e es i "is" stack k)
  show ?case
  proof (cases "rc_len e < 0 \<or> rc_page e = None")
    case True
    then have "k' = k" using 3(2) by (cases "rc_len e < 0") (auto simp: Let_def)
    with 3(3) show ?thesis by simp
  next
    case False
    then obtain p where p: "\<not> rc_len e < 0" "rc_page e = Some p" by auto
    let ?k = "k\<lparr>sys_pages := insert p (sys_pages k), page_data := (page_data k)(p := map (rc_fill e stack) [0..<page_bytes])\<rparr>"
    obtain m where m: "memory k = Mem_at m" "length (m_pages m) = unat (m_size m)" "entries_ok (m_pages m) (sys_pages k)"
      using 3(3) by (rule table_okE)
    let ?mp = "Mem_at (m\<lparr>m_pages := (m_pages m)[i := shared_page p]\<rparr>)"
    have run: "retrieve_loop es is (rc_fill e stack) (?k\<lparr>memory := ?mp\<rparr>) = Some (r, k')" "update_entry i (\<lambda>_. shared_page p) (memory ?k) = Some ?mp"
      using 3(2) p m(1) by (auto simp: Let_def update_entry_def split: if_splits)
    have fresh: "p \<notin> sys_pages k" "fresh_allocs (insert p (sys_pages k)) es" using 3(4) p(2) by simp_all
    have "table_ok (?k\<lparr>memory := ?mp\<rparr>)"
      using m entries_ok_update [OF m(3) fresh(1)] by (simp add: table_ok_def)
    from 3(1) [OF refl p(1) p(2) refl run(2) run(1) this] fresh(2) show ?thesis by simp
  qed
qed simp_all

lemma retrieve_pages_typed:
  assumes "nmsg_retrieve_pages sendmsg stack es n k = Some (r, k')" and "table_ok k" and "fresh_allocs (sys_pages k) es"
  shows "table_ok k'"
proof -
  obtain q k1 where k1: "nmsg_send_message sendmsg request_message k = Some (q, k1)"
    "if q < 0 then k' = k1 else retrieve_loop es [0..<nat n] (request_frame stack) k1 = Some (r, k')"
    using assms(1) by (auto simp: nmsg_retrieve_pages_def split: option.splits if_splits)
  then have same: "memory k1 = memory k" "sys_pages k1 = sys_pages k"
    by (auto simp: nmsg_send_message_def Let_def split: option.splits if_splits)
  then have "table_ok k1" using assms(2) table_ok_cong by blast
  with k1(2) same assms(3) retrieve_loop_typed show ?thesis by (auto split: if_splits)
qed

lemma process_message_typed:
  assumes "nmsg_process_message bytes k = Some k'" and "table_ok k"
  shows "table_ok k'"
proof -
  obtain m where m: "memory k = Mem_at m" "length (m_pages m) = unat (m_size m)" "entries_ok (m_pages m) (sys_pages k)"
    using assms(2) by (rule table_okE)
  obtain e es d where k': "m_pages m = e # es"
    "k' = k\<lparr>page_data := d, memory := Mem_at (m\<lparr>m_pages := e\<lparr>pg_state := SHARED\<rparr> # es\<rparr>)\<rparr>"
    using assms(1) m(1) by (auto simp: nmsg_process_message_def update_entry_def Let_def split: if_splits list.splits option.splits)
  have "entries_ok (e\<lparr>pg_state := SHARED\<rparr> # es) (sys_pages k)"
    using m(3) by (rule entries_ok_same) (simp add: k'(1))
  with m(2) k' show ?thesis by (simp add: table_ok_def)
qed


lemma serve_turn_typed:
  assumes "serve_turn e k = Some q" and "table_ok k" and "others_typed [e]"
  shows "case q of Inl k' \<Rightarrow> table_ok k' | Inr k' \<Rightarrow> table_ok k'"
proof (cases "se_stop e")
  case True
  with assms(1,2) show ?thesis by (auto simp: serve_turn_def)
next
  case False
  with assms(1) obtain k1 s b old where k1: "se_other e k = Some k1" "sv_sock k1 = Some s" "sv_buf k1 = Some b" "s \<in> socks k1" "bufs k1 b = Some old"
    by (auto simp: serve_turn_def split: option.splits if_splits)
  let ?k = "k1\<lparr>bufs := (bufs k1)(b \<mapsto> se_fill e old)\<rparr>"
  have "table_ok k1" using assms(2,3) k1(1) unfolding others_typed_def set_simps by blast
  then have typed: "table_ok ?k" by (rule table_ok_cong) simp_all
  consider "q = Inl ?k" | k2 where "nmsg_process_message (se_fill e old) ?k = Some k2" "q = Inr k2"
    using assms(1) False k1 by (auto simp: serve_turn_def Let_def split: if_splits)
  then show ?thesis by cases (use typed process_message_typed in auto)
qed

lemma serve_loop_typed: "serve_loop es k = Some k' \<Longrightarrow> table_ok k \<Longrightarrow> others_typed es \<Longrightarrow> table_ok k'"
proof (induction es arbitrary: k)
  case (Cons e es)
  obtain q where q: "serve_turn e k = Some q" using Cons.prems(1) by (auto split: option.splits)
  have others: "others_typed [e]" "others_typed es" using Cons.prems(3) unfolding others_typed_def set_simps by blast+
  from serve_turn_typed [OF q Cons.prems(2) others(1)] q Cons.prems(1) Cons.IH [OF _ _ others(2)]
  show ?case by (cases q) auto
qed simp

lemma sock_release_table: "sock_release s k = Some k' \<Longrightarrow> memory k' = memory k \<and> sys_pages k' = sys_pages k"
  by (auto simp: sock_release_def split: option.splits if_splits)

lemma kfree_table: "kfree b k = Some k' \<Longrightarrow> memory k' = memory k \<and> sys_pages k' = sys_pages k"
  by (auto simp: kfree_def split: option.splits if_splits)

lemma init_server_typed:
  assumes "nmsg_init_server e es k = Some (r, k')" and "table_ok k" and "others_typed es"
  shows "table_ok k'"
proof -
  have socket: "table_ok (server_socket e s k)" for s
    using assms(2) by (rule table_ok_cong) (simp_all add: server_socket_def)
  have release: "table_ok k2" if "sock_release s k1 = Some k2" "table_ok k1" for s k1 k2
    using sock_release_table [OF that(1)] by (intro table_ok_cong [OF that(2)]) simp_all
  have free: "table_ok k2" if "kfree b k1 = Some k2" "table_ok k1" for b k1 k2
    using kfree_table [OF that(1)] by (intro table_ok_cong [OF that(2)]) simp_all
  have buf: "table_ok (k1\<lparr>sv_buf := b\<rparr>)" "table_ok (k1\<lparr>sv_buf := b, bufs := f\<rparr>)" if "table_ok k1" for b f k1
    by (simp_all add: table_ok_cong [OF that])
  obtain err t where created: "sv_created e = (err, t)" by fastforce
  let ?k = "server_socket e t k"
  show ?thesis
  proof (cases "err < 0 \<or> sv_bind e < 0 \<or> sv_kmalloc e = None")
    case True
    then consider "k' = k" | k1 where "table_ok k1" "sock_release (sv_sock k1) k1 = Some k'"
      using assms(1) created socket [of t] buf(1) [OF socket [of t], of None]
      by (cases "err < 0"; cases "sv_bind e < 0") (auto simp: nmsg_init_server_def Let_def)
    then show ?thesis by cases (use assms(2) release in auto)
  next
    case False
    then obtain b bytes where env: "\<not> err < 0" "\<not> sv_bind e < 0" "sv_kmalloc e = Some (b, bytes)" by auto
    let ?k1 = "?k\<lparr>sv_buf := Some b, bufs := (bufs ?k)(b \<mapsto> bytes)\<rparr>"
    obtain k2 k3 where run: "serve_loop es ?k1 = Some k2" "kfree (sv_buf k2) k2 = Some k3" "sock_release (sv_sock k3) k3 = Some k'"
      using assms(1) created env by (auto simp: nmsg_init_server_def Let_def split: option.splits)
    have "table_ok k2" using run(1) buf(2) [OF socket] assms(3) by (rule serve_loop_typed)
    then have "table_ok k3" by (rule free [OF run(2)])
    then show ?thesis by (rule release [OF run(3)])
  qed
qed

lemma memory_init_typed:
  fixes k :: "'s mem_state_scheme"
  assumes "inj_on f {..<250}"
  shows "\<exists>k'. memory_init True True (Some \<circ> f) k = Some k' \<and> table_ok k'"
proof -
  let ?es = "map (\<lambda>i. \<lparr>pg_state = INVALID, pg_page = Some (f i)\<rparr>) [0..<250]"
    and ?S = "sys_pages k \<union> {p. \<exists>i<250. (Some \<circ> f) i = Some p}"
  have "map pg_page ?es = map (Some \<circ> f) [0..<250]" by (simp add: comp_def del: upt_rec_numeral)
  moreover have "distinct (map (Some \<circ> f) [0..<250])"
    using assms by (simp add: distinct_map comp_inj_on atLeast0LessThan del: upt_rec_numeral)
  moreover have "list_all (\<lambda>e. case pg_page e of None \<Rightarrow> False | Some p \<Rightarrow> p \<in> ?S) ?es"
    by (auto simp: list_all_iff simp del: upt_rec_numeral)
  ultimately have "entries_ok ?es ?S" by (simp only: entries_ok_def)
  then show ?thesis by (simp add: memory_init_eq table_ok_def del: upt_rec_numeral)
qed

lemma memory_destroy_typed:
  assumes "table_ok k"
  shows "\<exists>k'. memory_destroy k = Some k' \<and> memory k' = Mem_freed"
proof -
  obtain m where m: "memory k = Mem_at m" "length (m_pages m) = unat (m_size m)" "entries_ok (m_pages m) (sys_pages k)"
    using assms by (rule table_okE)
  let ?f = "\<lambda>i. the (pg_page (m_pages m ! i))"
  have entry: "pg_page (m_pages m ! i) = Some (?f i) \<and> ?f i \<in> sys_pages k" if "i < length (m_pages m)" for i
    using entries_ok_nth [OF m(3) that] by auto
  have "inj_on ?f (set [0..<length (m_pages m)])"
  proof (rule inj_onI)
    fix i j assume ij: "i \<in> set [0..<length (m_pages m)]" "j \<in> set [0..<length (m_pages m)]" "?f i = ?f j"
    then have "map pg_page (m_pages m) ! i = map pg_page (m_pages m) ! j" using entry [of i] entry [of j] by simp
    with ij(1,2) m(3) show "i = j" by (simp add: entries_ok_def nth_eq_iff_index_eq del: nth_map)
  qed
  then have "destroy_pages (m_pages m) [0..<length (m_pages m)] k
      = Some (k\<lparr>sys_pages := sys_pages k - ?f ` set [0..<length (m_pages m)]\<rparr>)"
    using entry by (intro destroy_pages_ok) auto
  with m(1,2) show ?thesis by (simp add: memory_destroy_def)
qed

lemma process_message_completes:
  assumes "table_ok k" and "memory k = Mem_at m" and "m_size m \<noteq> 0" and "terminated bytes"
  shows "\<exists>k'. nmsg_process_message bytes k = Some k'"
proof -
  have m: "length (m_pages m) = unat (m_size m)" "entries_ok (m_pages m) (sys_pages k)"
    using assms(1,2) by (simp_all add: table_ok_def)
  with assms(3) obtain e es where es: "m_pages m = e # es" by (cases "m_pages m") (auto simp: unat_eq_0)
  with entries_ok_nth [OF m(2), of 0] obtain p where "pg_page e = Some p" by auto
  with process_message_ok [OF assms(4,2) es] show ?thesis by blast
qed

section \<open>The property\<close>

text \<open>
  C23. The table of shared pages is well typed from \<open>memory_init\<close> to \<open>memory_destroy\<close>. With successful
  allocations \<open>memory_init\<close> builds a well-typed table. Retrieving any number of pages, whatever the network answers and
  whichever allocation fails, and a whole run of the server, whatever it receives and on every error path,
  leave it well typed. On a well-typed table \<open>nmsg_process_message\<close> completes for a terminated message and
  \<open>memory_destroy\<close> completes, so no entry is ever null, freed or named twice.
\<close>

theorem table_typed:
  fixes k :: udp_state
  assumes "inj_on f {..<250}" and "table_ok k" and "fresh_allocs (sys_pages k) answers" and "others_typed events"
  shows "(\<exists>k'. memory_init True True (Some \<circ> f) k = Some k' \<and> table_ok k')
    \<and> (\<forall>r k'. nmsg_retrieve_pages sendmsg stack answers n k = Some (r, k') \<longrightarrow> table_ok k')
    \<and> (\<forall>r k'. nmsg_init_server env events k = Some (r, k') \<longrightarrow> table_ok k')
    \<and> (\<forall>m. memory k = Mem_at m \<longrightarrow> m_size m \<noteq> 0 \<longrightarrow> terminated bytes \<longrightarrow> (\<exists>k'. nmsg_process_message bytes k = Some k' \<and> table_ok k'))
    \<and> (\<exists>k'. memory_destroy k = Some k' \<and> memory k' = Mem_freed)"
proof (intro conjI allI impI)
  fix r k' assume "nmsg_retrieve_pages sendmsg stack answers n k = Some (r, k')"
  then show "table_ok k'" using assms(2,3) by (rule retrieve_pages_typed)
next
  fix r k' assume "nmsg_init_server env events k = Some (r, k')"
  then show "table_ok k'" using assms(2,4) by (rule init_server_typed)
next
  fix m assume "memory k = Mem_at m" "m_size m \<noteq> 0" "terminated bytes"
  then show "\<exists>k'. nmsg_process_message bytes k = Some k' \<and> table_ok k'"
    using process_message_completes [OF assms(2)] process_message_typed [OF _ assms(2)] by blast
qed (use assms memory_init_typed memory_destroy_typed in blast)+

theorem table_typed_witness:
  "table_ok client_udp \<and> (\<exists>k'. memory_init True True (Some \<circ> (\<lambda>i. i)) client_udp = Some k' \<and> table_ok k')
    \<and> (\<exists>k'. memory_destroy client_udp = Some k' \<and> memory k' = Mem_freed)"
proof -
  have ok: "table_ok client_udp" by (simp add: table_ok_def entries_ok_def)
  have fresh: "fresh_allocs (sys_pages client_udp) [received 20, received 21]" by (simp add: received_def)
  have others: "others_typed [message_event [104, 105], stop_event]"
    by (auto simp: others_typed_def message_event_def stop_event_def)
  show ?thesis
    using table_typed [of "\<lambda>i. i" client_udp "[received 20, received 21]" "[message_event [104, 105], stop_event]", OF _ ok fresh others] ok
    by simp
qed

end
