(* ===== verification/Internal.thy ===== *)
theory Internal
  imports Prelude
begin

text \<open>
  The inline helpers of \<open>mm/internal.h\<close> with a content of their own: the virtual addresses of a page range within a
  VMA, buddies, the test for unsharing, the release of the mmap lock around I/O, and small tests on flags. What the header
  takes from other headers (flag bits, the folio and page tests) are fields of the records and arguments. The result
  \<open>None\<close> is a failed \<open>VM_BUG_ON\<close> of a kernel that checks them.
\<close>

section \<open>Page ranges within a VMA\<close>

record vm_area_struct =
  vm_start :: u64
  vm_end :: u64
  vm_pgoff :: u64
  vm_flags :: u64
  vm_file :: nat

definition vma_pgoff_address :: "u64 \<Rightarrow> u64 \<Rightarrow> vm_area_struct \<Rightarrow> u64" where
  "vma_pgoff_address pgoff nr_pages vma =
    (if vm_pgoff vma \<le> pgoff
     then let address = vm_start vma + push_bit PAGE_SHIFT (pgoff - vm_pgoff vma)
          in if address < vm_start vma \<or> vm_end vma \<le> address then - of_int EFAULT else address
     else if vm_pgoff vma \<le> pgoff + nr_pages - 1 then vm_start vma
     else - of_int EFAULT)"

text \<open>A page as far as these helpers look at it: \<open>PageKsm\<close>, \<open>page_to_pgoff\<close> and \<open>compound_nr\<close>.\<close>

record rmap_page =
  rp_ksm :: bool
  rp_pgoff :: u64
  rp_nr :: u64

definition vma_address :: "rmap_page \<Rightarrow> vm_area_struct \<Rightarrow> u64 option" where
  "vma_address page vma = (if rp_ksm page then None else Some (vma_pgoff_address (rp_pgoff page) (rp_nr page) vma))"

record page_vma_mapped_walk =
  pw_pgoff :: u64
  pw_nr_pages :: u64
  pw_vma :: vm_area_struct
  pw_address :: u64

definition vma_address_end :: "page_vma_mapped_walk \<Rightarrow> u64" where
  "vma_address_end pvmw =
    (let vma = pw_vma pvmw
     in if pw_nr_pages pvmw = 1 then pw_address pvmw + PAGE_SIZE
        else let pgoff = pw_pgoff pvmw + pw_nr_pages pvmw;
                 address = vm_start vma + push_bit PAGE_SHIFT (pgoff - vm_pgoff vma)
             in if address < vm_start vma \<or> vm_end vma < address then vm_end vma else address)"

text \<open>
  The reference: the addresses of the VMA whose page lies in the range, in unbounded numbers. A VMA is aligned and not empty,
  and the offset of its pages in the file, in bytes, fits the machine word, as does that of the range.
\<close>

definition vma_ok :: "vm_area_struct \<Rightarrow> bool" where
  "vma_ok vma \<longleftrightarrow> unat (vm_start vma) mod page_bytes = 0 \<and> unat (vm_end vma) mod page_bytes = 0 \<and> vm_start vma < vm_end vma"

definition range_addresses :: "nat \<Rightarrow> nat \<Rightarrow> vm_area_struct \<Rightarrow> nat set" where
  "range_addresses pgoff nr vma =
    {a. unat (vm_start vma) \<le> a \<and> a < unat (vm_end vma)
      \<and> pgoff \<le> unat (vm_pgoff vma) + (a - unat (vm_start vma)) div page_bytes
      \<and> unat (vm_pgoff vma) + (a - unat (vm_start vma)) div page_bytes < pgoff + nr}"

lemma pages_before: "pgoff \<le> v + d div page_bytes \<longleftrightarrow> page_bytes * (pgoff - v) \<le> d" for pgoff v d :: nat
proof -
  have "pgoff \<le> v + d div page_bytes \<longleftrightarrow> pgoff - v \<le> d div page_bytes" by linarith
  also have "\<dots> \<longleftrightarrow> (pgoff - v) * page_bytes \<le> d" by (rule less_eq_div_iff_mult_less_eq) simp
  finally show ?thesis by (simp only: mult.commute)
qed

lemma range_addresses_eq:
  assumes "vma_ok vma" and "0 < nr" and "unat (vm_pgoff vma) < pgoff + nr"
  shows "range_addresses pgoff nr vma =
    {unat (vm_start vma) + page_bytes * (pgoff - unat (vm_pgoff vma)) ..<
     min (unat (vm_end vma)) (unat (vm_start vma) + page_bytes * (pgoff + nr - unat (vm_pgoff vma)))}"
proof -
  let ?s = "unat (vm_start vma)" and ?e = "unat (vm_end vma)" and ?v = "unat (vm_pgoff vma)"
  have upto: "(?v + d div page_bytes < pgoff + nr) = (d < page_bytes * (pgoff + nr - ?v))" for d
    using pages_before [of "pgoff + nr" ?v d] by (simp only: not_le [symmetric])
  have iff: "a \<in> range_addresses pgoff nr vma \<longleftrightarrow>
      ?s \<le> a \<and> a < ?e \<and> page_bytes * (pgoff - ?v) \<le> a - ?s \<and> a - ?s < page_bytes * (pgoff + nr - ?v)" for a
    unfolding range_addresses_def mem_Collect_eq upto pages_before ..
  have "a \<in> range_addresses pgoff nr vma \<longleftrightarrow>
      ?s + page_bytes * (pgoff - ?v) \<le> a \<and> a < min ?e (?s + page_bytes * (pgoff + nr - ?v))" for a
    unfolding iff by (simp only: min_less_iff_conj) linarith
  then show ?thesis by (simp add: set_eq_iff)
qed

lemma unat_page_offset:
  fixes s x :: u64
  assumes "unat x < 2 ^ 52"
  shows "unat (push_bit PAGE_SHIFT x) = page_bytes * unat x"
    and "unat s + page_bytes * unat x < 2 ^ 64 \<Longrightarrow> unat (s + push_bit PAGE_SHIFT x) = unat s + page_bytes * unat x"
    and "2 ^ 64 \<le> unat s + page_bytes * unat x \<Longrightarrow> s + push_bit PAGE_SHIFT x < s"
proof -
  show x: "unat (push_bit PAGE_SHIFT x) = page_bytes * unat x"
    using assms by (simp add: push_bit_eq_mult unat_word_ariths)
  show "unat s + page_bytes * unat x < 2 ^ 64 \<Longrightarrow> unat (s + push_bit PAGE_SHIFT x) = unat s + page_bytes * unat x"
    by (simp add: unat_word_ariths x)
  assume big: "2 ^ 64 \<le> unat s + page_bytes * unat x"
  have small: "page_bytes * unat x < 2 ^ 64" using assms by simp
  have "unat s < 2 ^ 64" using unsigned_less [of s] by simp
  with small have "unat s + page_bytes * unat x - 2 ^ 64 < 2 ^ 64" by linarith
  with big have "(unat s + page_bytes * unat x) mod 2 ^ 64 = unat s + page_bytes * unat x - 2 ^ 64"
    by (simp only: le_mod_geq mod_less)
  then have "unat (s + push_bit PAGE_SHIFT x) = unat s + page_bytes * unat x - 2 ^ 64"
    by (simp add: unat_word_ariths x)
  with small big show "s + push_bit PAGE_SHIFT x < s" by (simp add: word_less_nat_alt)
qed

lemma vma_pgoff_address_eq:
  assumes "unat pgoff + unat nr < 2 ^ 52" and "0 < unat nr" and "vm_start vma < vm_end vma"
  shows "unat (vm_pgoff vma) < unat pgoff + unat nr \<Longrightarrow>
      unat (vm_start vma) + page_bytes * (unat pgoff - unat (vm_pgoff vma)) < unat (vm_end vma) \<Longrightarrow>
      unat (vma_pgoff_address pgoff nr vma) = unat (vm_start vma) + page_bytes * (unat pgoff - unat (vm_pgoff vma))"
    and "unat (vm_pgoff vma) < unat pgoff + unat nr \<Longrightarrow>
      unat (vm_end vma) \<le> unat (vm_start vma) + page_bytes * (unat pgoff - unat (vm_pgoff vma)) \<Longrightarrow>
      vma_pgoff_address pgoff nr vma = - of_int EFAULT"
    and "unat pgoff + unat nr \<le> unat (vm_pgoff vma) \<Longrightarrow> vma_pgoff_address pgoff nr vma = - of_int EFAULT"
proof -
  let ?s = "vm_start vma" and ?e = "vm_end vma" and ?v = "vm_pgoff vma"
  have bound: "unat ?e < 2 ^ 64" using unsigned_less [of ?e] by simp
  have last: "unat (pgoff + nr - 1) = unat pgoff + unat nr - 1"
  proof -
    have "unat (pgoff + nr) = unat pgoff + unat nr" using assms(1) by (simp add: unat_word_ariths)
    with assms(2) show ?thesis by (metis add_gr_0 unat_minus_one unat_0 less_numeral_extra(3))
  qed
  have diff: "unat (pgoff - ?v) = unat pgoff - unat ?v" if "?v \<le> pgoff" using that by (simp add: unat_sub)
  have small: "unat (pgoff - ?v) < 2 ^ 52" if "?v \<le> pgoff" using diff [OF that] assms(1) by linarith
  note off = unat_page_offset(2,3) [OF small, of ?s]
  {
    assume v: "unat ?v < unat pgoff + unat nr" and L: "unat ?s + page_bytes * (unat pgoff - unat ?v) < unat ?e"
    show "unat (vma_pgoff_address pgoff nr vma) = unat ?s + page_bytes * (unat pgoff - unat ?v)"
    proof (cases "?v \<le> pgoff")
      case True
      with L bound have "unat (?s + push_bit PAGE_SHIFT (pgoff - ?v)) = unat ?s + page_bytes * (unat pgoff - unat ?v)"
        using off(1) diff by simp
      with True L show ?thesis by (simp add: vma_pgoff_address_def word_less_nat_alt word_le_nat_alt Let_def)
    next
      case False
      then have "unat pgoff - unat ?v = 0" by (simp add: word_le_nat_alt)
      moreover have "?v \<le> pgoff + nr - 1" unfolding word_le_nat_alt last using v by linarith
      ultimately show ?thesis using False by (simp add: vma_pgoff_address_def)
    qed
  next
    assume v: "unat ?v < unat pgoff + unat nr" and L: "unat ?e \<le> unat ?s + page_bytes * (unat pgoff - unat ?v)"
    have le: "?v \<le> pgoff"
      using L assms(3) unfolding word_le_nat_alt word_less_nat_alt by (metis add.right_neutral diff_is_0_eq' leD linorder_linear mult_0_right)
    show "vma_pgoff_address pgoff nr vma = - of_int EFAULT"
    proof (cases "unat ?s + page_bytes * (unat pgoff - unat ?v) < 2 ^ 64")
      case True
      with off(1) [OF le] diff [OF le] have "?e \<le> ?s + push_bit PAGE_SHIFT (pgoff - ?v)"
        using L by (simp add: word_le_nat_alt)
      with le show ?thesis by (simp add: vma_pgoff_address_def Let_def)
    next
      case False
      with off(2) [OF le] diff [OF le] have "?s + push_bit PAGE_SHIFT (pgoff - ?v) < ?s" by simp
      with le show ?thesis by (simp add: vma_pgoff_address_def Let_def)
    qed
  next
    assume v: "unat pgoff + unat nr \<le> unat ?v"
    with assms(2) have "\<not> ?v \<le> pgoff" "\<not> ?v \<le> pgoff + nr - 1"
      unfolding word_le_nat_alt last by linarith+
    then show "vma_pgoff_address pgoff nr vma = - of_int EFAULT" by (simp add: vma_pgoff_address_def)
  }
qed

lemma vma_address_end_eq:
  assumes "unat (pw_pgoff w) + unat (pw_nr_pages w) < 2 ^ 52" and "pw_nr_pages w \<noteq> 1"
    and "unat (vm_pgoff (pw_vma w)) < unat (pw_pgoff w) + unat (pw_nr_pages w)"
  shows "unat (vma_address_end w) = min (unat (vm_end (pw_vma w)))
    (unat (vm_start (pw_vma w)) + page_bytes * (unat (pw_pgoff w) + unat (pw_nr_pages w) - unat (vm_pgoff (pw_vma w))))"
proof -
  let ?s = "vm_start (pw_vma w)" and ?e = "vm_end (pw_vma w)" and ?v = "vm_pgoff (pw_vma w)"
  let ?d = "pw_pgoff w + pw_nr_pages w - ?v" and ?n = "unat (pw_pgoff w) + unat (pw_nr_pages w) - unat ?v"
  have bound: "unat ?e < 2 ^ 64" using unsigned_less [of ?e] by simp
  have sum: "unat (pw_pgoff w + pw_nr_pages w) = unat (pw_pgoff w) + unat (pw_nr_pages w)"
    using assms(1) by (simp add: unat_word_ariths)
  then have diff: "unat ?d = ?n" using assms(3) by (simp add: unat_sub word_le_nat_alt)
  then have small: "unat ?d < 2 ^ 52" using assms(1) by linarith
  show ?thesis
  proof (cases "unat ?s + page_bytes * ?n < 2 ^ 64")
    case True
    then have "unat (?s + push_bit PAGE_SHIFT ?d) = unat ?s + page_bytes * ?n"
      using unat_page_offset(2) [OF small, of ?s] diff by simp
    with assms(2) show ?thesis
      by (simp add: vma_address_end_def Let_def word_less_nat_alt min_def)
  next
    case False
    then have "?s + push_bit PAGE_SHIFT ?d < ?s" using unat_page_offset(3) [OF small, of ?s] diff by simp
    with assms(2) have "vma_address_end w = ?e" by (simp add: vma_address_end_def Let_def)
    with False bound show ?thesis by simp
  qed
qed

text \<open>The end of a single page does not need cutting, since both are aligned.\<close>

lemma single_page_end:
  assumes "vma_ok vma" and "unat a = unat (vm_start vma) + page_bytes * k" and "unat a < unat (vm_end vma)"
  shows "unat (a + PAGE_SIZE) = unat a + page_bytes" "unat a + page_bytes \<le> unat (vm_end vma)"
proof -
  have "page_bytes dvd unat (vm_start vma)" "page_bytes dvd unat (vm_end vma)"
    using assms(1) by (simp_all add: vma_ok_def mod_0_imp_dvd)
  then have "page_bytes dvd unat (vm_end vma) - unat a" by (simp add: assms(2))
  with assms(3) have "page_bytes \<le> unat (vm_end vma) - unat a" by (intro dvd_imp_le) simp_all
  with assms(3) show up: "unat a + page_bytes \<le> unat (vm_end vma)" by linarith
  have "unat (vm_end vma) < 2 ^ 64" using unsigned_less [of "vm_end vma"] by simp
  with up show "unat (a + PAGE_SIZE) = unat a + page_bytes" by (simp add: unat_word_ariths)
qed

text \<open>
  C33. \<open>vma_address\<close> and \<open>vma_address_end\<close> agree with the set of addresses they stand for, computed in unbounded
  numbers: for a page or compound page with offsets below \<open>2 ^ 52\<close>, either no address of the VMA shows one of its pages and
  \<open>vma_address\<close> returns \<open>-EFAULT\<close>, or the two functions return the ends of exactly the addresses that do, however
  the range overlaps the VMA and even where \<open>vm_start\<close> plus the offset wraps through zero.
\<close>

theorem vma_address_range:
  assumes "vma_ok vma" and "\<not> rp_ksm page" and "0 < rp_nr page" and "unat (rp_pgoff page) + unat (rp_nr page) < 2 ^ 52"
  shows "\<exists>a. vma_address page vma = Some a \<and>
    (if range_addresses (unat (rp_pgoff page)) (unat (rp_nr page)) vma = {} then a = - of_int EFAULT
     else {unat a ..< unat (vma_address_end \<lparr>pw_pgoff = rp_pgoff page, pw_nr_pages = rp_nr page, pw_vma = vma, pw_address = a\<rparr>)}
       = range_addresses (unat (rp_pgoff page)) (unat (rp_nr page)) vma)"
proof -
  let ?p = "unat (rp_pgoff page)" and ?n = "unat (rp_nr page)" and ?v = "unat (vm_pgoff vma)"
    and ?s = "unat (vm_start vma)" and ?e = "unat (vm_end vma)" and ?a = "vma_pgoff_address (rp_pgoff page) (rp_nr page) vma"
  let ?w = "\<lparr>pw_pgoff = rp_pgoff page, pw_nr_pages = rp_nr page, pw_vma = vma, pw_address = ?a\<rparr>"
  have n: "0 < ?n" using assms(3) by (simp add: word_less_nat_alt)
  have se: "?s < ?e" "vm_start vma < vm_end vma" using assms(1) by (simp_all add: vma_ok_def word_less_nat_alt)
  note addr = vma_pgoff_address_eq [OF assms(4) n se(2)]
  have "if range_addresses ?p ?n vma = {} then ?a = - of_int EFAULT
    else {unat ?a ..< unat (vma_address_end ?w)} = range_addresses ?p ?n vma"
  proof (cases "?v < ?p + ?n")
    case False
    then have "range_addresses ?p ?n vma = {}" by (auto simp: range_addresses_def)
    with False addr(3) show ?thesis by simp
  next
    case True
    have R: "range_addresses ?p ?n vma = {?s + page_bytes * (?p - ?v) ..< min ?e (?s + page_bytes * (?p + ?n - ?v))}"
      by (rule range_addresses_eq) (use assms(1) n True in simp_all)
    show ?thesis
    proof (cases "?s + page_bytes * (?p - ?v) < ?e")
      case False
      with addr(2) [OF True] show ?thesis unfolding R by simp
    next
      case L: True
      have a: "unat ?a = ?s + page_bytes * (?p - ?v)" by (rule addr(1) [OF True L])
      have "page_bytes * (?p - ?v) < page_bytes * (?p + ?n - ?v)" using n True by linarith
      with L have ne: "range_addresses ?p ?n vma \<noteq> {}" unfolding R by simp
      have "unat (vma_address_end ?w) = min ?e (?s + page_bytes * (?p + ?n - ?v))"
      proof (cases "rp_nr page = 1")
        case False
        then show ?thesis using vma_address_end_eq [of ?w] assms(4) True by simp
      next
        case one: True
        then have "?p + ?n - ?v = ?p - ?v + 1" using True by simp
        then show ?thesis
          using one single_page_end [OF assms(1) a] L a by (simp add: vma_address_end_def)
      qed
      with a ne R show ?thesis by simp
    qed
  qed
  then show ?thesis using assms(2) by (auto simp: vma_address_def)
qed

text \<open>A VMA of two pages at the end of the address space: the second of three pages of a folio lies in it.\<close>

definition top_vma :: vm_area_struct where
  "top_vma = \<lparr>vm_start = 0xFFFFFFFFFFFFD000, vm_end = 0xFFFFFFFFFFFFF000, vm_pgoff = 7, vm_flags = 0, vm_file = 0\<rparr>"

theorem vma_address_range_witness:
  "vma_address \<lparr>rp_ksm = False, rp_pgoff = 6, rp_nr = 2\<rparr> top_vma = Some 0xFFFFFFFFFFFFD000
    \<and> {0xFFFFFFFFFFFFD000 ..< 0xFFFFFFFFFFFFE000} = range_addresses 6 2 top_vma"
proof -
  let ?p = "\<lparr>rp_ksm = False, rp_pgoff = 6, rp_nr = 2\<rparr>"
  have "vma_ok top_vma" by (simp add: vma_ok_def top_vma_def)
  moreover have "vma_address ?p top_vma = Some 0xFFFFFFFFFFFFD000"
    by (simp add: vma_address_def vma_pgoff_address_def top_vma_def)
  moreover have "vma_address_end \<lparr>pw_pgoff = 6, pw_nr_pages = 2, pw_vma = top_vma, pw_address = 0xFFFFFFFFFFFFD000\<rparr> = 0xFFFFFFFFFFFFE000"
    by (simp add: vma_address_end_def top_vma_def push_bit_eq_mult)
  ultimately show ?thesis
    using vma_address_range [of top_vma ?p] by (auto split: if_splits)
qed

section \<open>Tests on flags\<close>

text \<open>The bits of \<open>vm_flags\<close>, which depend on the architecture.\<close>

record vm_bits =
  VM_EXEC :: u64
  VM_WRITE :: u64
  VM_SHARED :: u64
  VM_STACK :: u64
  VM_LOCKED :: u64
  VM_SPECIAL :: u64
  VM_SOFTDIRTY :: u64

definition is_exec_mapping :: "vm_bits \<Rightarrow> u64 \<Rightarrow> bool" where
  "is_exec_mapping B flags \<longleftrightarrow> flags AND (VM_EXEC B OR VM_WRITE B OR VM_STACK B) = VM_EXEC B"

definition is_stack_mapping :: "vm_bits \<Rightarrow> u64 \<Rightarrow> bool" where
  "is_stack_mapping B flags \<longleftrightarrow> flags AND VM_STACK B = VM_STACK B"

definition is_data_mapping :: "vm_bits \<Rightarrow> u64 \<Rightarrow> bool" where
  "is_data_mapping B flags \<longleftrightarrow> flags AND (VM_WRITE B OR VM_SHARED B OR VM_STACK B) = VM_WRITE B"

text \<open>\<open>mlock_folio\<close>, \<open>munlock_folio\<close> and \<open>folio_test_large\<close> come from elsewhere.\<close>

definition mlock_vma_folio :: "vm_bits \<Rightarrow> ('f \<Rightarrow> bool) \<Rightarrow> ('f \<Rightarrow> 'f) \<Rightarrow> 'f \<Rightarrow> vm_area_struct \<Rightarrow> bool \<Rightarrow> 'f" where
  "mlock_vma_folio B large mlock_folio folio vma compound =
    (if vm_flags vma AND (VM_LOCKED B OR VM_SPECIAL B) = VM_LOCKED B \<and> (compound \<or> \<not> large folio)
     then mlock_folio folio else folio)"

definition munlock_vma_folio :: "vm_bits \<Rightarrow> ('f \<Rightarrow> bool) \<Rightarrow> ('f \<Rightarrow> 'f) \<Rightarrow> 'f \<Rightarrow> vm_area_struct \<Rightarrow> bool \<Rightarrow> 'f" where
  "munlock_vma_folio B large munlock_folio folio vma compound =
    (if vm_flags vma AND VM_LOCKED B \<noteq> 0 \<and> (compound \<or> \<not> large folio) then munlock_folio folio else folio)"

definition vma_soft_dirty_enabled :: "bool \<Rightarrow> vm_bits \<Rightarrow> vm_area_struct \<Rightarrow> bool" where
  "vma_soft_dirty_enabled config_mem_soft_dirty B vma =
    (if \<not> config_mem_soft_dirty then False else \<not> (vm_flags vma AND VM_SOFTDIRTY B \<noteq> 0))"

definition FOLL_TOUCH :: u32 where "FOLL_TOUCH = push_bit 16 1"
definition FOLL_TRIED :: u32 where "FOLL_TRIED = push_bit 17 1"
definition FOLL_REMOTE :: u32 where "FOLL_REMOTE = push_bit 18 1"
definition FOLL_PIN :: u32 where "FOLL_PIN = push_bit 19 1"
definition FOLL_FAST_ONLY :: u32 where "FOLL_FAST_ONLY = push_bit 20 1"
definition FOLL_UNLOCKABLE :: u32 where "FOLL_UNLOCKABLE = push_bit 21 1"

record gup_env =
  FOLL_WRITE :: u32
  FOLL_LONGTERM :: u32
  is_cow_mapping :: "u64 \<Rightarrow> bool"
  PageAnon :: bool
  PageAnonExclusive :: bool

definition gup_must_unshare :: "gup_env \<Rightarrow> vm_area_struct option \<Rightarrow> u32 \<Rightarrow> bool" where
  "gup_must_unshare e vma flags =
    (if flags AND (FOLL_WRITE e OR FOLL_PIN) \<noteq> FOLL_PIN then False
     else if \<not> PageAnon e
     then if \<not> (flags AND FOLL_LONGTERM e \<noteq> 0) then False
          else (case vma of None \<Rightarrow> True | Some vma \<Rightarrow> is_cow_mapping e (vm_flags vma))
     else \<not> PageAnonExclusive e)"

text \<open>The bits that tell the kinds of mappings apart are different bits.\<close>

definition kind_bits_ok :: "vm_bits \<Rightarrow> bool" where
  "kind_bits_ok B \<longleftrightarrow> VM_WRITE B \<noteq> 0 \<and> VM_STACK B \<noteq> 0 \<and>
     VM_EXEC B AND VM_WRITE B = 0 \<and> VM_EXEC B AND VM_STACK B = 0 \<and> VM_WRITE B AND VM_STACK B = 0"

lemma masked_and: "f AND m = d \<Longrightarrow> b AND m = b \<Longrightarrow> f AND b = d AND b" for f m d b :: u64
  by (metis and.assoc and.commute)

text \<open>No mapping is accounted twice: at most one of the three tests succeeds.\<close>

lemma mapping_kinds_disjoint:
  assumes "kind_bits_ok B"
  shows "\<not> (is_exec_mapping B flags \<and> is_data_mapping B flags)" "\<not> (is_exec_mapping B flags \<and> is_stack_mapping B flags)"
    "\<not> (is_data_mapping B flags \<and> is_stack_mapping B flags)"
proof -
  have part: "b AND (a OR b OR c) = b" "c AND (a OR b OR c) = c" "a AND (a OR b OR c) = a" for a b c :: u64
    by (rule bit_word_eqI; auto simp: bit_simps)+
  have e: "flags AND VM_WRITE B = 0" "flags AND VM_STACK B = 0" if "is_exec_mapping B flags"
    using masked_and [OF that [unfolded is_exec_mapping_def]] part assms by (simp_all add: kind_bits_ok_def)
  have d: "flags AND VM_WRITE B = VM_WRITE B" "flags AND VM_STACK B = 0" if "is_data_mapping B flags"
    using masked_and [OF that [unfolded is_data_mapping_def]] part assms by (simp_all add: kind_bits_ok_def)
  show "\<not> (is_exec_mapping B flags \<and> is_data_mapping B flags)" "\<not> (is_exec_mapping B flags \<and> is_stack_mapping B flags)"
    "\<not> (is_data_mapping B flags \<and> is_stack_mapping B flags)"
    using e d assms by (auto simp: kind_bits_ok_def is_stack_mapping_def)
qed

text \<open>
  For a VMA whose special bits are clear, a folio is unlocked exactly when it was locked; with one of them set,
  \<open>mlock_vma_folio\<close> does nothing and \<open>munlock_vma_folio\<close> still follows \<open>VM_LOCKED\<close>.
\<close>

lemma mlock_balanced:
  assumes "\<And>f. munlock_folio (mlock_folio f) = f" and "\<And>f. large (mlock_folio f) = large f"
    and "VM_LOCKED B \<noteq> 0" and "vm_flags vma AND VM_SPECIAL B = 0"
    and "vm_flags vma AND VM_LOCKED B = 0 \<or> vm_flags vma AND VM_LOCKED B = VM_LOCKED B"
  shows "munlock_vma_folio B large munlock_folio (mlock_vma_folio B large mlock_folio folio vma compound) vma compound = folio"
proof -
  have "vm_flags vma AND (VM_LOCKED B OR VM_SPECIAL B) = vm_flags vma AND VM_LOCKED B"
    using assms(4) by (simp add: bit.conj_disj_distrib)
  with assms(1-3,5) show ?thesis by (auto simp: mlock_vma_folio_def munlock_vma_folio_def)
qed

section \<open>Dropping the mmap lock around I/O\<close>

text \<open>
  Reference counts of files and the readers of the mmap lock. \<open>fault_flag_allow_retry_first\<close> and the bit
  \<open>FAULT_FLAG_RETRY_NOWAIT\<close> come from elsewhere.
\<close>

record fault_state =
  file_count :: "nat \<Rightarrow> nat"
  mmap_readers :: nat

record fault_env =
  fault_flag_allow_retry_first :: "u32 \<Rightarrow> bool"
  FAULT_FLAG_RETRY_NOWAIT :: u32

definition maybe_unlock_mmap_for_io ::
  "fault_env \<Rightarrow> u32 \<Rightarrow> vm_area_struct \<Rightarrow> nat option \<Rightarrow> fault_state \<Rightarrow> (nat option \<times> fault_state)" where
  "maybe_unlock_mmap_for_io e flags vma fpin k =
    (case fpin of
       Some f \<Rightarrow> (Some f, k)
     | None \<Rightarrow>
         if fault_flag_allow_retry_first e flags \<and> \<not> (flags AND FAULT_FLAG_RETRY_NOWAIT e \<noteq> 0)
         then (Some (vm_file vma), k\<lparr>file_count := (file_count k)(vm_file vma := file_count k (vm_file vma) + 1),
                 mmap_readers := mmap_readers k - 1\<rparr>)
         else (None, k))"

text \<open>
  The lock is dropped at most once, and exactly when the file has been pinned instead: calling the function
  again with its result changes nothing.
\<close>

lemma maybe_unlock_once:
  assumes "maybe_unlock_mmap_for_io e flags vma fpin k = (r, k')" and "0 < mmap_readers k"
  shows "maybe_unlock_mmap_for_io e flags vma r k' = (r, k')"
    and "mmap_readers k' + (file_count k' (vm_file vma) - file_count k (vm_file vma)) = mmap_readers k"
    and "mmap_readers k' < mmap_readers k \<longleftrightarrow> fpin = None \<and> r \<noteq> None"
  using assms by (auto simp: maybe_unlock_mmap_for_io_def split: option.splits if_splits)

end
