(* ===== verification/Buddy.thy ===== *)
theory Buddy
  imports Prelude
begin

text \<open>
  The buddy arithmetic of \<open>mm/internal.h\<close>: \<open>buddy_order\<close>, \<open>page_is_buddy\<close>, \<open>__find_buddy_pfn\<close> and
  \<open>find_buddy_page_pfn\<close> over an array of pages indexed by frame number. The result \<open>None\<close> is a failed
  \<open>VM_BUG_ON_PAGE\<close> of a kernel that checks them. \<open>1 << order\<close> is a shift of a 32-bit \<open>int\<close>, widened with its sign;
  it has a meaning for orders below 32.
\<close>

section \<open>Pages and their buddies\<close>

record buddy_page =
  bp_guard :: bool
  bp_buddy :: bool
  bp_private :: u64
  bp_zone_id :: int
  bp_count :: int

definition buddy_order :: "buddy_page \<Rightarrow> u32" where
  "buddy_order page = ucast (bp_private page)"

definition page_is_buddy :: "buddy_page \<Rightarrow> buddy_page \<Rightarrow> u32 \<Rightarrow> bool option" where
  "page_is_buddy page buddy order =
    (if \<not> bp_guard buddy \<and> \<not> bp_buddy buddy then Some False
     else if buddy_order buddy \<noteq> order then Some False
     else if bp_zone_id page \<noteq> bp_zone_id buddy then Some False
     else if bp_count buddy \<noteq> 0 then None
     else Some True)"

definition find_buddy_pfn :: "u64 \<Rightarrow> u32 \<Rightarrow> u64" where
  "find_buddy_pfn page_pfn order = page_pfn XOR scast (push_bit (unat order) (1 :: 32 word))"

text \<open>The result and what is stored at \<open>buddy_pfn\<close>, if that is not null.\<close>

definition find_buddy_page_pfn :: "(u64 \<Rightarrow> buddy_page) \<Rightarrow> u64 \<Rightarrow> u64 \<Rightarrow> u32 \<Rightarrow> bool \<Rightarrow> (u64 option \<times> u64 option) option" where
  "find_buddy_page_pfn mem_map page pfn order wanted =
    (let b = find_buddy_pfn pfn order;
         buddy = page + (b - pfn);
         out = (if wanted then Some b else None)
     in case page_is_buddy (mem_map page) (mem_map buddy) order of
          None \<Rightarrow> None
        | Some found \<Rightarrow> Some (if found then Some buddy else None, out))"

section \<open>Blocks\<close>

lemma shift_one_widened: "k \<le> 30 \<Longrightarrow> scast (push_bit k (1 :: 32 word)) = (push_bit k 1 :: u64)"
  by (rule bit_word_eqI) (auto simp: bit_simps bit_signed_iff min_def)

lemma buddy_pfn_eq: "unat order \<le> 30 \<Longrightarrow> find_buddy_pfn pfn order = pfn XOR push_bit (unat order) 1"
  by (simp only: find_buddy_pfn_def shift_one_widened)

text \<open>The parent of a block is the one of the two with the bit \<open>k\<close> clear; the other one starts \<open>2 ^ k\<close> above it.\<close>

definition parent_pfn :: "u64 \<Rightarrow> nat \<Rightarrow> u64" where
  "parent_pfn pfn k = pfn AND NOT (push_bit k 1)"

lemma parent_buddy: "parent_pfn (pfn XOR push_bit k 1) k = parent_pfn pfn k"
  unfolding parent_pfn_def by (rule bit_word_eqI) (auto simp: bit_simps)

lemma block_cases:
  "pfn = parent_pfn pfn k \<and> pfn XOR push_bit k 1 = parent_pfn pfn k OR push_bit k 1
    \<or> pfn = parent_pfn pfn k OR push_bit k 1 \<and> pfn XOR push_bit k 1 = parent_pfn pfn k"
proof (cases "bit pfn k")
  case True
  then have "pfn = parent_pfn pfn k OR push_bit k 1" "pfn XOR push_bit k 1 = parent_pfn pfn k"
    unfolding parent_pfn_def by - (rule bit_word_eqI; auto simp: bit_simps)+
  then show ?thesis by blast
next
  case False
  then have "pfn = parent_pfn pfn k" "pfn XOR push_bit k 1 = parent_pfn pfn k OR push_bit k 1"
    unfolding parent_pfn_def by - (rule bit_word_eqI; auto simp: bit_simps)+
  then show ?thesis by blast
qed

lemma unat_shift_one: "k < 64 \<Longrightarrow> unat (push_bit k 1 :: u64) = push_bit k (1 :: nat)"
  by (subst unsigned_push_bit_eq) (simp add: take_bit_nat_eq_self)

lemma upper_half:
  assumes "k < 64"
  shows "unat (parent_pfn pfn k OR push_bit k 1) = unat (parent_pfn pfn k) + 2 ^ k"
proof -
  have "unat (parent_pfn pfn k OR push_bit k 1) = unat (parent_pfn pfn k) OR push_bit k 1"
    by (simp only: unsigned_or_eq unat_shift_one [OF assms])
  also have "\<dots> = unat (parent_pfn pfn k) + push_bit k 1"
    by (rule disjunctive_add_eq_or [symmetric], rule bit_eqI)
      (auto simp: parent_pfn_def bit_simps)
  finally show ?thesis by simp
qed

lemma parent_aligned:
  assumes "2 ^ k dvd unat pfn"
  shows "2 ^ Suc k dvd unat (parent_pfn pfn k)"
proof -
  have "take_bit k (unat pfn) = 0" using assms by (simp add: take_bit_eq_0_iff)
  then have "\<not> bit (unat pfn) i" if "i < k" for i using that by (metis bit_0_eq bit_take_bit_iff bot_apply bot_bool_def)
  then have "\<not> bit pfn i" if "i < k" for i using that by (auto simp: bit_simps)
  then have "take_bit (Suc k) (unat (parent_pfn pfn k)) = 0"
    by (intro bit_eqI) (auto simp: parent_pfn_def bit_simps less_Suc_eq)
  then show ?thesis by (simp only: take_bit_eq_0_iff)
qed

lemma halves:
  fixes p b P K :: nat
  assumes "0 < K" and "p = P \<and> b = P + K \<or> p = P + K \<and> b = P"
  shows "{p ..< p + K} \<inter> {b ..< b + K} = {}" "{p ..< p + K} \<union> {b ..< b + K} = {P ..< P + (K + K)}" "p \<noteq> b"
    and "K dvd P \<Longrightarrow> K dvd b"
  using assms by auto

lemma buddy_involution: "unat order \<le> 30 \<Longrightarrow> find_buddy_pfn (find_buddy_pfn pfn order) order = pfn"
  by (simp only: buddy_pfn_eq xor.assoc xor_self_eq xor.right_neutral)

text \<open>
  C35. The equations of the comment hold for every order up to 30. The buddy of an aligned block is another
  aligned block of the same order, whose buddy is the first again; the two do not overlap, and together they are the
  block of the next order that starts at \<open>B & ~(1 << order)\<close>, aligned to its own size.
\<close>

theorem buddy_blocks:
  assumes "unat order \<le> 30" and "2 ^ unat order dvd unat pfn"
  defines "b \<equiv> find_buddy_pfn pfn order"
    and "parent \<equiv> unat (pfn AND NOT (push_bit (unat order) 1))"
  shows "find_buddy_pfn b order = pfn \<and> b \<noteq> pfn \<and> 2 ^ unat order dvd unat b \<and> 2 ^ (unat order + 1) dvd parent
    \<and> {unat pfn ..< unat pfn + 2 ^ unat order} \<inter> {unat b ..< unat b + 2 ^ unat order} = {}
    \<and> {unat pfn ..< unat pfn + 2 ^ unat order} \<union> {unat b ..< unat b + 2 ^ unat order}
      = {parent ..< parent + 2 ^ (unat order + 1)}"
proof -
  let ?k = "unat order"
  have b: "b = pfn XOR push_bit ?k 1" and par: "parent = unat (parent_pfn pfn ?k)"
    by (simp_all only: b_def parent_def parent_pfn_def buddy_pfn_eq [OF assms(1)])
  have up: "unat (parent_pfn pfn ?k OR push_bit ?k 1) = parent + 2 ^ ?k"
    unfolding par by (rule upper_half) (use assms(1) in simp)
  have aligned: "2 ^ Suc ?k dvd parent" unfolding par by (rule parent_aligned [OF assms(2)])
  then have "2 ^ ?k dvd parent" by (rule power_le_dvd) simp
  have two: "unat pfn = parent \<and> unat b = parent + 2 ^ ?k \<or> unat pfn = parent + 2 ^ ?k \<and> unat b = parent"
    using block_cases [of pfn ?k] up par b by metis
  have ends: "{parent ..< parent + 2 ^ (?k + 1)} = {parent ..< parent + (2 ^ ?k + 2 ^ ?k)}" by (simp only: power_add power_one_right mult_2_right)
  from halves [OF _ two] \<open>2 ^ ?k dvd parent\<close> aligned buddy_involution [OF assms(1)] show ?thesis
    unfolding ends b_def by auto
qed

theorem buddy_blocks_witness:
  "find_buddy_pfn 8 1 = 10 \<and> {8 ..< 8 + 2} \<union> {10 ..< 10 + 2} = {8 ..< 8 + (4 :: nat)}"
proof -
  have "find_buddy_pfn 8 1 = 10" "8 AND NOT (push_bit 1 1) = (8 :: u64)" by (simp_all add: find_buddy_pfn_def)
  then show ?thesis using buddy_blocks [of 1 8] by (simp del: atLeastLessThan_iff)
qed

section \<open>Finding the buddy\<close>

text \<open>A free page of the given order, with no references.\<close>

definition free_block :: "u32 \<Rightarrow> buddy_page \<Rightarrow> bool" where
  "free_block order page \<longleftrightarrow> (bp_guard page \<or> bp_buddy page) \<and> buddy_order page = order \<and> bp_count page = 0"

lemma find_buddy_some:
  "find_buddy_page_pfn mem_map p p order True = Some (Some q, out) \<longleftrightarrow>
    q = find_buddy_pfn p order \<and> out = Some q \<and> free_block order (mem_map q) \<and> bp_zone_id (mem_map q) = bp_zone_id (mem_map p)"
  by (auto simp: find_buddy_page_pfn_def page_is_buddy_def free_block_def Let_def split: if_splits option.splits)

lemma find_buddy_stops:
  "find_buddy_page_pfn mem_map p p order True = None \<longleftrightarrow>
    (let b = mem_map (find_buddy_pfn p order)
     in (bp_guard b \<or> bp_buddy b) \<and> buddy_order b = order \<and> bp_zone_id b = bp_zone_id (mem_map p) \<and> bp_count b \<noteq> 0)"
  by (auto simp: find_buddy_page_pfn_def page_is_buddy_def Let_def)

text \<open>
  \<open>find_buddy_page_pfn\<close> returns a page exactly if the page at the frame number that differs in the
  bit \<open>order\<close> is free with this order and lies in the same zone; it is never the page itself; and if the page
  is free too, the search from the buddy returns the page, so that the two agree on merging. A page that
  passes these tests but still has references stops the kernel.
\<close>

theorem buddy_found:
  fixes pfn :: u64 and mem_map :: "u64 \<Rightarrow> buddy_page"
  assumes "unat order \<le> 30"
  defines "b \<equiv> find_buddy_pfn pfn order"
  shows "(find_buddy_page_pfn mem_map pfn pfn order True = Some (Some q, out)) =
      (q = b \<and> out = Some b \<and> free_block order (mem_map b) \<and> bp_zone_id (mem_map b) = bp_zone_id (mem_map pfn))
    \<and> b \<noteq> pfn
    \<and> (free_block order (mem_map pfn) \<longrightarrow> find_buddy_page_pfn mem_map pfn pfn order True = Some (Some q, out) \<longrightarrow>
        find_buddy_page_pfn mem_map q q order True = Some (Some pfn, Some pfn))
    \<and> (find_buddy_page_pfn mem_map pfn pfn order True = None) =
      ((bp_guard (mem_map b) \<or> bp_buddy (mem_map b)) \<and> buddy_order (mem_map b) = order
        \<and> bp_zone_id (mem_map b) = bp_zone_id (mem_map pfn) \<and> bp_count (mem_map b) \<noteq> 0)"
proof -
  have inv: "find_buddy_pfn b order = pfn" unfolding b_def by (rule buddy_involution [OF assms(1)])
  have "b \<noteq> pfn"
  proof
    assume "b = pfn"
    then have "push_bit (unat order) 1 = (0 :: u64)"
      unfolding b_def buddy_pfn_eq [OF assms(1)] by (metis bit.xor_left_self xor_self_eq)
    then show False using unat_shift_one [of "unat order"] assms(1) by simp
  qed
  then show ?thesis
    unfolding find_buddy_some find_buddy_stops b_def [symmetric] Let_def using inv by auto
qed

theorem buddy_found_witness:
  "find_buddy_page_pfn (\<lambda>p. \<lparr>bp_guard = False, bp_buddy = True, bp_private = 1, bp_zone_id = 2, bp_count = 0\<rparr>) 8 8 1 True
    = Some (Some 10, Some 10)"
proof -
  have "find_buddy_pfn 8 1 = 10" by (simp add: find_buddy_pfn_def)
  then show ?thesis
    using buddy_found [of 1 "\<lambda>p. \<lparr>bp_guard = False, bp_buddy = True, bp_private = 1, bp_zone_id = 2, bp_count = 0\<rparr>" 8 10 "Some 10"]
    by (simp add: free_block_def buddy_order_def)
qed

end
