(* ===== verification/Driver_Kernel.thy ===== *)
theory Driver_Kernel
  imports Dmirror_Migrate Migrate_Remap
begin

text \<open>
  The driver of \<open>hmm.c\<close> on the kernel of \<open>mm/migrate_device.c\<close>: what \<open>dmirror_migrate_to_device\<close> supplies as
  destinations between \<open>migrate_vma_setup\<close> and \<open>migrate_vma_pages\<close> is exactly what the changed kernel cannot handle.
\<close>

lemma alloc_and_copy_skips:
  "\<forall>u\<in>set us. \<not> mp_migrate u \<Longrightarrow> length us < length ds \<Longrightarrow> length us < length es \<Longrightarrow>
    dmirror_migrate_alloc_and_copy self w (us @ ss) ds es d =
      map_option (\<lambda>(ds', d). (take (length us) ds @ ds', d))
        (dmirror_migrate_alloc_and_copy self w ss (drop (length us) ds) (drop (length us) es) d)"
proof (induction us arbitrary: ds es)
  case (Cons u us)
  obtain x xs e es' where "ds = x # xs" "es = e # es'"
    using Cons.prems(2,3) by (cases ds; cases es) auto
  then show ?case
    using Cons by (simp add: alloc_and_copy_one_def option.map_comp comp_def case_prod_unfold Let_def)
qed (simp add: case_prod_unfold option.map_ident)

lemma alloc_and_copy_supplies:
  assumes "device_ok (mdevice d) d (p # ps)" and "list_all (\<lambda>q. pgmap d q \<noteq> None) (p # ps)"
    and "\<forall>u\<in>set us. \<not> mp_migrate u" and "mp_migrate s" and "mp_valid s" and "pgmap d (mp_page s) = None"
    and "length us < length ds" and "length us < length es" and "e_alloc_page (es ! length us) = Some r" and "pgmap d r = None"
    and "dmirror_migrate_alloc_and_copy self w (us @ s # rest) ds es d = Some (ds', d')"
  shows "length us < length ds' \<and> ds' ! length us = (migrate_pfn p)\<lparr>mp_write := mp_write s\<rparr>"
proof -
  obtain x xs where ds: "drop (length us) ds = x # xs" using assms(7) by (cases "drop (length us) ds") auto
  obtain es' where es: "drop (length us) es = es ! length us # es'" using Cons_nth_drop_Suc [OF assms(8)] by metis
  obtain m where one: "alloc_and_copy_one self w s x (es ! length us) d =
      Some (\<lparr>mp_valid = True, mp_migrate = False, mp_write = mp_write s, mp_page = p\<rparr>, m)"
    by (rule alloc_one_ok [OF assms(1,4-6,9,10,2)]) blast
  from assms(11) obtain ys where "ds' = take (length us) ds @ \<lparr>mp_valid = True, mp_migrate = False, mp_write = mp_write s, mp_page = p\<rparr> # ys"
    unfolding alloc_and_copy_skips [OF assms(3,7,8)] ds es by (auto simp: one)
  then show ?thesis using assms(7) by (simp add: nth_append migrate_pfn_def)
qed

text \<open>
  C17. \<open>dmirror_migrate_to_device\<close> cannot work on this kernel. When the first marked entry is an ordinary
  page, the device has a free page and \<open>alloc_page\<close> succeeds, the driver enters the first free device page as its
  destination, and \<open>migrate_vma_pages\<close>, called with these arrays, dereferences the pointer -1, whatever
  the other entries are and whatever the network and the allocators answer.
\<close>

theorem driver_meets_kernel:
  assumes "device_ok (mdevice d) d (p # ps)" and "list_all (\<lambda>q. pgmap d q \<noteq> None) (p # ps)"
    and "entries mv = us @ s # rest" and "\<forall>u\<in>set us. \<not> mp_migrate u" and "mp_migrate s" and "mp_valid s"
    and "pgmap d (mp_page s) = None" and "length us < length ds" and "length us < length es"
    and "e_alloc_page (es ! length us) = Some r" and "pgmap d r = None"
    and "dmirror_migrate_alloc_and_copy self w (entries mv) ds es d = Some (ds', d')"
  shows "ds' ! length us = (migrate_pfn p)\<lparr>mp_write := mp_write s\<rparr>
    \<and> migrate_vma_pages env answers (mv\<lparr>mv_dst := ds' @ unused\<rparr>) m = None"
proof -
  note dst = alloc_and_copy_supplies [OF assms(1,2,4-11) assms(12) [unfolded assms(3)]]
  let ?mv = "mv\<lparr>mv_dst := ds' @ unused\<rparr>"
  have "length us < mv_npages mv" using assms(3) by (metis entries_def length_append length_take list.size(4) add_Suc_right less_add_Suc1 min_less_iff_conj)
  then have "ds' ! length us \<in> set (take (mv_npages ?mv) (mv_dst ?mv))"
    using dst by (auto simp: in_set_conv_nth nth_append intro!: exI [of _ "length us"])
  moreover have "mp_valid (ds' ! length us)" using dst by (simp add: migrate_pfn_def)
  ultimately have "migrate_vma_pages env answers ?mv m \<noteq> Some (mv', m')" for mv' m'
    using device_pages_loop_result by (fastforce simp: migrate_vma_pages_def entries_def Let_def)
  with dst show ?thesis by (cases "migrate_vma_pages env answers ?mv m") auto
qed

text \<open>The first page, 5, is to move to the device page 20.\<close>

theorem driver_meets_kernel_witness:
  "\<forall>m. \<exists>ds' d'. dmirror_migrate_alloc_and_copy 0 False [(migrate_pfn 5)\<lparr>mp_migrate := True, mp_write := True\<rparr>] [no_pfn]
      [\<lparr>e_alloc_page = Some 99, e_chunk = granting\<rparr>] small_mirror = Some (ds', d')
    \<and> migrate_vma_pages small_mm_env [small_pages_env]
        (small_args\<lparr>mv_src := [(migrate_pfn 5)\<lparr>mp_migrate := True, mp_write := True\<rparr>], mv_npages := 1, mv_dst := ds'\<rparr>) m = None"
proof
  fix m
  let ?s = "(migrate_pfn 5)\<lparr>mp_migrate := True, mp_write := True\<rparr>" and ?e = "\<lparr>e_alloc_page = Some 99, e_chunk = granting\<rparr>"
  have pool: "device_ok (mdevice small_mirror) small_mirror [20, 10]" using small_mirror_pool(1) by simp
  obtain d' where one: "alloc_and_copy_one 0 False ?s no_pfn ?e small_mirror = Some ((migrate_pfn 20)\<lparr>mp_write := True\<rparr>, d')"
    by (rule alloc_one_ok [OF pool, of ?s ?e 99]) (auto simp: small_mirror_pool(2) migrate_pfn_def)
  then have run: "dmirror_migrate_alloc_and_copy 0 False [?s] [no_pfn] [?e] small_mirror = Some ([(migrate_pfn 20)\<lparr>mp_write := True\<rparr>], d')"
    by simp
  show "\<exists>ds' d'. dmirror_migrate_alloc_and_copy 0 False [?s] [no_pfn] [?e] small_mirror = Some (ds', d')
    \<and> migrate_vma_pages small_mm_env [small_pages_env] (small_args\<lparr>mv_src := [?s], mv_npages := 1, mv_dst := ds'\<rparr>) m = None"
    using driver_meets_kernel [OF pool, of "small_args\<lparr>mv_src := [?s], mv_npages := 1\<rparr>" "[]" ?s "[]" "[no_pfn]" "[?e]" 99 0 False
        "[(migrate_pfn 20)\<lparr>mp_write := True\<rparr>]" d' small_mm_env "[small_pages_env]" "[]" m] run
    by (simp add: small_mirror_pool(2) entries_def migrate_pfn_def del: dmirror_migrate_alloc_and_copy.simps)
qed

end
