(* ===== verification/Rdma_Addr.thy ===== *)
theory Rdma_Addr
  imports Nmsg
begin

text \<open>
  The address of an RDMA end: how \<open>nmsg_pre_start\<close> of the client and \<open>nmsg_pre_setup\<close> of the server store it in the
  handler block, and \<open>fill_sockaddr\<close>, the same function on both sides, which makes a socket address of it.
\<close>

text \<open>The fields \<open>addr\<close> (16 bytes), \<open>addr_type\<close> and \<open>port\<close>, uninitialised at first.\<close>

record rdma_addr =
  addr :: "u8 list"
  addr_type :: u8
  port :: u16

text \<open>\<open>in4_pton\<close> gives the four bytes of an address, or nothing if it is malformed; its result is not tested.\<close>

definition set_addr_c :: "(string \<Rightarrow> u8 list option) \<Rightarrow> int \<Rightarrow> string \<Rightarrow> rdma_addr \<Rightarrow> rdma_addr" where
  "set_addr_c in4_pton p a cb =
    (let cb = (case in4_pton a of None \<Rightarrow> cb | Some bs \<Rightarrow> cb\<lparr>addr := take 4 bs @ drop 4 (addr cb)\<rparr>)
     in cb\<lparr>addr_type := ucast AF_INET, port := htons p\<rparr>)"

definition set_addr_s :: "(string \<Rightarrow> u8 list option) \<Rightarrow> int \<Rightarrow> string \<Rightarrow> rdma_addr \<Rightarrow> rdma_addr" where
  "set_addr_s in4_pton p a cb =
    (let cb = (case in4_pton a of None \<Rightarrow> cb | Some bs \<Rightarrow> cb\<lparr>addr := take 4 bs @ drop 4 (addr cb)\<rparr>);
         cb = cb\<lparr>addr_type := ucast AF_INET\<rparr>
     in cb\<lparr>port := htons p\<rparr>)"

text \<open>Four bytes of memory read as a little-endian word.\<close>

definition word_at :: "u8 list \<Rightarrow> u32" where
  "word_at bs = ucast (bs ! 0) OR push_bit 8 (ucast (bs ! 1)) OR push_bit 16 (ucast (bs ! 2)) OR push_bit 24 (ucast (bs ! 3))"

definition fill_sockaddr_c :: "rdma_addr \<Rightarrow> sockaddr_in" where
  "fill_sockaddr_c cb = \<lparr>sin_family = ucast (addr_type cb), sin_port = port cb, sin_addr = word_at (take 4 (addr cb))\<rparr>"

definition fill_sockaddr_s :: "rdma_addr \<Rightarrow> sockaddr_in" where
  "fill_sockaddr_s cb = \<lparr>sin_family = ucast (addr_type cb), sin_port = port cb, sin_addr = word_at (take 4 (addr cb))\<rparr>"

text \<open>
  For a well-formed address the two ends meet: what the client connects to is what a server started with the
  same arguments binds to, whatever the blocks held before. A malformed address leaves the bytes that
  \<open>kmalloc\<close> returned in place, and they are used.
\<close>

lemma ends_meet:
  assumes "in4_pton a = Some bs" and "length bs = 4"
  shows "fill_sockaddr_c (set_addr_c in4_pton p a cb) = fill_sockaddr_s (set_addr_s in4_pton p a cb')"
    and "fill_sockaddr_c (set_addr_c in4_pton p a cb) = \<lparr>sin_family = AF_INET, sin_port = htons p, sin_addr = word_at bs\<rparr>"
  using assms by (simp_all add: fill_sockaddr_c_def fill_sockaddr_s_def set_addr_c_def set_addr_s_def Let_def AF_INET_def)

lemma malformed_address:
  assumes "in4_pton a = None"
  shows "sin_addr (fill_sockaddr_c (set_addr_c in4_pton p a cb)) = word_at (take 4 (addr cb))"
  using assms by (simp add: fill_sockaddr_c_def set_addr_c_def)

end
