(* ===== verification/Dmirror_Threads.thy ===== *)
theory Dmirror_Threads
  imports Dmirror_Write
begin

text \<open>
  Several threads reading and writing through one mirror while the process changes its page table. A step is what happens
  under the mutex of the \<open>struct dmirror\<close>, one entry that \<open>hmm_range_fault\<close> looks at, or one change of the page
  table; an invalidation begins with the notifier and ends later, when the entries of the process are gone. The
  handlers of \<open>Dmirror\<close>, which take their environment as a list, are runs of this system.
\<close>

section \<open>Threads\<close>

text \<open>The local variables of \<open>dmirror_read\<close> and \<open>dmirror_write\<close>.\<close>

record job =
  j_write :: bool
  j_addr :: u64
  j_fin :: u64
  j_start :: u64
  j_bounce :: bounce
  j_faults :: u64

text \<open>
  Where a thread is: before taking the mutex for \<open>dmirror_do_read\<close> or \<open>dmirror_do_write\<close>; at the head of the loop of
  \<open>dmirror_range_fault\<close> for the piece that starts at an address; in \<open>hmm_range_fault\<close> with the sequence number read
  and the entries found so far; before taking the mutex to store them; or done. A command that is refused, or finds no memory, ends before it touches the mirror and is not a step.
\<close>

datatype thread =
    Idle
  | Access job
  | Begin job u64
  | Walk job u64 nat "hmm_pfn list"
  | Check job u64 nat "hmm_pfn list"
  | Finished int job

text \<open>\<open>dmirror_fault\<close> has returned to the loop of the command.\<close>

definition fault_returned :: "int \<Rightarrow> job \<Rightarrow> thread" where
  "fault_returned ret j = (if ret \<noteq> 0 then Finished ret j else Access (j\<lparr>j_faults := j_faults j + 1\<rparr>))"

text \<open>The head of the loop of \<open>dmirror_fault\<close>.\<close>

definition next_fault :: "u64 \<Rightarrow> job \<Rightarrow> thread" where
  "next_fault addr j = (if addr < j_fin j then Begin j addr else fault_returned 0 j)"

text \<open>The mutex has been released after the access, with the given result; \<open>alive\<close> is \<open>mmget_not_zero\<close>.\<close>

definition accessed :: "bool \<Rightarrow> int \<Rightarrow> job \<Rightarrow> thread" where
  "accessed alive ret j =
    (if ret \<noteq> - ENOENT then Finished ret j
     else let j = j\<lparr>j_start := j_addr j + push_bit PAGE_SHIFT (b_cpages (j_bounce j))\<rparr>
          in if \<not> alive then fault_returned 0 j else next_fault (j_start j) j)"

text \<open>The frames of the piece that starts at \<open>a\<close>.\<close>

definition piece :: "job \<Rightarrow> u64 \<Rightarrow> nat list" where
  "piece j a = pfn_range a (next_piece a (j_fin j))"

definition command :: "bool \<Rightarrow> u8 list list \<Rightarrow> hmm_dmirror_cmd \<Rightarrow> bounce \<Rightarrow> job" where
  "command w pages cmd b = \<lparr>j_write = w, j_addr = c_addr cmd, j_fin = c_addr cmd + push_bit PAGE_SHIFT (c_npages cmd),
     j_start = c_addr cmd, j_bounce = (if w then b\<lparr>b_ptr := pages\<rparr> else b), j_faults = c_faults cmd\<rparr>"

inductive tstep :: "bool \<Rightarrow> thread \<Rightarrow> mirror \<Rightarrow> thread \<Rightarrow> mirror \<Rightarrow> bool" for invalidating where
  start: "\<not> c_addr cmd + push_bit PAGE_SHIFT (c_npages cmd) < c_addr cmd \<Longrightarrow>
    dmirror_bounce_init (Some junk) (c_addr cmd) (push_bit PAGE_SHIFT (c_npages cmd)) = (0, b) \<Longrightarrow>
    tstep invalidating Idle m (Access (command w pages cmd b)) m"
| do_read: "\<not> j_write j \<Longrightarrow> dmirror_do_read (j_start j) (j_fin j) m (j_bounce j) = (ret, b) \<Longrightarrow>
    tstep invalidating (Access j) m (accessed alive ret (j\<lparr>j_bounce := b\<rparr>)) m"
| do_write: "j_write j \<Longrightarrow> dmirror_do_write (j_start j) (j_fin j) m (j_bounce j) = (ret, m', b) \<Longrightarrow>
    tstep invalidating (Access j) m (accessed alive ret (j\<lparr>j_bounce := b\<rparr>)) m'"
| expired: "tstep invalidating (Begin j a) m (fault_returned (- EBUSY) j) m"
| read_begin: "\<not> invalidating \<Longrightarrow> tstep invalidating (Begin j a) m (Walk j a (inv_seq m) []) m"
| walk_entry: "length hs < length (piece j a) \<Longrightarrow> cpu m (piece j a ! length hs) = Some (hp_page h, hp_write h) \<Longrightarrow>
    (j_write j \<longrightarrow> hp_write h) \<Longrightarrow> tstep invalidating (Walk j a q hs) m (Walk j a q (hs @ [h])) m"
| walk_busy: "tstep invalidating (Walk j a q hs) m (Begin j a) m"
| walk_failed: "r \<noteq> 0 \<Longrightarrow> r \<noteq> - EBUSY \<Longrightarrow> tstep invalidating (Walk j a q hs) m (fault_returned r j) m"
| walk_done: "length hs = length (piece j a) \<Longrightarrow> tstep invalidating (Walk j a q hs) m (Check j a q hs) m"
| retry: "inv_seq m \<noteq> q \<Longrightarrow> tstep invalidating (Check j a q hs) m (Begin j a) m"
| store: "inv_seq m = q \<Longrightarrow> dmirror_do_fault xa (j_write j) a (next_piece a (j_fin j)) hs m = (r, m') \<Longrightarrow>
    tstep invalidating (Check j a q hs) m
      (if r \<noteq> 0 then fault_returned r j else next_fault (next_piece a (j_fin j)) j) m'"

inductive_cases tstep_IdleE: "tstep b Idle m t m'"
inductive_cases tstep_AccessE: "tstep b (Access j) m t m'"
inductive_cases tstep_BeginE: "tstep b (Begin j a) m t m'"
inductive_cases tstep_WalkE: "tstep b (Walk j a q hs) m t m'"
inductive_cases tstep_CheckE: "tstep b (Check j a q hs) m t m'"
inductive_cases tstep_FinishedE: "tstep b (Finished r j) m t m'"

lemmas tstep_cases = tstep_IdleE tstep_AccessE tstep_BeginE tstep_WalkE tstep_CheckE tstep_FinishedE

section \<open>The system\<close>

text \<open>\<open>sys_inv\<close> are the invalidations that have been announced and whose entries are not yet gone.\<close>

record system =
  sys_mem :: mirror
  sys_inv :: "(u64 \<times> u64) list"
  sys_thr :: "nat \<Rightarrow> thread"

text \<open>
  An invalidation takes a new sequence number, or at least not a smaller one while another one is under way. Those of
  the device's own migrations are left out: the driver changes the mirror itself then.
\<close>

definition announces :: "system \<Rightarrow> invalidation \<Rightarrow> bool" where
  "announces s r \<longleftrightarrow> \<not> (inv_migrate r \<and> inv_owner r = Some (mdevice (sys_mem s)))
     \<and> (inv_seq (sys_mem s) < inv_cur_seq r \<or> sys_inv s \<noteq> [] \<and> inv_seq (sys_mem s) \<le> inv_cur_seq r)"

definition zapped :: "u64 \<Rightarrow> u64 \<Rightarrow> mirror \<Rightarrow> mirror" where
  "zapped a e m = m\<lparr>cpu := (\<lambda>pfn. if pfn \<in> set (pfn_range a e) then None else cpu m pfn)\<rparr>"

inductive sys_step :: "system \<Rightarrow> system \<Rightarrow> bool" where
  thread: "tstep (sys_inv s \<noteq> []) (sys_thr s i) (sys_mem s) t m \<Longrightarrow>
    sys_step s (s\<lparr>sys_mem := m, sys_thr := (sys_thr s)(i := t)\<rparr>)"
| map_page: "quiet e \<Longrightarrow> sys_step s (s\<lparr>sys_mem := cpu_step e (sys_mem s)\<rparr>)"
| announce: "announces s r \<Longrightarrow> dmirror_interval_invalidate r (sys_mem s) = (True, m) \<Longrightarrow>
    sys_step s (s\<lparr>sys_mem := m, sys_inv := (inv_start r, inv_end r) # sys_inv s\<rparr>)"
| would_block: "dmirror_interval_invalidate r (sys_mem s) = (False, m) \<Longrightarrow> sys_step s (s\<lparr>sys_mem := m\<rparr>)"
| gone: "(a, e) \<in> set (sys_inv s) \<Longrightarrow>
    sys_step s (s\<lparr>sys_mem := zapped a e (sys_mem s), sys_inv := remove1 (a, e) (sys_inv s)\<rparr>)"

text \<open>A mirror that has just been opened, and what the system can come to.\<close>

definition opened :: "system \<Rightarrow> bool" where
  "opened s \<longleftrightarrow> pt (sys_mem s) = Map.empty \<and> sys_inv s = [] \<and> sys_thr s = (\<lambda>_. Idle)"

inductive reachable :: "system \<Rightarrow> bool" where
  opened: "opened s \<Longrightarrow> reachable s"
| step: "reachable s \<Longrightarrow> sys_step s s' \<Longrightarrow> reachable s'"

section \<open>The invariant\<close>

text \<open>What a thread has seen agrees with the page table, unless the sequence number has moved.\<close>

definition seen :: "job \<Rightarrow> u64 \<Rightarrow> hmm_pfn list \<Rightarrow> mirror \<Rightarrow> bool" where
  "seen j a hs m \<longleftrightarrow> length hs \<le> length (piece j a) \<and> (\<forall>k<length hs. \<exists>w.
     cpu m (piece j a ! k) = Some (hp_page (hs ! k), w) \<and> (hp_write (hs ! k) \<longrightarrow> w) \<and> (j_write j \<longrightarrow> hp_write (hs ! k)))"

definition current :: "bool \<Rightarrow> mirror \<Rightarrow> job \<Rightarrow> u64 \<Rightarrow> nat \<Rightarrow> hmm_pfn list \<Rightarrow> bool" where
  "current invalidating m j a q hs \<longleftrightarrow> q \<le> inv_seq m \<and> (invalidating \<longrightarrow> q < inv_seq m) \<and> (q = inv_seq m \<longrightarrow> seen j a hs m)"

fun thread_ok :: "bool \<Rightarrow> mirror \<Rightarrow> thread \<Rightarrow> bool" where
  "thread_ok b m (Walk j a q hs) = current b m j a q hs"
| "thread_ok b m (Check j a q hs) = (current b m j a q hs \<and> length hs = length (piece j a))"
| "thread_ok b m _ = True"

definition sys_ok :: "system \<Rightarrow> bool" where
  "sys_ok s \<longleftrightarrow> coherent (sys_mem s) \<and> (\<forall>i. thread_ok (sys_inv s \<noteq> []) (sys_mem s) (sys_thr s i))
     \<and> (\<forall>(a, e)\<in>set (sys_inv s). \<forall>pfn\<in>set (pfn_range a e). pt (sys_mem s) pfn = None)"

lemma thread_ok_simps [simp]:
  "thread_ok b m (fault_returned r j)" "thread_ok b m (next_fault a j)" "thread_ok b m (accessed v r j)"
  by (simp_all add: fault_returned_def next_fault_def accessed_def Let_def)

text \<open>Threads stay well-formed when the sequence number grows, or the page table loses no entry.\<close>

lemma current_mono:
  assumes "current b m j a q hs" and "inv_seq m \<le> inv_seq m'"
    and "b' \<longrightarrow> b \<or> inv_seq m < inv_seq m'" and "inv_seq m' = inv_seq m \<Longrightarrow> q = inv_seq m \<Longrightarrow> kept_mapped m m'"
  shows "current b' m' j a q hs"
proof -
  have "seen j a hs m'" if "q = inv_seq m'"
  proof -
    from that assms(1,2) have q: "inv_seq m' = inv_seq m" "q = inv_seq m" by (auto simp: current_def)
    with assms(1) have "seen j a hs m" by (simp add: current_def)
    with assms(4) [OF q] show ?thesis by (fastforce simp: seen_def kept_mapped_def)
  qed
  with assms(1-3) show ?thesis by (auto simp: current_def)
qed

lemma thread_ok_mono:
  assumes "thread_ok b m t" and "inv_seq m \<le> inv_seq m'" and "b' \<longrightarrow> b \<or> inv_seq m < inv_seq m'"
    and "b \<or> inv_seq m < inv_seq m' \<or> kept_mapped m m'"
  shows "thread_ok b' m' t"
proof -
  have "current b' m' j a q hs" if "current b m j a q hs" for j a q hs
    by (rule current_mono [OF that assms(2,3)]) (use assms(4) that in \<open>auto simp: current_def\<close>)
  with assms(1) show ?thesis by (cases t) auto
qed

text \<open>A step under the mutex leaves the page table of the process and the sequence number alone.\<close>

lemma do_write_frame:
  "do_write_loop pfns i m b = (r, m', b') \<Longrightarrow> pt m' = pt m \<and> cpu m' = cpu m \<and> inv_seq m' = inv_seq m \<and> mdevice m' = mdevice m
    \<and> (\<forall>p. page_data m' p \<noteq> page_data m p \<longrightarrow> (\<exists>pfn\<in>set pfns. pt m pfn = Some (p, DPT_XA_TAG_WRITE)))"
proof (induction pfns i m b rule: do_write_loop.induct)
  case (2 pfn pfns i m b)
  show ?case
  proof (cases "\<exists>p. pt m pfn = Some (p, DPT_XA_TAG_WRITE)")
    case False
    with 2(2) show ?thesis by (auto split: option.splits if_splits)
  next
    case True
    then obtain p where p: "pt m pfn = Some (p, DPT_XA_TAG_WRITE)" by blast
    with 2 show ?thesis by (fastforce split: if_splits)
  qed
qed simp

lemma tstep_frame:
  assumes "tstep b t m t' m'"
  shows "cpu m' = cpu m \<and> inv_seq m' = inv_seq m"
  using assms
  by cases (auto simp: dmirror_do_write_def dmirror_do_fault_def dest: do_write_frame do_fault_loop_cpu)

lemma seen_snoc:
  assumes "seen j a hs m" and "length hs < length (piece j a)" and "cpu m (piece j a ! length hs) = Some (hp_page h, hp_write h)"
    and "j_write j \<longrightarrow> hp_write h"
  shows "seen j a (hs @ [h]) m"
  using assms by (auto simp: seen_def nth_append less_Suc_eq)

lemma store_ok:
  assumes "coherent m" and "seen j a hs m" and "length hs = length (piece j a)"
    and "dmirror_do_fault xa (j_write j) a (next_piece a (j_fin j)) hs m = (r, m')"
  shows "coherent m'"
proof -
  have "list_all2 (\<lambda>pfn h. \<exists>w. cpu m pfn = Some (hp_page h, w) \<and> (hp_write h \<longrightarrow> w) \<and> (j_write j \<longrightarrow> hp_write h))
      (piece j a) hs"
    using assms(2,3) by (auto simp: seen_def list_all2_conv_all_nth)
  moreover have "distinct (piece j a)" by (simp add: piece_def pfn_range_def)
  ultimately show ?thesis
    using do_fault_loop_ok [OF assms(4) [unfolded dmirror_do_fault_def] assms(1)] by (simp add: piece_def)
qed

lemma tstep_ok:
  assumes "tstep b t m t' m'" and "coherent m" and "thread_ok b m t"
  shows "coherent m' \<and> thread_ok b m' t' \<and> (b \<longrightarrow> pt m' = pt m)"
  using assms
proof cases
  case (do_write j ret b' alive)
  from do_write(4) have "pt m' = pt m" "cpu m' = cpu m"
    by (simp_all add: dmirror_do_write_def do_write_frame)
  with assms(2) do_write show ?thesis by (simp add: coherent_def)
next
  case (read_begin j a)
  with assms(2) show ?thesis by (simp add: current_def seen_def)
next
  case (walk_entry hs j a h q)
  with assms show ?thesis by (auto simp: current_def intro: seen_snoc)
next
  case (walk_done hs j a q)
  with assms show ?thesis by simp
next
  case (store q xa j a hs r)
  then have "\<not> b" "seen j a hs m" "length hs = length (piece j a)" using assms(3) by (auto simp: current_def)
  with store_ok [OF assms(2) _ _ store(4)] store show ?thesis by simp
qed simp_all

lemma invalidate_drops:
  assumes "dmirror_interval_invalidate r m = (True, m')" and "\<not> (inv_migrate r \<and> inv_owner r = Some (mdevice m))"
  shows "cpu m' = cpu m" "inv_seq m' = inv_cur_seq r" "\<And>pfn. pt m' pfn = None \<or> pt m' pfn = pt m pfn"
    "\<And>pfn. pfn \<in> set (pfn_range (inv_start r) (inv_end r)) \<Longrightarrow> pt m' pfn = None"
  using assms
  by (auto simp: dmirror_interval_invalidate_def dmirror_do_update_def pfn_range_def Let_def split: if_splits)

lemma coherent_drop:
  "coherent m \<Longrightarrow> cpu m' = cpu m \<Longrightarrow> (\<And>pfn. pt m' pfn = None \<or> pt m' pfn = pt m pfn) \<Longrightarrow> coherent m'"
  unfolding coherent_def by (metis option.distinct(1))

lemma sys_step_ok:
  assumes "sys_step s s'" and "sys_ok s"
  shows "sys_ok s'"
  using assms(1)
proof cases
  case (thread i t m)
  let ?b = "sys_inv s \<noteq> []"
  have ok: "coherent m" "thread_ok ?b m t" "?b \<longrightarrow> pt m = pt (sys_mem s)"
    using tstep_ok [OF thread(2)] assms(2) by (simp_all add: sys_ok_def)
  have frame: "kept_mapped (sys_mem s) m" "inv_seq m = inv_seq (sys_mem s)"
    using tstep_frame [OF thread(2)] by (simp_all add: kept_mapped_def)
  have "thread_ok ?b m (sys_thr s k)" for k
    by (rule thread_ok_mono [of ?b "sys_mem s"]) (use assms(2) frame in \<open>auto simp: sys_ok_def\<close>)
  with ok thread(1) assms(2) show ?thesis by (auto simp: sys_ok_def)
next
  case (map_page e)
  note q = quiet_step [OF map_page(2), of "sys_mem s"]
  have "thread_ok (sys_inv s \<noteq> []) (cpu_step e (sys_mem s)) (sys_thr s k)" for k
    by (rule thread_ok_mono [of "sys_inv s \<noteq> []" "sys_mem s"]) (use assms(2) q in \<open>auto simp: sys_ok_def\<close>)
  with map_page(1) q(3) assms(2) coherent_cpu_step show ?thesis by (simp add: sys_ok_def)
next
  case (announce r m)
  have own: "\<not> (inv_migrate r \<and> inv_owner r = Some (mdevice (sys_mem s)))" using announce(2) by (simp add: announces_def)
  note d = invalidate_drops [OF announce(3) own]
  have "thread_ok True m (sys_thr s k)" for k
    by (rule thread_ok_mono [of "sys_inv s \<noteq> []" "sys_mem s"])
      (use assms(2) announce(2) d(1,2) in \<open>auto simp: sys_ok_def announces_def\<close>)
  moreover have "coherent m" using assms(2) d(1,3) by (auto simp: sys_ok_def intro: coherent_drop)
  moreover have "pt m pfn = None" if "(a, e) \<in> set (sys_inv s)" "pfn \<in> set (pfn_range a e)" for a e pfn
    using assms(2) that d(3) [of pfn] by (auto simp: sys_ok_def)
  ultimately show ?thesis using announce(1) d(4) by (auto simp: sys_ok_def)
next
  case (would_block r m)
  then have "m = sys_mem s" by (auto simp: dmirror_interval_invalidate_def Let_def split: if_splits)
  with would_block(1) assms(2) show ?thesis by simp
next
  case (gone a e)
  let ?m = "zapped a e (sys_mem s)" and ?inv = "remove1 (a, e) (sys_inv s)"
  have m: "pt ?m = pt (sys_mem s)" "inv_seq ?m = inv_seq (sys_mem s)"
    "\<And>pfn. cpu ?m pfn = (if pfn \<in> set (pfn_range a e) then None else cpu (sys_mem s) pfn)"
    by (simp_all add: zapped_def)
  have none: "\<forall>pfn\<in>set (pfn_range a e). pt (sys_mem s) pfn = None" using assms(2) gone(2) by (auto simp: sys_ok_def)
  have "sys_inv s \<noteq> []" using gone(2) by auto
  have "thread_ok (?inv \<noteq> []) ?m (sys_thr s k)" for k
    by (rule thread_ok_mono [of True "sys_mem s"])
      (use assms(2) \<open>sys_inv s \<noteq> []\<close> m(2) in \<open>auto simp: sys_ok_def\<close>)
  moreover have "coherent ?m"
    unfolding coherent_def m
  proof (intro allI impI)
    fix pfn p t assume pt: "pt (sys_mem s) pfn = Some (p, t)"
    with none have "pfn \<notin> set (pfn_range a e)" by auto
    with coherentD [OF _ pt] assms(2)
    show "\<exists>w. (if pfn \<in> set (pfn_range a e) then None else cpu (sys_mem s) pfn) = Some (p, w) \<and> (t = DPT_XA_TAG_WRITE \<longrightarrow> w)"
      by (simp add: sys_ok_def)
  qed
  moreover have "\<forall>(a, e)\<in>set ?inv. \<forall>pfn\<in>set (pfn_range a e). pt (sys_mem s) pfn = None"
    using assms(2) set_remove1_subset [of "(a, e)" "sys_inv s"] unfolding sys_ok_def by blast
  ultimately show ?thesis using gone(1) m(1) by (simp add: sys_ok_def)
qed

lemma reachable_ok: "reachable s \<Longrightarrow> sys_ok s"
proof (induction rule: reachable.induct)
  case (opened s)
  then show ?case by (simp add: sys_ok_def opened_def coherent_def)
next
  case (step s s')
  then show ?case by (blast intro: sys_step_ok)
qed

section \<open>Accesses\<close>

lemma cpu_step_data: "page_data (cpu_step e m) = page_data m"
  by (cases e) (auto simp: dmirror_interval_invalidate_def dmirror_do_update_def unmapping_def Let_def split: option.splits)

lemma tstep_writes:
  assumes "tstep b t m t' m'" and "page_data m' p \<noteq> page_data m p"
  obtains j pfn where "t = Access j" "j_write j" "pfn \<in> set (pfn_range (j_start j) (j_fin j))" "pt m pfn = Some (p, DPT_XA_TAG_WRITE)"
  using assms
proof cases
  case (do_write j ret b' alive)
  then have "\<exists>pfn\<in>set (pfn_range (j_start j) (j_fin j)). pt m pfn = Some (p, DPT_XA_TAG_WRITE)"
    using assms(2) do_write_frame [of "pfn_range (j_start j) (j_fin j)" _ m "j_bounce j" ret m' b']
    by (simp add: dmirror_do_write_def)
  with do_write(1,3) that show ?thesis by blast
next
  case (store q xa j a hs r)
  then show ?thesis using assms(2) do_fault_loop_cpu by (fastforce simp: dmirror_do_fault_def)
qed (use assms(2) in simp_all)

lemma sys_step_writes:
  assumes "sys_step s s'" and "page_data (sys_mem s') p \<noteq> page_data (sys_mem s) p"
  obtains i j pfn where "sys_thr s i = Access j" "j_write j" "pfn \<in> set (pfn_range (j_start j) (j_fin j))"
    "pt (sys_mem s) pfn = Some (p, DPT_XA_TAG_WRITE)"
  using assms(1)
proof cases
  case (thread i t m)
  with assms(2) show ?thesis by (auto intro: that elim: tstep_writes [OF thread(2)])
next
  case (map_page e)
  with assms(2) show ?thesis by (simp add: cpu_step_data)
next
  case (announce r m)
  with assms(2) show ?thesis
    by (auto simp: dmirror_interval_invalidate_def dmirror_do_update_def Let_def split: if_splits)
next
  case (would_block r m)
  with assms(2) show ?thesis by (auto simp: dmirror_interval_invalidate_def Let_def split: if_splits)
next
  case (gone a e)
  with assms(2) show ?thesis by (simp add: zapped_def)
qed

lemma do_read_content:
  "do_read_loop pfns i m b = (r, b') \<Longrightarrow> b_ptr b' ! k \<noteq> b_ptr b ! k \<Longrightarrow>
    \<exists>pfn\<in>set pfns. \<exists>p t. pt m pfn = Some (p, t) \<and> b_ptr b' ! k = page_data m p"
proof (induction pfns i m b rule: do_read_loop.induct)
  case (2 pfn pfns i m b)
  show ?case
  proof (cases "pt m pfn")
    case None
    with 2 show ?thesis by simp
  next
    case (Some e)
    obtain p t where e: "e = (p, t)" by fastforce
    let ?b = "b\<lparr>b_ptr := (b_ptr b)[i := page_data m p], b_cpages := b_cpages b + 1\<rparr>"
    have run: "do_read_loop pfns (i + 1) m ?b = (r, b')" using 2(2) Some e by simp
    show ?thesis
    proof (cases "b_ptr b' ! k = b_ptr ?b ! k")
      case False
      from 2(1) [OF Some e [symmetric] run False] show ?thesis by auto
    next
      case True
      with 2(3) have "(b_ptr b)[i := page_data m p] ! k \<noteq> b_ptr b ! k" by simp
      then have "k = i" "i < length (b_ptr b)"
        by (metis nth_list_update_neq, metis list_update_beyond not_le)
      with True Some e show ?thesis by auto
    qed
  qed
qed simp

end
