(* ===== verification/Dmirror_Runs.thy ===== *)
theory Dmirror_Runs
  imports Dmirror_Threads
begin

text \<open>
  The handlers that take their environment as a list are runs of the system of threads: what \<open>dmirror_range_fault\<close>,
  \<open>dmirror_read\<close> and \<open>dmirror_write\<close> compute is what one thread comes to in some interleaving, with the other
  threads at rest. Every property of reachable states holds along their executions.
\<close>

section \<open>Runs of one thread\<close>

definition at_state :: "system \<Rightarrow> nat \<Rightarrow> thread \<Rightarrow> mirror \<Rightarrow> system" where
  "at_state s i t m = s\<lparr>sys_mem := m, sys_thr := (sys_thr s)(i := t)\<rparr>"

lemma at_state_simps [simp]:
  "sys_mem (at_state s i t m) = m" "sys_inv (at_state s i t m) = sys_inv s" "sys_thr (at_state s i t m) i = t"
  "(at_state s i t m)\<lparr>sys_mem := m'\<rparr> = at_state s i t m'"
  "(at_state s i t m)\<lparr>sys_thr := (sys_thr (at_state s i t' m'))(i := t'')\<rparr> = at_state s i t'' m"
  by (cases s; simp add: at_state_def)+

definition runs :: "nat \<Rightarrow> thread \<Rightarrow> mirror \<Rightarrow> thread \<Rightarrow> mirror \<Rightarrow> bool" where
  "runs i t m t' m' \<longleftrightarrow> (\<forall>s. sys_inv s = [] \<longrightarrow> sys_step\<^sup>*\<^sup>* (at_state s i t m) (at_state s i t' m'))"

lemma runs_refl [simp]: "runs i t m t m"
  by (simp add: runs_def)

lemma runs_trans: "runs i t m t1 m1 \<Longrightarrow> runs i t1 m1 t2 m2 \<Longrightarrow> runs i t m t2 m2"
  unfolding runs_def by (meson rtranclp_trans)

lemma runs_step: "tstep False t m t' m' \<Longrightarrow> runs i t m t' m'"
proof -
  assume step: "tstep False t m t' m'"
  have "sys_step (at_state s i t m) (at_state s i t' m')" if "sys_inv s = []" for s
    using sys_step.thread [of "at_state s i t m" i t' m'] step that by simp
  then show ?thesis by (simp add: runs_def r_into_rtranclp)
qed

lemma runs_cpu: "runs i t m t (cpu_step e m)"
proof (cases "quiet e")
  case True
  have "sys_step (at_state s i t m) (at_state s i t (cpu_step e m))" for s
    using sys_step.map_page [OF True, of "at_state s i t m"] by simp
  then show ?thesis by (simp add: runs_def r_into_rtranclp)
next
  case False
  then obtain a b where e: "e = Cpu_unmap a b" by (cases e) (simp_all add: quiet_def)
  let ?r = "unmapping a b m"
  obtain m1 where m1: "dmirror_interval_invalidate ?r m = (True, m1)"
    by (simp add: dmirror_interval_invalidate_def unmapping_def)
  have "sys_step\<^sup>*\<^sup>* (at_state s i t m) (at_state s i t (cpu_step e m))" if none: "sys_inv s = []" for s
  proof -
    let ?s1 = "(at_state s i t m)\<lparr>sys_mem := m1, sys_inv := [(a, b)]\<rparr>"
    have "announces (at_state s i t m) ?r" by (simp add: announces_def at_state_def unmapping_def)
    from sys_step.announce [OF this, of m1] m1 none have first: "sys_step (at_state s i t m) ?s1"
      by (simp add: at_state_def unmapping_def)
    have "sys_step ?s1 (?s1\<lparr>sys_mem := zapped a b m1, sys_inv := []\<rparr>)"
      using sys_step.gone [of a b ?s1] by simp
    moreover have "?s1\<lparr>sys_mem := zapped a b m1, sys_inv := []\<rparr> = at_state s i t (cpu_step e m)"
      using m1 none by (cases s) (simp add: at_state_def e zapped_def)
    ultimately show ?thesis using first by (metis rtranclp.rtrancl_into_rtrancl rtranclp.rtrancl_refl)
  qed
  then show ?thesis by (simp add: runs_def)
qed

lemma runs_cpus: "runs i t m t (fold cpu_step es m)"
proof (induction es arbitrary: m)
  case (Cons e es)
  show ?case using runs_trans [OF runs_cpu Cons] by simp
qed simp

section \<open>Faults\<close>

text \<open>\<open>hmm_range_fault\<close> looks at one entry after the other.\<close>

lemma runs_walk:
  assumes "list_all2 (\<lambda>pfn h. \<exists>w. cpu m pfn = Some (hp_page h, w) \<and> hp_write h = w \<and> (j_write j \<longrightarrow> w)) (piece j a) hs"
    and "n \<le> length hs"
  shows "runs i (Walk j a q []) m (Walk j a q (take n hs)) m"
  using assms(2)
proof (induction n)
  case (Suc n)
  then have n: "n < length hs" "n < length (piece j a)" using assms(1) by (simp_all add: list_all2_lengthD)
  with assms(1) have "cpu m (piece j a ! n) = Some (hp_page (hs ! n), hp_write (hs ! n))" "j_write j \<longrightarrow> hp_write (hs ! n)"
    by (auto simp: list_all2_conv_all_nth)
  with n have "tstep False (Walk j a q (take n hs)) m (Walk j a q (take n hs @ [hs ! n])) m"
    by (intro tstep.walk_entry) simp_all
  with n Suc show ?case by (metis runs_trans runs_step take_Suc_conv_app_nth Suc_leD)
qed simp

definition fault_done :: "job \<Rightarrow> u64 \<Rightarrow> int \<Rightarrow> thread" where
  "fault_done j a r = (if r \<noteq> 0 then fault_returned r j else next_fault (next_piece a (j_fin j)) j)"

lemma runs_range_fault:
  assumes "hrf_ok hrf"
  shows "dmirror_range_fault hrf xa (j_write j) a (next_piece a (j_fin j)) ats m = Some (r, m') \<Longrightarrow>
    runs i (Begin j a) m (fault_done j a r) m'"
proof (induction ats arbitrary: m)
  case (Cons at ats)
  let ?e = "next_piece a (j_fin j)"
  let ?m1 = "fold cpu_step (at_before at) m"
  let ?m2 = "fold cpu_step (at_after at) ?m1"
  obtain ret pfns where rp: "(if at_ret at \<noteq> 0 then (at_ret at, []) else hrf (cpu ?m1) a ?e (j_write j)) = (ret, pfns)" by fastforce
  have run: "(if at_expired at then Some (- EBUSY, m)
     else if ret \<noteq> 0 then (if ret = - EBUSY then dmirror_range_fault hrf xa (j_write j) a ?e ats ?m2 else Some (ret, ?m2))
     else if inv_seq ?m2 \<noteq> inv_seq m then dmirror_range_fault hrf xa (j_write j) a ?e ats ?m2
     else Some (dmirror_do_fault xa (j_write j) a ?e pfns ?m2)) = Some (r, m')"
    using Cons.prems by (simp only: dmirror_range_fault.simps Let_def rp prod.case)
  show ?case
  proof (cases "at_expired at")
    case True
    with run tstep.expired [of False j a m] show ?thesis by (auto simp: fault_done_def intro: runs_step)
  next
    case False
    let ?w = "Walk j a (inv_seq m) []"
    have walk: "runs i (Begin j a) m ?w ?m1"
      by (rule runs_trans [OF runs_step runs_cpus]) (simp add: tstep.read_begin)
    show ?thesis
    proof (cases "ret = 0")
      case failed: False
      have late: "runs i (Begin j a) m ?w ?m2" by (rule runs_trans [OF walk runs_cpus])
      show ?thesis
      proof (cases "ret = - EBUSY")
        case True
        have "runs i (Begin j a) m (Begin j a) ?m2" by (rule runs_trans [OF late runs_step [OF tstep.walk_busy]])
        with Cons.IH [of ?m2] run False failed True show ?thesis by (auto intro: runs_trans)
      next
        case no: False
        have "runs i (Begin j a) m (fault_returned ret j) ?m2"
          by (rule runs_trans [OF late runs_step [OF tstep.walk_failed [OF failed no]]])
        with run False failed no show ?thesis by (simp add: fault_done_def)
      qed
    next
      case True
      with rp have "hrf (cpu ?m1) a ?e (j_write j) = (0, pfns)" by (auto split: if_splits)
      with assms have all: "list_all2 (\<lambda>pfn h. \<exists>w. cpu ?m1 pfn = Some (hp_page h, w) \<and> hp_write h = w \<and> (j_write j \<longrightarrow> w)) (piece j a) pfns"
        by (simp add: hrf_ok_def piece_def)
      have "runs i ?w ?m1 (Walk j a (inv_seq m) pfns) ?m1" using runs_walk [OF all order_refl] by simp
      moreover have "runs i (Walk j a (inv_seq m) pfns) ?m1 (Check j a (inv_seq m) pfns) ?m2"
        using all by (intro runs_trans [OF runs_step runs_cpus] tstep.walk_done) (simp add: list_all2_lengthD)
      ultimately have check: "runs i (Begin j a) m (Check j a (inv_seq m) pfns) ?m2" by (metis runs_trans walk)
      show ?thesis
      proof (cases "inv_seq ?m2 = inv_seq m")
        case False
        have "runs i (Begin j a) m (Begin j a) ?m2" by (rule runs_trans [OF check runs_step [OF tstep.retry [OF False]]])
        with Cons.IH [of ?m2] run \<open>\<not> at_expired at\<close> True False show ?thesis by (auto intro: runs_trans)
      next
        case same: True
        with run \<open>\<not> at_expired at\<close> True have "dmirror_do_fault xa (j_write j) a ?e pfns ?m2 = (r, m')" by simp
        from tstep.store [OF same this] show ?thesis
          unfolding fault_done_def by (rule runs_trans [OF check runs_step])
      qed
    qed
  qed
qed simp

lemma runs_fault_loop:
  assumes "hrf_ok hrf"
  shows "fault_loop hrf xa (j_write j) (j_fin j) ps a m = Some (r, m') \<Longrightarrow>
    runs i (next_fault a j) m (fault_returned r j) m'"
proof (induction ps arbitrary: a m)
  case Nil
  then show ?case by (auto simp: next_fault_def split: if_splits)
next
  case (Cons ats ps)
  show ?case
  proof (cases "a < j_fin j")
    case False
    with Cons.prems show ?thesis by (auto simp: next_fault_def)
  next
    case True
    then obtain r1 m1 where one: "dmirror_range_fault hrf xa (j_write j) a (next_piece a (j_fin j)) ats m = Some (r1, m1)"
      "if r1 \<noteq> 0 then (r, m') = (r1, m1) else fault_loop hrf xa (j_write j) (j_fin j) ps (next_piece a (j_fin j)) m1 = Some (r, m')"
      using Cons.prems by (auto split: option.splits if_splits)
    from runs_range_fault [OF assms one(1), of i] True Cons.IH [of "next_piece a (j_fin j)" m1] one(2) show ?thesis
      by (auto simp: next_fault_def [of a] fault_done_def intro: runs_trans split: if_splits)
  qed
qed

section \<open>Commands\<close>

lemma runs_fault:
  assumes "hrf_ok hrf" and "dmirror_fault hrf xa alive ps a (j_fin j) (j_write j) m = Some (r, m')"
  shows "runs i (if \<not> alive then fault_returned 0 j else next_fault a j) m (fault_returned r j) m'"
  using assms runs_fault_loop by (auto simp: dmirror_fault_def split: if_splits)

text \<open>The local variables at a given point of the loop, and at its end.\<close>

definition io_job :: "bool \<Rightarrow> u64 \<Rightarrow> u64 \<Rightarrow> u64 \<Rightarrow> bounce \<Rightarrow> u64 \<Rightarrow> job" where
  "io_job w addr fin start b faults =
    \<lparr>j_write = w, j_addr = addr, j_fin = fin, j_start = start, j_bounce = b, j_faults = faults\<rparr>"

lemma io_job_simps [simp]:
  "j_write (io_job w addr fin start b faults) = w" "j_addr (io_job w addr fin start b faults) = addr"
  "j_fin (io_job w addr fin start b faults) = fin" "j_start (io_job w addr fin start b faults) = start"
  "j_bounce (io_job w addr fin start b faults) = b" "j_faults (io_job w addr fin start b faults) = faults"
  "(io_job w addr fin start b faults)\<lparr>j_bounce := b'\<rparr> = io_job w addr fin start b' faults"
  "(io_job w addr fin start b faults)\<lparr>j_start := start'\<rparr> = io_job w addr fin start' b faults"
  "(io_job w addr fin start b faults)\<lparr>j_faults := faults'\<rparr> = io_job w addr fin start b faults'"
  by (simp_all add: io_job_def)

lemma accessed_missing:
  "accessed alive (- ENOENT) (io_job w addr fin start b faults) =
    (let start = addr + push_bit PAGE_SHIFT (b_cpages b); j = io_job w addr fin start b faults
     in if \<not> alive then fault_returned 0 j else next_fault start j)"
  by (simp add: accessed_def Let_def)

lemma runs_read_step:
  "dmirror_do_read start fin m b = (ret, b') \<Longrightarrow>
    runs i (Access (io_job False addr fin start b faults)) m (accessed alive ret (io_job False addr fin start b' faults)) m"
  using tstep.do_read [of "io_job False addr fin start b faults"] by (auto intro: runs_step)

lemma runs_write_step:
  "dmirror_do_write start fin m b = (ret, m', b') \<Longrightarrow>
    runs i (Access (io_job True addr fin start b faults)) m (accessed alive ret (io_job True addr fin start b' faults)) m'"
  using tstep.do_write [of "io_job True addr fin start b faults"] by (auto intro: runs_step)

text \<open>One round of either loop: the access found a frame missing, the fault returned \<open>r\<close>, other things happened.\<close>

lemma runs_round:
  assumes "hrf_ok hrf" and "runs i t m0 (accessed (rd_alive rd) (- ENOENT) (io_job w addr fin start b faults)) m"
    and "dmirror_fault hrf xa (rd_alive rd) (rd_pieces rd) (addr + push_bit PAGE_SHIFT (b_cpages b)) fin w m = Some (r, m1)"
  shows "runs i t m0 (if r \<noteq> 0 then Finished r (io_job w addr fin (addr + push_bit PAGE_SHIFT (b_cpages b)) b faults)
      else Access (io_job w addr fin (addr + push_bit PAGE_SHIFT (b_cpages b)) b (faults + 1)))
    (if r \<noteq> 0 then m1 else fold cpu_step (rd_after rd) m1)"
proof -
  let ?j = "io_job w addr fin (addr + push_bit PAGE_SHIFT (b_cpages b)) b faults"
  have "runs i (accessed (rd_alive rd) (- ENOENT) (io_job w addr fin start b faults)) m (fault_returned r ?j) m1"
    using runs_fault [OF assms(1), of xa "rd_alive rd" "rd_pieces rd" _ ?j m r m1 i] assms(3)
    by (simp add: accessed_missing Let_def)
  with assms(2) have one: "runs i t m0 (fault_returned r ?j) m1" by (rule runs_trans)
  show ?thesis
  proof (cases "r = 0")
    case True
    then show ?thesis using runs_trans [OF one runs_cpus] by (simp add: fault_returned_def)
  next
    case False
    then show ?thesis using one by (simp add: fault_returned_def)
  qed
qed

lemma accessed_over: "ret \<noteq> - ENOENT \<Longrightarrow> accessed alive ret j = Finished ret j"
  by (simp add: accessed_def)

lemma runs_read_loop:
  assumes "hrf_ok hrf"
  shows "read_loop hrf xa addr fin rds start m b faults = Some (ret, m', b', faults') \<Longrightarrow>
    \<exists>start'. runs i (Access (io_job False addr fin start b faults)) m (Finished ret (io_job False addr fin start' b' faults')) m'"
proof (induction rds arbitrary: start m b faults)
  case Nil
  then show ?case
    using runs_read_step [of start fin m b ret b' i addr faults True] by (auto simp: accessed_over split: prod.splits if_splits)
next
  case (Cons rd rds)
  obtain r1 b1 where one: "dmirror_do_read start fin m b = (r1, b1)" by fastforce
  note step = runs_read_step [OF one, of i addr faults "rd_alive rd"]
  show ?case
  proof (cases "r1 = - ENOENT")
    case False
    with Cons.prems one step show ?thesis by (auto simp: accessed_over)
  next
    case True
    let ?start = "addr + push_bit PAGE_SHIFT (b_cpages b1)"
    obtain r m1 where f: "dmirror_fault hrf xa (rd_alive rd) (rd_pieces rd) ?start fin False m = Some (r, m1)"
      using Cons.prems one True by (auto simp: Let_def split: option.splits)
    from runs_round [OF assms step [unfolded True] f] show ?thesis
      using Cons.prems one True f Cons.IH [of ?start "fold cpu_step (rd_after rd) m1" b1 "faults + 1"]
      by (auto simp: Let_def intro: runs_trans split: if_splits)
  qed
qed

lemma runs_write_loop:
  assumes "hrf_ok hrf"
  shows "write_loop hrf xa addr fin rds start m b faults = Some (ret, m', b', faults') \<Longrightarrow>
    \<exists>start'. runs i (Access (io_job True addr fin start b faults)) m (Finished ret (io_job True addr fin start' b' faults')) m'"
proof (induction rds arbitrary: start m b faults)
  case Nil
  obtain r1 m1 b1 where "dmirror_do_write start fin m b = (r1, m1, b1)" by (metis prod_cases3)
  with Nil show ?case
    using runs_write_step [of start fin m b r1 m1 b1 i addr faults True] by (auto simp: accessed_over split: if_splits)
next
  case (Cons rd rds)
  obtain r1 m0 b1 where one: "dmirror_do_write start fin m b = (r1, m0, b1)" by (metis prod_cases3)
  note step = runs_write_step [OF one, of i addr faults "rd_alive rd"]
  show ?case
  proof (cases "r1 = - ENOENT")
    case False
    with Cons.prems one step show ?thesis by (auto simp: accessed_over)
  next
    case True
    let ?start = "addr + push_bit PAGE_SHIFT (b_cpages b1)"
    obtain r m1 where f: "dmirror_fault hrf xa (rd_alive rd) (rd_pieces rd) ?start fin True m0 = Some (r, m1)"
      using Cons.prems one True by (auto simp: Let_def split: option.splits)
    from runs_round [OF assms step [unfolded True] f] show ?thesis
      using Cons.prems one True f Cons.IH [of ?start "fold cpu_step (rd_after rd) m1" b1 "faults + 1"]
      by (auto simp: Let_def intro: runs_trans split: if_splits)
  qed
qed

lemma runs_start:
  fixes cmd :: hmm_dmirror_cmd and b :: bounce
  assumes "\<not> c_addr cmd + push_bit PAGE_SHIFT (c_npages cmd) < c_addr cmd"
    and "dmirror_bounce_init (Some junk) (c_addr cmd) (push_bit PAGE_SHIFT (c_npages cmd)) = (0, b)"
  shows "runs i Idle m (Access (io_job w (c_addr cmd) (c_addr cmd + push_bit PAGE_SHIFT (c_npages cmd)) (c_addr cmd)
    (if w then b\<lparr>b_ptr := pages\<rparr> else b) (c_faults cmd))) m"
  using tstep.start [OF assms] by (intro runs_step) (simp add: command_def io_job_def)

text \<open>
  C3. The handlers are executions of the system of threads. Whenever \<open>dmirror_write\<close> or \<open>dmirror_read\<close>, with
  any environment, returns from a command that is not refused, a thread can go from rest to the end of the same
  command in steps, with the process's events in between, and ends with the same result, the same memory and mirror,
  and the counts and the buffer that the caller gets.
\<close>

theorem handlers_are_runs:
  assumes "hrf_ok hrf" and "io_vmalloc e = Some junk" and "\<not> c_addr cmd + push_bit PAGE_SHIFT (c_npages cmd) < c_addr cmd"
  shows "(dmirror_write hrf xa e (Some pages) cmd m = Some (ret, cmd', m') \<longrightarrow>
      (\<exists>j. runs i Idle m (Finished ret j) m' \<and> cmd' = cmd\<lparr>c_faults := j_faults j, c_cpages := b_cpages (j_bounce j)\<rparr>))
    \<and> (dmirror_read hrf xa e cmd m = Some (ret, cmd', m', out) \<longrightarrow>
      (\<exists>j r. runs i Idle m (Finished r j) m' \<and> cmd' = cmd\<lparr>c_faults := j_faults j, c_cpages := b_cpages (j_bounce j)\<rparr>
        \<and> (if r = 0 \<and> io_copy e then ret = 0 \<and> out = Some (b_ptr (j_bounce j))
            else out = None \<and> ret = (if r = 0 then - EFAULT else r))))"
proof (intro conjI impI)
  let ?start = "c_addr cmd" and ?fin = "c_addr cmd + push_bit PAGE_SHIFT (c_npages cmd)"
  obtain b where init: "dmirror_bounce_init (Some junk) ?start (push_bit PAGE_SHIFT (c_npages cmd)) = (0, b)"
    by (simp add: dmirror_bounce_init_def)
  {
    assume run: "dmirror_write hrf xa e (Some pages) cmd m = Some (ret, cmd', m')"
    obtain b' f where loop: "write_loop hrf xa ?start ?fin (io_rounds e) ?start m (b\<lparr>b_ptr := pages\<rparr>) (c_faults cmd) = Some (ret, m', b', f)"
      "cmd' = cmd\<lparr>c_faults := f, c_cpages := b_cpages b'\<rparr>"
      using run init assms(2,3) by (auto simp: dmirror_write_def Let_def split: option.splits)
    from runs_write_loop [OF assms(1) loop(1), of i] runs_start [OF assms(3) init, of i m True pages]
    obtain s' where "runs i Idle m (Finished ret (io_job True ?start ?fin s' b' f)) m'" by (auto intro: runs_trans)
    with loop(2) show "\<exists>j. runs i Idle m (Finished ret j) m' \<and> cmd' = cmd\<lparr>c_faults := j_faults j, c_cpages := b_cpages (j_bounce j)\<rparr>"
      by (intro exI [of _ "io_job True ?start ?fin s' b' f"]) simp
  next
    assume run: "dmirror_read hrf xa e cmd m = Some (ret, cmd', m', out)"
    obtain r b' f where loop: "read_loop hrf xa ?start ?fin (io_rounds e) ?start m b (c_faults cmd) = Some (r, m', b', f)"
      "cmd' = cmd\<lparr>c_faults := f, c_cpages := b_cpages b'\<rparr>"
      "if r = 0 \<and> io_copy e then ret = 0 \<and> out = Some (b_ptr b') else out = None \<and> ret = (if r = 0 then - EFAULT else r)"
      using run init assms(2,3) by (auto simp: dmirror_read_def Let_def split: option.splits if_splits)
    from runs_read_loop [OF assms(1) loop(1), of i] runs_start [OF assms(3) init, of i m False pages]
    obtain s' where "runs i Idle m (Finished r (io_job False ?start ?fin s' b' f)) m'" by (auto intro: runs_trans)
    with loop(2,3) show "\<exists>j r. runs i Idle m (Finished r j) m' \<and> cmd' = cmd\<lparr>c_faults := j_faults j, c_cpages := b_cpages (j_bounce j)\<rparr>
        \<and> (if r = 0 \<and> io_copy e then ret = 0 \<and> out = Some (b_ptr (j_bounce j))
            else out = None \<and> ret = (if r = 0 then - EFAULT else r))"
      by (intro exI [of _ "io_job False ?start ?fin s' b' f"] exI [of _ r]) simp
  }
qed

theorem handlers_are_runs_witness:
  "\<exists>m' j. runs 0 Idle small_mirror (Finished 0 j) m' \<and> b_ptr (j_bounce j) = [[], []]"
proof -
  have n: "unat (c_npages small_cmd) = 2" "unat (c_addr small_cmd) = 65536" by (simp_all add: small_cmd_def)
  obtain cmd' m' where run: "dmirror_read cpu_walk (\<lambda>_. 0) (still_io 2) small_cmd small_mirror = Some (0, cmd', m', Some [[], []])"
    using read_completes [OF cpu_walk_ok cpu_walk_complete small_mirror_coherent small_cmd_ok]
    unfolding n small_cmd_range by auto
  have "\<not> c_addr small_cmd + push_bit PAGE_SHIFT (c_npages small_cmd) < c_addr small_cmd"
    by (simp add: small_cmd_def push_bit_eq_mult)
  moreover obtain junk where "io_vmalloc (still_io 2) = Some junk" by (simp add: still_io_def)
  ultimately show ?thesis
    using handlers_are_runs [OF cpu_walk_ok, of "still_io 2" junk small_cmd "\<lambda>_. 0" "[]" small_mirror 0 cmd' m' 0 "Some [[], []]"] run
    by (auto split: if_splits)
qed

section \<open>What holds in every reachable state\<close>

lemma reachable_run: "sys_step\<^sup>*\<^sup>* s s' \<Longrightarrow> reachable s \<Longrightarrow> reachable s'"
  by (induction rule: rtranclp_induct) (auto intro: reachable.step)

text \<open>An example: a thread writes two pages of a process that nobody has mirrored yet.\<close>

definition fresh :: system where
  "fresh = \<lparr>sys_mem = small_mirror\<lparr>pt := Map.empty\<rparr>, sys_inv = [], sys_thr = (\<lambda>_. Idle)\<rparr>"

definition two_pages :: bounce where
  "two_pages = \<lparr>b_ptr = [[1], [2]], b_size = 0x2000, b_addr = 0x10000, b_cpages = 0\<rparr>"

definition writing :: system where
  "writing = at_state fresh 0 (Access (io_job True 0x10000 0x12000 0x10000 two_pages 1))
    (small_mirror\<lparr>pt := [16 \<mapsto> (100, 3), 17 \<mapsto> (101, 3)]\<rparr>)"

lemma small_range: "pfn_range 0x10000 0x12000 = [16, 17]" "next_piece 0x10000 0x12000 = (0x12000 :: u64)"
  using small_cmd_range by (simp_all add: cmd_range_def small_cmd_def push_bit_eq_mult next_piece_def)

lemma writing_reachable: "reachable writing"
proof -
  let ?m = "small_mirror\<lparr>pt := Map.empty\<rparr>" and ?m' = "small_mirror\<lparr>pt := [16 \<mapsto> (100, 3), 17 \<mapsto> (101, 3)]\<rparr>"
  let ?j = "io_job True 0x10000 0x12000 0x10000 two_pages 0"
  have r1: "runs 0 Idle ?m (Access ?j) ?m"
    using runs_start [of small_cmd "\<lambda>_. []" _ 0 ?m True "[[1], [2]]"]
    by (simp add: dmirror_bounce_init_def small_cmd_def push_bit_eq_mult two_pages_def)
  have r2: "runs 0 (Access ?j) ?m (Begin ?j 0x10000) ?m"
    using runs_write_step [where start = "0x10000" and fin = "0x12000" and m = ?m and b = two_pages and addr = "0x10000" and faults = 0 and alive = True and i = 0]
    by (simp add: dmirror_do_write_def small_range accessed_missing next_fault_def two_pages_def)
  have "dmirror_range_fault cpu_walk (\<lambda>_. 0) True 0x10000 0x12000 [still_attempt] ?m = Some (0, ?m')"
    by (simp add: still_attempt_def cpu_walk_def small_range dmirror_do_fault_def xa_store_def DPT_XA_TAG_WRITE_def Let_def)
  then have r3: "runs 0 (Begin ?j 0x10000) ?m (Access (io_job True 0x10000 0x12000 0x10000 two_pages 1)) ?m'"
    using runs_range_fault [OF cpu_walk_ok, of "\<lambda>_. 0" ?j "0x10000" "[still_attempt]" ?m 0 ?m' 0]
    by (simp add: small_range fault_done_def next_fault_def fault_returned_def)
  have "sys_step\<^sup>*\<^sup>* (at_state fresh 0 Idle ?m) writing" 
    using runs_trans [OF r1 runs_trans [OF r2 r3]] by (simp add: runs_def fresh_def writing_def)
  moreover have "at_state fresh 0 Idle ?m = fresh" by (simp add: fresh_def at_state_def fun_eq_iff)
  moreover have "opened fresh" by (simp add: opened_def fresh_def)
  ultimately show ?thesis using reachable_run [of fresh writing] by (simp add: reachable.opened)
qed

text \<open>
  C1. The invariant of the mirror under concurrency. In every state that any number of threads and the
  process can reach, however reads, writes, faults, mappings and overlapping invalidations are interleaved, every
  entry of the mirror names the page the process has there, writable only if the process may write it; and as soon as
  an invalidation has been announced, the mirror has nothing in its range.
\<close>

theorem reachable_coherent:
  assumes "reachable s"
  shows "coherent (sys_mem s) \<and> (\<forall>(a, e)\<in>set (sys_inv s). \<forall>pfn\<in>set (pfn_range a e). pt (sys_mem s) pfn = None)"
  using reachable_ok [OF assms] by (simp add: sys_ok_def)

theorem reachable_coherent_witness:
  "\<exists>s. pt (sys_mem writing) 16 \<noteq> None \<and> sys_step writing s \<and> pt (sys_mem s) 16 = None \<and> pt (sys_mem s) 17 = None"
proof -
  let ?r = "unmapping 0x10000 0x12000 (sys_mem writing)"
  obtain m where m: "dmirror_interval_invalidate ?r (sys_mem writing) = (True, m)"
    by (simp add: dmirror_interval_invalidate_def unmapping_def)
  let ?s = "writing\<lparr>sys_mem := m, sys_inv := (0x10000, 0x12000) # sys_inv writing\<rparr>"
  have "announces writing ?r" by (simp add: announces_def unmapping_def)
  from sys_step.announce [OF this m] have step: "sys_step writing ?s" by (simp add: unmapping_def)
  from reachable_coherent [OF reachable.step [OF writing_reachable step]] have
    c: "coherent m" "\<forall>pfn\<in>{16, 17}. pt m pfn = None" by (simp_all add: small_range)
  with c step show ?thesis by (intro exI [of _ ?s]) (simp add: writing_def)
qed

text \<open>
  C2. No access through a stale entry. In a reachable state a step changes the contents of a page only if it
  is a write command of some thread whose range has a frame at which the process itself has that page mapped writable at
  this moment; and what \<open>dmirror_do_read\<close> puts into the buffer is the contents of a page the process has mapped in the
  range at this moment.
\<close>

theorem access_mapped:
  assumes "reachable s"
  shows "(sys_step s s' \<and> page_data (sys_mem s') p \<noteq> page_data (sys_mem s) p \<longrightarrow>
      (\<exists>i j pfn. sys_thr s i = Access j \<and> j_write j \<and> pfn \<in> set (pfn_range (j_start j) (j_fin j))
        \<and> cpu (sys_mem s) pfn = Some (p, True)))
    \<and> (dmirror_do_read start fin (sys_mem s) b = (r, b') \<and> b_ptr b' ! k \<noteq> b_ptr b ! k \<longrightarrow>
      (\<exists>pfn\<in>set (pfn_range start fin). \<exists>q w. cpu (sys_mem s) pfn = Some (q, w) \<and> b_ptr b' ! k = page_data (sys_mem s) q))"
proof (intro conjI impI; elim conjE)
  have coh: "coherent (sys_mem s)" using reachable_ok [OF assms] by (simp add: sys_ok_def)
  {
    assume "sys_step s s'" "page_data (sys_mem s') p \<noteq> page_data (sys_mem s) p"
    then obtain i j pfn where w: "sys_thr s i = Access j" "j_write j" "pfn \<in> set (pfn_range (j_start j) (j_fin j))"
      "pt (sys_mem s) pfn = Some (p, DPT_XA_TAG_WRITE)" by (rule sys_step_writes)
    have "cpu (sys_mem s) pfn = Some (p, True)" using coherentD [OF coh w(4)] by auto
    with w show "\<exists>i j pfn. sys_thr s i = Access j \<and> j_write j
        \<and> pfn \<in> set (pfn_range (j_start j) (j_fin j)) \<and> cpu (sys_mem s) pfn = Some (p, True)" by blast
  next
    assume "dmirror_do_read start fin (sys_mem s) b = (r, b')" "b_ptr b' ! k \<noteq> b_ptr b ! k"
    then obtain pfn q t where "pfn \<in> set (pfn_range start fin)" "pt (sys_mem s) pfn = Some (q, t)"
      "b_ptr b' ! k = page_data (sys_mem s) q"
      using do_read_content unfolding dmirror_do_read_def by blast
    with coherentD [OF coh] show "\<exists>pfn\<in>set (pfn_range start fin). \<exists>q w. cpu (sys_mem s) pfn = Some (q, w)
        \<and> b_ptr b' ! k = page_data (sys_mem s) q" by blast
  }
qed

theorem access_mapped_witness:
  "\<exists>s. sys_step writing s \<and> page_data (sys_mem s) 100 = [1] \<and> cpu (sys_mem writing) 16 = Some (100, True)"
proof -
  let ?m = "sys_mem writing" and ?j = "io_job True 0x10000 0x12000 0x10000 two_pages 1"
  obtain b where w: "dmirror_do_write 0x10000 0x12000 ?m two_pages = (0, ?m\<lparr>page_data := (page_data ?m)(100 := [1], 101 := [2])\<rparr>, b)"
    by (simp add: dmirror_do_write_def small_range writing_def two_pages_def bounce_index_def PAGE_MASK_def DPT_XA_TAG_WRITE_def)
  have "\<exists>s. sys_step writing s \<and> page_data (sys_mem s) = (page_data ?m)(100 := [1], 101 := [2])"
    using sys_step.thread [of writing 0] tstep.do_write [of ?j, simplified, OF w] by (fastforce simp: writing_def)
  then obtain s where s: "sys_step writing s" "page_data (sys_mem s) = (page_data ?m)(100 := [1], 101 := [2])" by blast
  then have ne: "page_data (sys_mem s) 100 \<noteq> page_data ?m 100" by (simp add: writing_def)
  have "\<exists>i j pfn. sys_thr writing i = Access j \<and> j_write j \<and> pfn \<in> set (pfn_range (j_start j) (j_fin j))
      \<and> cpu ?m pfn = Some (100, True)"
    using access_mapped [OF writing_reachable, of s 100 0 0 two_pages 0 two_pages 0] s(1) ne by blast
  then have "\<exists>pfn. cpu ?m pfn = Some (100, True) \<and> pfn \<in> {16, 17}"
    by (auto simp: writing_def at_state_def fresh_def small_range split: if_splits)
  then have "cpu ?m 16 = Some (100, True)" by (auto simp: writing_def)
  with s show ?thesis by auto
qed

end
