(* ===== verification/Migrate_Range.thy ===== *)
theory Migrate_Range
  imports Migrate_Balance
begin

text \<open>
  Migration by frame instead of by address: \<open>migrate_device_range\<close>, with which a driver empties its memory. It
  takes the pages of a range that are in use, and hands them back like those of \<open>migrate_vma_setup\<close>.
\<close>

section \<open>Which pages are taken\<close>

text \<open>An entry of the array at the place of frame \<open>p\<close>; it may stand for the page only if that was in use and not locked.\<close>

definition entry_of :: "mm_state \<Rightarrow> page \<Rightarrow> mpfn \<Rightarrow> bool" where
  "entry_of m p s \<longleftrightarrow> (mp_valid s \<longrightarrow> mp_page s = p \<and> refcount (meta m p) \<noteq> 0 \<and> \<not> is_locked m p)"

lemma entry_of_simps [simp]:
  "entry_of m p no_pfn" "entry_of m p (stop_migrating s) = entry_of m p s"
  by (simp_all add: entry_of_def)

lemma collected_page:
  assumes "collected m0 ss m" and "\<not> is_locked m p" and "p \<notin> set (pages_of ss)"
  shows "collected m0 (ss @ [(migrate_pfn p)\<lparr>mp_migrate := True\<rparr>]) (lock_page p (get_page p m))"
  using assms holds_take [of m0 "set (pages_of ss)" m p "lock_page p (get_page p m)"]
  by (simp add: collected_def page_simps)

lemma get_put_same: "same_pins m (put_page p (get_page p m))"
  by (simp add: same_pins_def page_simps)

lemma other_page:
  "p \<noteq> q \<Longrightarrow> meta (get_page q m) p = meta m p" "p \<noteq> q \<Longrightarrow> meta (put_page q m) p = meta m p"
  "p \<noteq> q \<Longrightarrow> meta (lock_page q m) p = meta m p"
  by (simp_all add: get_page_def put_page_def lock_page_def set_meta_def)

lemma range_entries:
  assumes "distinct ps" and "\<forall>p\<in>set ps. meta m1 p = meta m p" and "device_range_loop ps m1 = (ss, m')"
  shows "list_all2 (entry_of m) ps ss"
  using assms
proof (induction ps arbitrary: m1 ss m')
  case (Cons p ps)
  let ?m = "get_page p m1"
  define s m2 where "s = (if refcount (meta m1 p) = 0 \<or> locked (meta ?m p) then no_pfn else (migrate_pfn p)\<lparr>mp_migrate := True\<rparr>)"
    and "m2 = (if refcount (meta m1 p) = 0 then m1 else if locked (meta ?m p) then put_page p ?m else lock_page p ?m)"
  obtain ss1 m3 where rest: "device_range_loop ps m2 = (ss1, m3)" by fastforce
  then have ss: "ss = s # ss1" using Cons.prems(3) by (auto simp: s_def m2_def Let_def split: if_splits)
  have "meta m2 q = meta m1 q" if "q \<noteq> p" for q
    using that by (simp add: m2_def other_page)
  then have "\<forall>q\<in>set ps. meta m2 q = meta m q"
    using Cons.prems(1,2) by (metis distinct.simps(2) list.set_intros(2))
  with Cons.IH [OF _ _ rest] Cons.prems(1) have "list_all2 (entry_of m) ps ss1" by simp
  moreover have "is_locked ?m p = is_locked m1 p" by (simp add: page_simps)
  then have "entry_of m p s"
    using Cons.prems(2) by (simp add: entry_of_def s_def is_locked_def)
  ultimately show ?case using ss by simp
qed simp

lemma range_collected:
  assumes "collected m0 ss0 m1" and "distinct ps" and "set ps \<inter> set (pages_of ss0) = {}" and "device_range_loop ps m1 = (ss, m')"
  shows "collected m0 (ss0 @ ss) m'"
  using assms
proof (induction ps arbitrary: ss0 m1 ss m')
  case (Cons p ps)
  let ?m = "get_page p m1"
  define s m2 where "s = (if refcount (meta m1 p) = 0 \<or> locked (meta ?m p) then no_pfn else (migrate_pfn p)\<lparr>mp_migrate := True\<rparr>)"
    and "m2 = (if refcount (meta m1 p) = 0 then m1 else if locked (meta ?m p) then put_page p ?m else lock_page p ?m)"
  obtain ss1 m3 where rest: "device_range_loop ps m2 = (ss1, m3)" by fastforce
  then have ss: "ss = s # ss1" "m' = m3" using Cons.prems(4) by (auto simp: s_def m2_def Let_def split: if_splits)
  have "is_locked ?m p = is_locked m1 p" by (simp add: page_simps)
  then have taken: "collected m0 (ss0 @ [s]) m2"
    using Cons.prems(1,3) collected_plain collected_same [OF collected_plain get_put_same] collected_page
    by (auto simp: s_def m2_def is_locked_def)
  have "set ps \<inter> set (pages_of (ss0 @ [s])) = {}"
    using Cons.prems(2,3) by (auto simp: s_def)
  from Cons.IH [OF taken _ this rest] Cons.prems(2) ss show ?case by simp
qed simp

text \<open>\<open>migrate_device_unmap\<close> gives entries up, but never renames one.\<close>

lemma unmap_loop_entries:
  "unmap_loop env fp ad ss m1 = (ss', u, r, m') \<Longrightarrow> list_all2 (entry_of m) ps ss \<Longrightarrow> list_all2 (entry_of m) ps ss'"
proof (induction ss arbitrary: ps ad m1 ss' u r m')
  case (Cons s ss)
  then show ?case
    by (fastforce simp: list_all2_Cons2 Let_def split: option.splits prod.splits if_splits)
qed simp

lemma restore_loop_entries:
  "restore_loop env r ss m1 = (ss', m') \<Longrightarrow> list_all2 (entry_of m) ps ss \<Longrightarrow> list_all2 (entry_of m) ps ss'"
proof (induction env r ss m1 arbitrary: ps ss' m' rule: restore_loop.induct)
  case (3 env r s ss m1)
  then show ?case by (fastforce simp: list_all2_Cons2 split: option.splits prod.splits)
qed simp_all

lemma device_unmap_entries:
  "migrate_device_unmap env fp ss m1 = (ss', u, m') \<Longrightarrow> list_all2 (entry_of m) ps ss \<Longrightarrow> list_all2 (entry_of m) ps ss'"
  by (auto simp: migrate_device_unmap_def split: prod.splits dest!: unmap_loop_entries intro: restore_loop_entries)

lemma device_range_ok:
  assumes "rmap_ok env" and "migrate_device_range env start n m = (r, src, m')"
  shows "r = 0 \<and> list_all2 (entry_of m) [start..<start + n] src \<and> collected m src m'"
proof -
  obtain ss m1 where loop: "device_range_loop [start..<start + n] m = (ss, m1)" by fastforce
  obtain src1 u m2 where un: "migrate_device_unmap env None ss m1 = (src1, u, m2)" by (metis prod_cases3)
  have res: "r = 0" "src = src1" "m' = m2" using assms(2) loop un by (simp_all add: migrate_device_range_def)
  have "collected m [] m" by (simp add: collected_def)
  from range_collected [OF this _ _ loop] have "collected m ss m1" by simp
  from device_unmap_ok [OF assms(1) un this] device_unmap_entries [OF un range_entries [OF _ _ loop, of m]] res
  show ?thesis by simp
qed

section \<open>Emptying device memory\<close>

text \<open>
  What a driver does between the two calls: entries of \<open>src\<close> keep their pages, and the destinations are new pages that it
  has locked and holds one reference of.
\<close>

definition supplied :: "mpfn list \<Rightarrow> mm_state \<Rightarrow> mpfn list \<Rightarrow> mpfn list \<Rightarrow> mm_state \<Rightarrow> bool" where
  "supplied src m src' dst m' \<longleftrightarrow> pages_of src' = pages_of src \<and> length src' = length dst
     \<and> distinct (pages_of dst) \<and> set (pages_of dst) \<inter> set (pages_of src) = {} \<and> (\<forall>p\<in>set (pages_of dst). \<not> is_locked m p)
     \<and> is_locked m' = (\<lambda>p. is_locked m p \<or> p \<in> set (pages_of dst))
     \<and> pins m' = (\<lambda>p. pins m p + of_bool (p \<in> set (pages_of dst)))"



end
