(* ===== verification/Vma_Iter.thy ===== *)
theory Vma_Iter
  imports Internal
begin

text \<open>
  The VMA iterator of \<open>mm/internal.h\<close>. The maple tree and its operations are not part of the program: they are the
  fields of \<open>maple\<close>, with \<open>maple_ok\<close> for what the iterator relies on. A maple state remembers where its last walk ended
  and is moved by assigning to its fields, so the iterator has to forget the place whenever it leaves it.
\<close>

section \<open>Maple states\<close>

text \<open>The place of a state is \<open>MAS_START\<close>, or one of the other values of the field \<open>node\<close>.\<close>

datatype mas_place = MAS_START | Mas_place nat

record ma_state =
  mas_node :: mas_place
  mas_index :: u64
  mas_last :: u64

text \<open>
  The operations on a tree \<open>'t\<close> of VMAs. The first three fields are not operations: what the tree holds at an address,
  when a state may be used for a walk or store at its index, and when it is at rest on its range.
\<close>

record 't maple =
  contents :: "'t \<Rightarrow> u64 \<Rightarrow> vm_area_struct option"
  may_use :: "'t \<Rightarrow> ma_state \<Rightarrow> bool"
  resting :: "'t \<Rightarrow> ma_state \<Rightarrow> bool"
  mas_preallocate :: "'t \<Rightarrow> ma_state \<Rightarrow> int \<times> ma_state"
  mas_set_range :: "ma_state \<Rightarrow> u64 \<Rightarrow> u64 \<Rightarrow> ma_state"
  vma_iter_invalidate :: "ma_state \<Rightarrow> ma_state"
  mas_walk :: "'t \<Rightarrow> ma_state \<Rightarrow> vm_area_struct option \<times> ma_state"
  mas_store_prealloc :: "'t \<Rightarrow> ma_state \<Rightarrow> vm_area_struct option \<Rightarrow> 't \<times> ma_state"
  mas_store_gfp :: "'t \<Rightarrow> ma_state \<Rightarrow> vm_area_struct option \<Rightarrow> 't \<times> ma_state"
  mas_is_err :: "ma_state \<Rightarrow> bool"

definition overwritten :: "(u64 \<Rightarrow> 'a option) \<Rightarrow> u64 \<Rightarrow> u64 \<Rightarrow> 'a option \<Rightarrow> u64 \<Rightarrow> 'a option" where
  "overwritten c first end_at e = (\<lambda>i. if first \<le> i \<and> i \<le> end_at then e else c i)"

text \<open>
  The laws. A state may be used if it starts from the root, has been reset, or stays in the range it is at rest on. A
  walk then finds the entry of the index; a store replaces the entries of the range and no others; \<open>mas_store_gfp\<close> may
  fail, which leaves the tree as it was.
\<close>

definition stores :: "'t maple \<Rightarrow> 't \<Rightarrow> ma_state \<Rightarrow> vm_area_struct option \<Rightarrow> 't \<Rightarrow> ma_state \<Rightarrow> bool" where
  "stores M t s e t' s' \<longleftrightarrow> contents M t' = overwritten (contents M t) (mas_index s) (mas_last s) e
     \<and> resting M t' s' \<and> mas_index s' = mas_index s \<and> mas_last s' = mas_last s"

definition places_ok :: "'t maple \<Rightarrow> bool" where
  "places_ok M \<longleftrightarrow> (\<forall>t s. mas_node s = MAS_START \<longrightarrow> may_use M t s)
    \<and> (\<forall>t s i l. resting M t s \<and> mas_index s \<le> i \<and> i \<le> mas_last s \<longrightarrow> may_use M t (s\<lparr>mas_index := i, mas_last := l\<rparr>))
    \<and> (\<forall>t s i l. may_use M t ((vma_iter_invalidate M s)\<lparr>mas_index := i, mas_last := l\<rparr>))
    \<and> (\<forall>t s i l. may_use M t (mas_set_range M s i l) \<and> mas_index (mas_set_range M s i l) = i \<and> mas_last (mas_set_range M s i l) = l)"

definition maple_ok :: "'t maple \<Rightarrow> bool" where
  "maple_ok M \<longleftrightarrow> places_ok M
    \<and> (\<forall>t s e s'. may_use M t s \<and> mas_walk M t s = (e, s') \<longrightarrow>
       e = contents M t (mas_index s) \<and> resting M t s' \<and> mas_index s' \<le> mas_index s \<and> mas_index s \<le> mas_last s')
    \<and> (\<forall>t s e t' s'. may_use M t s \<and> mas_index s \<le> mas_last s \<and> mas_store_prealloc M t s e = (t', s') \<longrightarrow> stores M t s e t' s')
    \<and> (\<forall>t s e t' s'. may_use M t s \<and> mas_index s \<le> mas_last s \<and> mas_store_gfp M t s e = (t', s') \<longrightarrow>
       (if mas_is_err M s' then contents M t' = contents M t else stores M t s e t' s'))"

section \<open>The iterator\<close>

definition vma_iter_prealloc :: "'t maple \<Rightarrow> 't \<Rightarrow> ma_state \<Rightarrow> int \<times> ma_state" where
  "vma_iter_prealloc M t vmi = mas_preallocate M t vmi"

definition vma_iter_clear :: "'t maple \<Rightarrow> 't \<Rightarrow> ma_state \<Rightarrow> u64 \<Rightarrow> u64 \<Rightarrow> 't \<times> ma_state" where
  "vma_iter_clear M t vmi start fin = mas_store_prealloc M t (mas_set_range M vmi start (fin - 1)) None"

definition vma_iter_load :: "'t maple \<Rightarrow> 't \<Rightarrow> ma_state \<Rightarrow> vm_area_struct option \<times> ma_state" where
  "vma_iter_load M t vmi = mas_walk M t vmi"

definition vma_iter_store :: "'t maple \<Rightarrow> 't \<Rightarrow> ma_state \<Rightarrow> vm_area_struct \<Rightarrow> 't \<times> ma_state" where
  "vma_iter_store M t vmi vma =
    (let vmi = (if mas_node vmi \<noteq> MAS_START \<and> (mas_index vmi > vm_start vma \<or> mas_last vmi < vm_start vma)
                then vma_iter_invalidate M vmi else vmi);
         vmi = vmi\<lparr>mas_index := vm_start vma, mas_last := vm_end vma - 1\<rparr>
     in mas_store_prealloc M t vmi (Some vma))"

definition vma_iter_store_gfp :: "'t maple \<Rightarrow> 't \<Rightarrow> ma_state \<Rightarrow> vm_area_struct \<Rightarrow> int \<times> 't \<times> ma_state" where
  "vma_iter_store_gfp M t vmi vma =
    (let vmi = (if mas_node vmi \<noteq> MAS_START \<and> (mas_index vmi > vm_start vma \<or> mas_last vmi < vm_start vma)
                then vma_iter_invalidate M vmi else vmi);
         vmi = vmi\<lparr>mas_index := vm_start vma, mas_last := vm_end vma - 1\<rparr>;
         (t, vmi) = mas_store_gfp M t vmi (Some vma)
     in if mas_is_err M vmi then (- ENOMEM, t, vmi) else (0, t, vmi))"

text \<open>Between two operations an iterator starts from the root or rests on a range.\<close>

definition iter_ok :: "'t maple \<Rightarrow> 't \<Rightarrow> ma_state \<Rightarrow> bool" where
  "iter_ok M t vmi \<longleftrightarrow> mas_node vmi = MAS_START \<or> resting M t vmi"

definition holding :: "vm_area_struct \<Rightarrow> (u64 \<Rightarrow> vm_area_struct option) \<Rightarrow> u64 \<Rightarrow> vm_area_struct option" where
  "holding vma c = (\<lambda>i. if vm_start vma \<le> i \<and> i < vm_end vma then Some vma else c i)"

lemma last_address:
  fixes a b i :: u64
  assumes "a < b"
  shows "a \<le> b - 1" "i \<le> b - 1 \<longleftrightarrow> i < b"
proof -
  have "unat (b - 1) = unat b - 1" using assms by (metis unat_minus_one word_not_simps(1))
  with assms show "a \<le> b - 1" "i \<le> b - 1 \<longleftrightarrow> i < b" by (auto simp: word_le_nat_alt word_less_nat_alt)
qed

lemma overwritten_vma:
  "vm_start vma < vm_end vma \<Longrightarrow> overwritten c (vm_start vma) (vm_end vma - 1) (Some vma) = holding vma c"
  by (simp add: overwritten_def holding_def last_address)

text \<open>The guard makes every state may_use at the start of the VMA.\<close>

lemma store_usable:
  assumes "places_ok M" and "iter_ok M t vmi"
  shows "may_use M t ((if mas_node vmi \<noteq> MAS_START \<and> (mas_index vmi > i \<or> mas_last vmi < i)
    then vma_iter_invalidate M vmi else vmi)\<lparr>mas_index := i, mas_last := l\<rparr>)"
  using assms by (auto simp: places_ok_def iter_ok_def not_less)

lemma load_usable:
  assumes "places_ok M" and "resting M t vmi" and "mas_index vmi \<le> mas_last vmi"
  shows "may_use M t vmi"
proof -
  have "may_use M t (vmi\<lparr>mas_index := mas_index vmi, mas_last := mas_last vmi\<rparr>)"
    using assms unfolding places_ok_def by blast
  then show ?thesis by simp
qed

lemma maple_walk: "maple_ok M \<Longrightarrow> may_use M t s \<Longrightarrow> mas_walk M t s = (e, s') \<Longrightarrow> e = contents M t (mas_index s)"
  unfolding maple_ok_def by blast

lemma maple_store:
  "maple_ok M \<Longrightarrow> may_use M t s \<Longrightarrow> mas_index s \<le> mas_last s \<Longrightarrow> mas_store_prealloc M t s e = (t', s') \<Longrightarrow> stores M t s e t' s'"
  unfolding maple_ok_def by blast

lemma maple_store_gfp:
  "maple_ok M \<Longrightarrow> may_use M t s \<Longrightarrow> mas_index s \<le> mas_last s \<Longrightarrow> mas_store_gfp M t s e = (t', s') \<Longrightarrow>
    if mas_is_err M s' then contents M t' = contents M t else stores M t s e t' s'"
  unfolding maple_ok_def by blast

lemma stores_vma:
  assumes "stores M t s (Some vma) t' s'" and "mas_index s = vm_start vma" and "mas_last s = vm_end vma - 1"
    and "vm_start vma < vm_end vma" and "maple_ok M"
  shows "contents M t' = holding vma (contents M t)" "iter_ok M t' s'" "fst (vma_iter_load M t' s') = Some vma"
proof -
  show c: "contents M t' = holding vma (contents M t)" and "iter_ok M t' s'"
    using assms(1-4) by (simp_all add: stores_def iter_ok_def overwritten_vma)
  have at: "resting M t' s'" "mas_index s' = vm_start vma" "mas_index s' \<le> mas_last s'"
    using assms(1-4) last_address(1) by (simp_all add: stores_def)
  have "may_use M t' s'" using assms(5) at(1,3) by (intro load_usable) (simp_all add: maple_ok_def)
  moreover obtain e s'' where w: "mas_walk M t' s' = (e, s'')" by fastforce
  ultimately have "e = contents M t' (vm_start vma)" using maple_walk [OF assms(5)] at(2) by metis
  with w c assms(4) show "fst (vma_iter_load M t' s') = Some vma" by (simp add: vma_iter_load_def holding_def)
qed

section \<open>What the operations do to the tree\<close>

lemma clear_contents:
  assumes "maple_ok M" and "start < fin" and "vma_iter_clear M t vmi start fin = (t', vmi')"
  shows "contents M t' = (\<lambda>i. if start \<le> i \<and> i < fin then None else contents M t i)" "iter_ok M t' vmi'"
proof -
  have s: "may_use M t (mas_set_range M vmi start (fin - 1))" "mas_index (mas_set_range M vmi start (fin - 1)) = start"
    "mas_last (mas_set_range M vmi start (fin - 1)) = fin - 1"
    using assms(1) by (simp_all add: maple_ok_def places_ok_def)
  with assms have "stores M t (mas_set_range M vmi start (fin - 1)) None t' vmi'"
    by (intro maple_store) (simp_all add: vma_iter_clear_def last_address)
  with s assms(2) show "contents M t' = (\<lambda>i. if start \<le> i \<and> i < fin then None else contents M t i)" "iter_ok M t' vmi'"
    by (simp_all add: stores_def overwritten_def iter_ok_def last_address)
qed


text \<open>An instance: trees are functions, and a place is a range whose bounds are those of the state.\<close>

definition table :: "(u64 \<Rightarrow> vm_area_struct option) maple" where
  "table = \<lparr>contents = (\<lambda>t. t), may_use = (\<lambda>t s. mas_node s = MAS_START \<or> mas_node s = Mas_place (unat (mas_index s) div 65536)),
     resting = (\<lambda>t s. \<forall>i. mas_index s \<le> i \<and> i \<le> mas_last s \<longrightarrow> mas_node s = Mas_place (unat i div 65536) \<or> mas_node s = MAS_START),
     mas_preallocate = (\<lambda>t s. (0, s)),
     mas_set_range = (\<lambda>s i l. \<lparr>mas_node = MAS_START, mas_index = i, mas_last = l\<rparr>),
     vma_iter_invalidate = (\<lambda>s. s\<lparr>mas_node := MAS_START\<rparr>),
     mas_walk = (\<lambda>t s. if mas_node s = MAS_START \<or> mas_node s = Mas_place (unat (mas_index s) div 65536)
       then (t (mas_index s), s\<lparr>mas_node := Mas_place (unat (mas_index s) div 65536), mas_last := mas_index s\<rparr>) else (None, s)),
     mas_store_prealloc = (\<lambda>t s e. if mas_node s = MAS_START \<or> mas_node s = Mas_place (unat (mas_index s) div 65536)
       then (overwritten t (mas_index s) (mas_last s) e, s\<lparr>mas_node := MAS_START\<rparr>) else (t, s)),
     mas_store_gfp = (\<lambda>t s e. if mas_node s = MAS_START \<or> mas_node s = Mas_place (unat (mas_index s) div 65536)
       then (overwritten t (mas_index s) (mas_last s) e, s\<lparr>mas_node := MAS_START\<rparr>) else (t, s)),
     mas_is_err = (\<lambda>s. False)\<rparr>"

lemma table_ok: "maple_ok table"
  by (auto simp: maple_ok_def places_ok_def table_def stores_def)

definition code_vma :: vm_area_struct where
  "code_vma = \<lparr>vm_start = 0x40000, vm_end = 0x42000, vm_pgoff = 0, vm_flags = 5, vm_file = 1\<rparr>"


end
