(* ===== verification/Folio.thy ===== *)
theory Folio
  imports Internal
begin

text \<open>
  The counters of a large folio and of a page that \<open>mm/internal.h\<close> reads and writes: the order and the number of pages of
  the folio, how many of its pages are mapped, the pointer in \<open>mapping\<close> below its flag bits, and the first reference of a
  page. The flag bits and tests of other headers are arguments.
\<close>

definition COMPOUND_MAPPED :: u32 where "COMPOUND_MAPPED = 0x800000"
definition FOLIO_PAGES_MAPPED :: u32 where "FOLIO_PAGES_MAPPED = COMPOUND_MAPPED - 1"

record folio =
  fo_nr_pages_mapped :: u32
  fo_mapping :: u64
  fo_large :: bool
  fo_mlocked :: bool
  fo_order :: nat
  fo_nr_pages :: u32

definition folio_nr_pages_mapped :: "folio \<Rightarrow> u32" where
  "folio_nr_pages_mapped f = fo_nr_pages_mapped f AND FOLIO_PAGES_MAPPED"

definition folio_raw_mapping :: "u64 \<Rightarrow> folio \<Rightarrow> u64" where
  "folio_raw_mapping PAGE_MAPPING_FLAGS f = fo_mapping f AND NOT PAGE_MAPPING_FLAGS"

text \<open>\<open>unevictable\<close> is \<open>mapping_unevictable\<close> of the folio's mapping.\<close>

definition folio_evictable :: "(folio \<Rightarrow> bool) \<Rightarrow> folio \<Rightarrow> bool" where
  "folio_evictable unevictable f \<longleftrightarrow> \<not> unevictable f \<and> \<not> fo_mlocked f"

text \<open>Shifting by the width of the type or more has no result.\<close>

definition folio_set_order :: "nat \<Rightarrow> folio \<Rightarrow> folio option" where
  "folio_set_order order f =
    (if \<not> fo_large f then Some f
     else if 32 \<le> order then None
     else Some (f\<lparr>fo_order := order, fo_nr_pages := (if order \<noteq> 0 then push_bit order 1 else 0)\<rparr>))"

record counted_page =
  cp_tail :: bool
  cp_refcount :: int

definition set_page_refcounted :: "counted_page \<Rightarrow> counted_page option" where
  "set_page_refcounted p = (if cp_tail p \<or> cp_refcount p \<noteq> 0 then None else Some (p\<lparr>cp_refcount := 1\<rparr>))"

record zone =
  z_contiguous :: bool
  z_free_list :: "nat \<Rightarrow> nat list"

text \<open>\<open>look\<close> is \<open>__pageblock_pfn_to_page\<close>, \<open>at\<close> is \<open>pfn_to_page\<close>.\<close>

definition pageblock_pfn_to_page :: "(u64 \<Rightarrow> u64 \<Rightarrow> zone \<Rightarrow> nat option) \<Rightarrow> (u64 \<Rightarrow> nat) \<Rightarrow> u64 \<Rightarrow> u64 \<Rightarrow> zone \<Rightarrow> nat option" where
  "pageblock_pfn_to_page look at start_pfn end_pfn z =
    (if z_contiguous z then Some (at start_pfn) else look start_pfn end_pfn z)"

definition free_area_empty :: "zone \<Rightarrow> nat \<Rightarrow> bool" where
  "free_area_empty z migratetype \<longleftrightarrow> z_free_list z migratetype = []"

text \<open>
  The flag for a mapping of the whole folio lies above the count of mapped pages, so it can be set and cleared without
  changing the count, for any folio of up to 16 GB.
\<close>

lemma nr_pages_mapped_flag:
  assumes "n \<le> 0x400000"
  shows "folio_nr_pages_mapped (f\<lparr>fo_nr_pages_mapped := n\<rparr>) = n"
    and "folio_nr_pages_mapped (f\<lparr>fo_nr_pages_mapped := n + COMPOUND_MAPPED\<rparr>) = n"
proof -
  have mask: "FOLIO_PAGES_MAPPED = mask 23" by (simp add: FOLIO_PAGES_MAPPED_def COMPOUND_MAPPED_def mask_eq_exp_minus_1)
  have n: "unat n \<le> 0x400000" using assms by (simp add: word_le_nat_alt)
  have "take_bit 23 n = n" using n by (intro word_unat_eq_iff [THEN iffD2]) (simp add: unsigned_take_bit_eq take_bit_nat_eq_self)
  then show "folio_nr_pages_mapped (f\<lparr>fo_nr_pages_mapped := n\<rparr>) = n"
    by (simp add: folio_nr_pages_mapped_def mask take_bit_eq_mask)
  have "unat (n + COMPOUND_MAPPED) = unat n + 2 ^ 23"
    using n by (simp add: COMPOUND_MAPPED_def unat_word_ariths)
  then have "unat (take_bit 23 (n + COMPOUND_MAPPED)) = unat n"
    unfolding unsigned_take_bit_eq using n by (simp add: take_bit_eq_mod)
  then have "take_bit 23 (n + COMPOUND_MAPPED) = n" by (simp add: word_unat_eq_iff)
  then show "folio_nr_pages_mapped (f\<lparr>fo_nr_pages_mapped := n + COMPOUND_MAPPED\<rparr>) = n"
    by (simp add: folio_nr_pages_mapped_def mask take_bit_eq_mask)
qed

text \<open>The order of a large folio and its number of pages agree; a folio that is not large keeps both.\<close>

lemma folio_set_order_pages:
  assumes "order < 32" and "fo_large f"
  obtains f' where "folio_set_order order f = Some f'" "fo_order f' = order"
    "unat (fo_nr_pages f') = (if order = 0 then 0 else 2 ^ order)"
proof -
  have "unat (push_bit order (1 :: u32)) = 2 ^ order"
  proof -
    have "push_bit order (1 :: u32) = of_nat (2 ^ order)" by (simp add: push_bit_eq_mult)
    moreover have "(2 :: nat) ^ order < 2 ^ 32" using assms(1) by (rule power_strict_increasing) simp
    then have "unat (of_nat (2 ^ order) :: u32) = 2 ^ order"
      unfolding unsigned_of_nat by (subst take_bit_nat_eq_self) simp_all
    ultimately show ?thesis by (simp only:)
  qed
  with assms that show ?thesis by (auto simp: folio_set_order_def)
qed

end
