(* ===== verification/User.thy ===== *)
theory User
  imports Nmsg
begin

text \<open>
  The test program of \<open>user.c\<close>: it maps the device, prints the string in its memory, stores a message, waits, and prints
  the string again. The results of the system calls are the fields of \<open>user_env\<close>; the memory of the mapping is a list of
  bytes, and printing a string that is not terminated within it runs off the mapping, which has no result.
\<close>

record user_env =
  us_open :: int
  us_mmap :: bool
  us_pid :: int
  us_during :: "u8 list \<Rightarrow> u8 list"
  us_munmap :: int

datatype user_call =
    Open string
  | Mmap nat int
  | Print_pid int
  | Print_map
  | Print_read "u8 list"
  | Sleep nat
  | Munmap nat
  | Perror string
  | Close int

text \<open>\<open>getpagesize\<close> returns the page size of the platform.\<close>

definition DEVICE_PATH :: string where "DEVICE_PATH = ''/dev/mmap_dev''"
definition DEVICE_SIZE :: nat where "DEVICE_SIZE = 4 * page_bytes"

definition user_message :: "u8 list" where
  "user_message = literal ''Hello, mmap_dev!''"

definition read_string :: "u8 list \<Rightarrow> u8 list option" where
  "read_string mem = (if 0 \<in> set mem then Some (cstr mem) else None)"

text \<open>The last part of \<open>main\<close>, from \<open>munmap\<close> on.\<close>

definition main_unmap :: "user_env \<Rightarrow> int \<times> user_call list" where
  "main_unmap e =
    (if us_munmap e = - 1 then (1, [Munmap DEVICE_SIZE, Perror ''munmap'', Close (us_open e)])
     else (0, [Munmap DEVICE_SIZE, Close (us_open e)]))"

definition main :: "user_env \<Rightarrow> u8 list \<Rightarrow> (int \<times> user_call list \<times> u8 list) option" where
  "main e mem =
    (let fd = us_open e
     in if fd = - 1 then Some (1, [Open DEVICE_PATH, Perror ''open''], mem)
        else if \<not> us_mmap e then Some (1, [Open DEVICE_PATH, Mmap DEVICE_SIZE fd, Perror ''mmap'', Close fd], mem)
        else case read_string mem of None \<Rightarrow> None
        | Some first \<Rightarrow>
          let mem = (user_message @ [0]) @ drop (length user_message + 1) mem;
              mem = us_during e mem
          in case read_string mem of None \<Rightarrow> None
          | Some second \<Rightarrow>
            let (ret, calls) = main_unmap e
            in Some (ret, [Open DEVICE_PATH, Mmap DEVICE_SIZE fd, Print_pid (us_pid e), Print_map, Print_read first, Sleep 5,
                 Print_read second] @ calls, mem))"

text \<open>On every path the descriptor is closed once, as the last call, and the exit status tells whether all calls succeeded.\<close>

lemma main_closes:
  assumes "main e mem = Some (ret, calls, mem')"
  shows "ret = (if us_open e \<noteq> - 1 \<and> us_mmap e \<and> us_munmap e \<noteq> - 1 then 0 else 1)"
    and "[c \<leftarrow> calls. case c of Close _ \<Rightarrow> True | _ \<Rightarrow> False] = (if us_open e = - 1 then [] else [Close (us_open e)])"
    and "us_open e \<noteq> - 1 \<Longrightarrow> last calls = Close (us_open e)"
  using assms by (auto simp: main_def main_unmap_def Let_def split: option.splits if_splits)

text \<open>On memory that holds a string the program comes to its end, and reads its own message if nobody else has stored.\<close>

lemma main_reads_message:
  assumes "us_open e \<noteq> - 1" and "us_mmap e" and "0 \<in> set mem" and "us_during e = (\<lambda>m. m)"
  shows "\<exists>ret calls mem'. main e mem = Some (ret, calls, mem')
    \<and> [c \<leftarrow> calls. case c of Print_read _ \<Rightarrow> True | _ \<Rightarrow> False] = [Print_read (cstr mem), Print_read user_message]
    \<and> cstr mem' = user_message \<and> (length user_message < length mem \<longrightarrow> length mem' = length mem)"
proof -
  have "0 \<notin> set user_message" by (simp add: user_message_def literal_def of_char_def)
  then have message: "cstr ((user_message @ [0]) @ r) = user_message" for r
    unfolding cstr_def append_assoc by (subst takeWhile_append2) auto
  have none: "[c \<leftarrow> snd (main_unmap e). case c of Print_read _ \<Rightarrow> True | _ \<Rightarrow> False] = []" by (simp add: main_unmap_def)
  obtain ret calls where last: "main_unmap e = (ret, calls)" by fastforce
  from assms message none last show ?thesis
    by (simp add: main_def read_string_def Let_def) auto
qed

end
