(* ===== verification/Spec2Isabelle.thy ===== *)
theory Spec2Isabelle
  imports Prelude Hash Bench Rdma_Common Rdma_Client Rdma_Server Rdma_Protocol
    Devmem Dmirror Dmirror_Coherence Dmirror_IO Dmirror_Write Dmirror_Access Dmirror_Migrate Hmm_Module Hmm_Boot
    Mem Nmsg Nmsg_Server Nmsg_Client Migrate_Device Migrate_Balance Migrate_Pages Migrate_Remap Devmem_Refine Nmsg_Table Internal Buddy
    Driver_Kernel Rdma_Addr Dmirror_Threads Dmirror_Runs Migrate_Range Vma_Iter Folio User
begin

text \<open>
  RSHM: experiments towards transparent distributed shared memory in the Linux kernel.

  The program. The repository holds several kernel modules. \<open>hmm.c\<close> is a driver whose devices have memory
  of their own and mirror the address space of the process that opens them. \<open>mm/nmsg_rdma_client.c\<close> and
  \<open>mm/nmsg_rdma_server.c\<close> are the two ends of a transport that advertises a buffer and lets the other side
  fetch it by RDMA; \<open>mm/nmsg.c\<close> is a transport over UDP with a table of pages (\<open>mm/mem.c\<close>), and
  \<open>mm/migrate_device.c\<close> a version of the kernel's page migration that asks it for pages. \<open>hash.c\<close> and \<open>copy.c\<close> measure hashing and page copies.

  The theories.

  \<^item> \<open>Prelude\<close>: machine words, page constants, error numbers and the word lemmas that all parts share.

  \<^item> \<open>Hash\<close>: \<open>XXH3_64bit\<close> of \<open>hash.c\<close> on 64-bit words, with memory as a function from offsets to
    bytes so that loads past the string are visible. The pointer loops equal a fold over blocks; the hash
    separates strings that differ in one word, ignores part of the tail, and reads past the end of some strings.

  \<^item> \<open>Bench\<close>: the entries of \<open>copy.c\<close> and \<open>hash.c\<close>. The clock is a function from the number of reads;
    the loop over \<open>i\<close> is a partial function, shown to end. The trace of allocations is balanced on every path.

  \<^item> \<open>Rdma_Common\<close>, \<open>Rdma_Client\<close>, \<open>Rdma_Server\<close>, \<open>Rdma_Protocol\<close>: the handler block is a record that
    also counts the resources held and released; \<open>wait_event_interruptible\<close> consumes a list of
    happenings (handlers, schedulings, signals), which is how all interleavings are covered. The locale
    \<open>completion_queue\<close> is the contract of a completion handler, \<open>qp_lifecycle\<close> that of setting up and freeing a
    queue pair; both ends interpret both. \<open>Rdma_Protocol\<close> puts the ends together; \<open>Rdma_Addr\<close> has the
    address both ends are given.

  \<^item> \<open>Devmem\<close>, \<open>Devmem_Refine\<close>: the device memory of \<open>hmm.c\<close>. The free list is threaded through \<open>zone_device_data\<close> as in
    the code; \<open>chain\<close> relates it to a list of pages and \<open>device_ok\<close> is the invariant of a device. The locale
    \<open>page_pool\<close> is the contract of the allocator, and \<open>Devmem_Refine\<close> derives from it that the list implements
    an abstract stack of pages under any sequence of operations.

  \<^item> \<open>Dmirror\<close>, \<open>Dmirror_Coherence\<close>, \<open>Dmirror_IO\<close>, \<open>Dmirror_Write\<close>, \<open>Dmirror_Access\<close>: the mirror of one
    process. Its page table \<open>pt\<close> and the CPU's page table \<open>cpu\<close> are maps; \<open>coherent\<close> relates them. Commands work
    in pieces of 64 pages; the locale \<open>piecewise\<close> holds the induction over pieces and is interpreted for
    faulting, snapshots and exclusive access.

  \<^item> \<open>Dmirror_Threads\<close>, \<open>Dmirror_Runs\<close>: the same mirror under concurrency. A step relation runs any number of threads, each at
    a control point of \<open>dmirror_read\<close>, \<open>dmirror_write\<close>, \<open>dmirror_fault\<close> or \<open>dmirror_range_fault\<close>, with changes of the page
    table and overlapping invalidations; \<open>sys_ok\<close> is its inductive invariant. The handlers above, which take their
    environment as a list, are runs of this system.

  \<^item> \<open>Dmirror_Migrate\<close>: migration in both directions and the CPU fault on a device page.

  \<^item> \<open>Hmm_Module\<close>, \<open>Hmm_Boot\<close>: the device file with its \<open>ioctl\<close> dispatcher, and loading and unloading.

  \<^item> \<open>Mem\<close>, \<open>Nmsg\<close>, \<open>Nmsg_Server\<close>, \<open>Nmsg_Client\<close>, \<open>Nmsg_Table\<close>: the table of shared pages (\<open>mm/mem.c\<close>) and the UDP transport
    (\<open>mm/nmsg.c\<close>). Sockets and buffers are objects of the state, so that using or releasing one twice has no result.
    The server's loop is a list of turns, in which other threads may act. \<open>Nmsg_Table\<close> types the table:
    every entry names an allocated page of its own.

  \<^item> \<open>Migrate_Device\<close>, \<open>Migrate_Balance\<close>, \<open>Migrate_Pages\<close>, \<open>Migrate_Remap\<close>: page migration (\<open>mm/migrate_device.c\<close>) on reference
    counts, map counts, page locks and page table entries. \<open>Migrate_Balance\<close> follows locks and references over a
    whole migration; \<open>Migrate_Pages\<close> has the step in the middle, with \<open>retrieve_page\<close>, which composes the transport
    with the migration; \<open>Migrate_Remap\<close> follows the page table through a migration that replaces pages, and
    through the one of this program; \<open>Migrate_Range\<close> has migration by frame. \<open>Driver_Kernel\<close> composes it with the driver of \<open>hmm.c\<close>.

  \<^item> \<open>Internal\<close>, \<open>Buddy\<close>: helpers of \<open>mm/internal.h\<close>, among them the addresses of a page range in a VMA and the
    arithmetic of buddies, related to sets of addresses and frames in unbounded numbers. \<open>Vma_Iter\<close> has the VMA iterator
    over a maple tree that is a parameter, \<open>Folio\<close> the counters of a folio.

  \<^item> \<open>User\<close>: the test program \<open>user.c\<close> with the sequence of its system calls.

  Conventions. A function that may not return, crash or run out of the attempts it is given has an
  option type, \<open>None\<close> standing for the case without a result. Where a loop depends on what the
  kernel or another thread does, the list of their answers bounds it; theorems that say that a command
  completes give such a list explicitly. Error numbers are negative integers as in the code. Results of
  kernel functions (allocation, page-table walks, the verbs, the clock) are arguments; hypotheses on them
  state their documented behaviour and every theorem that has such a hypothesis is followed by an instance.
  Locks are not modelled: a step that runs under a mutex is one step, and what other threads do is placed
  between the steps. \<open>hmm.c\<close> as committed lacks the name of the spin lock and the target of one
  assignment; the model takes the evident reading.

  Not modelled. Of \<open>mm/internal.h\<close>, a copy of a kernel header, the declarations, configuration macros and one-line
  wrappers, all of whose content is elsewhere; of the VMA iterator, the warnings that only a debugging kernel prints.
  Logging and TLB flushes have no counterpart in the state.
\<close>

end
